(* ===== verification/Prelude.thy ===== *)
theory Prelude
  imports Main "HOL-Library.Word" "HOL-Library.Monad_Syntax" "HOL-Library.Sublist"
begin

text \<open>
  The vocabulary the component theories share: bytes and Go slices, Go's 64-bit
  \<open>int\<close>, string literals, the error values of the program and the generic lemmas on
  them.  A Go run-time panic is the value \<open>None\<close> of an \<open>option\<close>; an error return is
  the left summand of \<open>error + 'a\<close>.
\<close>

unbundle bit_operations_syntax

section \<open>Bytes, strings and Go integers\<close>

type_synonym byte = "8 word"
type_synonym bytes = "byte list"
type_synonym u16 = "16 word"
type_synonym u32 = "32 word"
type_synonym u64 = "64 word"

text \<open>A Go \<open>string\<close> and a Go \<open>[]byte\<close> are both byte sequences; \<open>str\<close> is a Go literal.\<close>

definition str :: "string \<Rightarrow> bytes" where
  "str s = map of_char s"

text \<open>Go's \<open>int\<close> has 64 bits: sums that may overflow are wrapped to that width.\<close>

definition wrap64 :: "int \<Rightarrow> int" where
  "wrap64 x = signed_take_bit 63 x"

lemma wrap64_id [simp]: "- (2 ^ 63) \<le> x \<Longrightarrow> x < 2 ^ 63 \<Longrightarrow> wrap64 x = x"
  by (simp add: wrap64_def signed_take_bit_int_eq_self_iff)

lemma wrap64_range: "- (2 ^ 63) \<le> wrap64 x \<and> wrap64 x < 2 ^ 63"
  unfolding wrap64_def
  using signed_take_bit_int_greater_eq_minus_exp [of 63 x]
    signed_take_bit_int_less_exp [of 63 x] by simp

lemma wrap64_mod: "wrap64 x = (x + 2 ^ 63) mod 2 ^ 64 - 2 ^ 63"
  by (simp add: wrap64_def signed_take_bit_eq_take_bit_shift take_bit_eq_mod)

lemma wrap64_over:
  assumes "2 ^ 63 \<le> x" and "x < 2 ^ 64 + 2 ^ 63"
  shows "wrap64 x = x - 2 ^ 64"
proof -
  have "(x + 2 ^ 63) mod 2 ^ 64 = x - 2 ^ 63"
    by (rule int_mod_pos_eq [where q = 1]) (use assms in auto)
  then show ?thesis by (simp add: wrap64_mod)
qed

lemma wrap64_under:
  assumes "- (2 ^ 64) - 2 ^ 63 \<le> x" and "x < - (2 ^ 63)"
  shows "wrap64 x = x + 2 ^ 64"
proof -
  have "(x + 2 ^ 63) mod 2 ^ 64 = x + 2 ^ 63 + 2 ^ 64"
    by (rule int_mod_pos_eq [where q = "- 1"]) (use assms in auto)
  then show ?thesis by (simp add: wrap64_mod)
qed

section \<open>Error values\<close>

text \<open>
  The sentinel errors of \<open>mysql/errors.go\<close>, the two errors of \<open>database/sql/driver\<close>
  and the two of \<open>io\<close> the code compares against, the server's own error packet, the
  errors of the operating system or of a library (numbered), and the errors built with
  \<open>errors.New\<close> or \<open>fmt.Errorf\<close> (their constant text).
\<close>

datatype error =
    ErrInvalidConn | ErrMalformPkt | ErrNoTLS | ErrCleartextPassword
  | ErrNativePassword | ErrOldPassword | ErrUnknownPlugin | ErrOldProtocol
  | ErrPktSync | ErrPktSyncMul | ErrPktTooLarge | ErrBusyBuffer | ErrBadConnNoWrite
  | DriverErrBadConn | DriverErrSkip
  | IoEOF | IoUnexpectedEOF
  | MySQLError u16 bytes bytes
  | OsError nat
  | FmtError string

section \<open>Go slices\<close>

text \<open>
  A slice is its visible part and the rest of the capacity of the array behind it.  Go
  checks \<open>s[i]\<close> and \<open>s[lo:]\<close> against the length, but \<open>s[lo:hi]\<close> against the capacity:
  reslicing past the length reads whatever the array holds there.
\<close>

type_synonym gslice = "bytes \<times> bytes"

definition idx :: "'a list \<Rightarrow> int \<Rightarrow> 'a option" where
  "idx xs i = (if 0 \<le> i \<and> i < int (length xs) then Some (xs ! nat i) else None)"

definition slice_from :: "gslice \<Rightarrow> int \<Rightarrow> gslice option" where
  "slice_from s lo =
     (if 0 \<le> lo \<and> lo \<le> int (length (fst s)) then Some (drop (nat lo) (fst s), snd s)
      else None)"

definition slice :: "gslice \<Rightarrow> int \<Rightarrow> int \<Rightarrow> gslice option" where
  "slice s lo hi =
     (let full = fst s @ snd s
      in if 0 \<le> lo \<and> lo \<le> hi \<and> hi \<le> int (length full)
         then Some (drop (nat lo) (take (nat hi) full), drop (nat hi) full)
         else None)"

text \<open>A string has no capacity: \<open>s[lo:hi]\<close> is checked against its length.\<close>

definition substr :: "'a list \<Rightarrow> int \<Rightarrow> int \<Rightarrow> 'a list option" where
  "substr xs lo hi =
     (if 0 \<le> lo \<and> lo \<le> hi \<and> hi \<le> int (length xs)
      then Some (drop (nat lo) (take (nat hi) xs)) else None)"

named_theorems go_slice \<open>when the checked accesses succeed and what they give\<close>

lemma idx_Some_iff [go_slice]:
  "idx xs i = Some x \<longleftrightarrow> 0 \<le> i \<and> i < int (length xs) \<and> x = xs ! nat i"
  by (auto simp: idx_def)

lemma idx_None_iff [go_slice]: "idx xs i = None \<longleftrightarrow> i < 0 \<or> int (length xs) \<le> i"
  by (auto simp: idx_def)

lemma idx_nat [simp]: "i < length xs \<Longrightarrow> idx xs (int i) = Some (xs ! i)"
  by (simp add: idx_def)

lemma idx_numeral [simp]:
  "numeral k < length xs \<Longrightarrow> idx xs (numeral k) = Some (xs ! numeral k)"
  "0 < length xs \<Longrightarrow> idx xs 0 = Some (xs ! 0)"
  "1 < length xs \<Longrightarrow> idx xs 1 = Some (xs ! 1)"
  by (simp_all add: idx_def)

lemma slice_from_Some_iff [go_slice]:
  "slice_from s lo = Some t \<longleftrightarrow>
     0 \<le> lo \<and> lo \<le> int (length (fst s)) \<and> t = (drop (nat lo) (fst s), snd s)"
  by (auto simp: slice_from_def)

lemma slice_from_append [simp]:
  "slice_from (xs @ ys, sp) (int (length xs)) = Some (ys, sp)"
  by (simp add: slice_from_def)

lemma slice_None_iff [go_slice]:
  "slice s lo hi = None \<longleftrightarrow>
     lo < 0 \<or> hi < lo \<or> int (length (fst s) + length (snd s)) < hi"
  by (auto simp: slice_def Let_def)

lemma substr_None_iff [go_slice]:
  "substr xs lo hi = None \<longleftrightarrow> lo < 0 \<or> hi < lo \<or> int (length xs) < hi"
  by (auto simp: substr_def)

section \<open>Decimal printing\<close>

text \<open>\<open>strconv.Itoa\<close>, \<open>strconv.AppendInt(_, v, 10)\<close> and the verb \<open>%d\<close>.\<close>

fun digits_of :: "nat \<Rightarrow> bytes" where
  "digits_of n = (if n < 10 then [of_nat (48 + n)] else digits_of (n div 10) @ [of_nat (48 + n mod 10)])"

declare digits_of.simps [simp del]

definition itoa :: "int \<Rightarrow> bytes" where
  "itoa i = (if i < 0 then str ''-'' @ digits_of (nat (- i)) else digits_of (nat i))"

section \<open>Sequencing\<close>

text \<open>
  The idiom \<open>x, err := m; if err != nil { return err }\<close>: on values, and on commands, which
  take a state and give a result or an error with the new state, or panic.
\<close>

definition onOk :: "'e + 'a \<Rightarrow> ('a \<Rightarrow> 'e + 'b) \<Rightarrow> 'e + 'b" where
  "onOk m f = (case m of Inl e \<Rightarrow> Inl e | Inr x \<Rightarrow> f x)"

type_synonym ('s, 'a) cmd = "'s \<Rightarrow> ((error + 'a) \<times> 's) option"

definition thenDo :: "('s, 'a) cmd \<Rightarrow> ('a \<Rightarrow> ('s, 'b) cmd) \<Rightarrow> ('s, 'b) cmd" where
  "thenDo m f s = do {
     (r, s') \<leftarrow> m s;
     case r of Inl e \<Rightarrow> Some (Inl e, s') | Inr x \<Rightarrow> f x s' }"

text \<open>The same for a value that may also panic.\<close>

definition andThen :: "('e + 'a) option \<Rightarrow> ('a \<Rightarrow> ('e + 'b) option) \<Rightarrow> ('e + 'b) option" where
  "andThen m f = do { r \<leftarrow> m; case r of Inl e \<Rightarrow> Some (Inl e) | Inr x \<Rightarrow> f x }"

lemma andThen_simps [simp]:
  "andThen None f = None" "andThen (Some (Inl e)) f = Some (Inl e)" "andThen (Some (Inr x)) f = f x"
  by (simp_all add: andThen_def)

lemma onOk_simps [simp]: "onOk (Inl e) f = Inl e" "onOk (Inr x) f = f x"
  by (simp_all add: onOk_def)

lemma onOk_Inr_iff: "onOk m f = Inr y \<longleftrightarrow> (\<exists>x. m = Inr x \<and> f x = Inr y)"
  by (cases m) auto

lemma thenDo_Inl: "m s = Some (Inl e, s') \<Longrightarrow> thenDo m f s = Some (Inl e, s')"
  and thenDo_Inr: "m s = Some (Inr x, s') \<Longrightarrow> thenDo m f s = f x s'"
  and thenDo_None: "m s = None \<Longrightarrow> thenDo m f s = None"
  by (simp_all add: thenDo_def)

section \<open>Shared lemmas\<close>

lemma bind_eq_Some_iff [simp]:
  "Option.bind m f = Some y \<longleftrightarrow> (\<exists>x. m = Some x \<and> f x = Some y)"
  by (cases m) auto

lemma Some_bind [simp]: "Option.bind (Some x) f = f x"
  by simp

end
