(* ===== verification/Route.thy ===== *)
theory Route
  imports Prelude
begin

text \<open>
  The routing decision of the two proxies (\<open>proxy/mysql.go\<close>, \<open>proxy/postgres.go\<close>): the
  three regular expressions, the transaction flag and the test each client message goes
  through.
\<close>

section \<open>Regular expressions\<close>

text \<open>
  The patterns are \<open>(?i)^(a|b|...)\<close>: an anchored choice of words, matched under Unicode
  simple case folding.  Besides the two ASCII cases of a letter, folding equates \<open>s\<close> with
  U+017F and \<open>k\<close> with U+212A; \<open>fold_alts c\<close> lists the UTF-8 encodings that the (lower case)
  pattern byte \<open>c\<close> accepts.
\<close>

definition fold_alts :: "byte \<Rightarrow> bytes list" where
  "fold_alts c =
     [[c]] @
     (if 97 \<le> c \<and> c \<le> 122 then [[c - 32]] else []) @
     (if c = 115 then [[0xC5, 0xBF]] else []) @
     (if c = 107 then [[0xE2, 0x84, 0xAA]] else [])"

fun match_word :: "bytes \<Rightarrow> bytes \<Rightarrow> bool" where
  "match_word [] xs = True"
| "match_word (c # cs) xs =
     list_ex (\<lambda>a. take (length a) xs = a \<and> match_word cs (drop (length a) xs)) (fold_alts c)"

text \<open>A compiled pattern is the list of its alternatives.\<close>

type_synonym regex = "bytes list"

definition MatchString :: "regex \<Rightarrow> bytes \<Rightarrow> bool" where
  "MatchString re s = list_ex (\<lambda>w. match_word w s) re"

definition initRegexp :: "regex list" where
  "initRegexp =
     [[str ''select''],
      [str ''begin'', str ''start transaction''],
      [str ''commit'', str ''rollback'']]"

definition matchSelect :: "bytes \<Rightarrow> bool" where
  "matchSelect sql = MatchString (initRegexp ! 0) sql"

definition matchTranBegin :: "bytes \<Rightarrow> bool" where
  "matchTranBegin sql = MatchString (initRegexp ! 1) sql"

definition matchTranEnd :: "bytes \<Rightarrow> bool" where
  "matchTranEnd sql = MatchString (initRegexp ! 2) sql"

section \<open>\<open>delegateSelect\<close>: the decision\<close>

text \<open>\<open>strings.Trim(s, cutset)\<close> for a cutset of ASCII characters.\<close>

definition trim :: "bytes \<Rightarrow> bytes \<Rightarrow> bytes" where
  "trim cutset s =
     rev (dropWhile (\<lambda>c. c \<in> set cutset) (rev (dropWhile (\<lambda>c. c \<in> set cutset) s)))"

datatype route = ToMain | ToReplica bytes

text \<open>The update of \<open>p.inTrans\<close> on a statement that goes to the main database.\<close>

definition updateTrans :: "bool \<Rightarrow> bytes \<Rightarrow> bool" where
  "updateTrans inTrans sql =
     (let t = (if matchTranBegin sql then True else inTrans)
      in if t then (if matchTranEnd sql then False else t) else t)"

text \<open>
  The decision on a statement, common to both protocols: outside a transaction a statement
  that starts with \<open>select\<close> goes to a replica; everything else goes to the main database
  and may open or end a transaction.
\<close>

definition decide :: "bool \<Rightarrow> bytes \<Rightarrow> route \<times> bool" where
  "decide inTrans sql =
     (if inTrans \<or> \<not> matchSelect sql then (ToMain, updateTrans inTrans sql)
      else (ToReplica sql, inTrans))"

text \<open>
  \<open>MysqlProxy.delegateSelect(n, buffer)\<close> up to the choice of the database: only a
  \<open>COM_QUERY\<close> message (byte 4 is 3) with a non-empty statement is looked at.
\<close>

definition mysql_route :: "bool \<Rightarrow> int \<Rightarrow> bytes \<Rightarrow> (route \<times> bool) option" where
  "mysql_route inTrans n buffer =
     (if n \<le> 5 then Some (ToMain, inTrans)
      else do {
        cmd \<leftarrow> idx buffer 4;
        if cmd \<noteq> 3 then Some (ToMain, inTrans)
        else do {
          text \<leftarrow> substr buffer 5 n;
          let sql = trim (str '' '' @ [13, 10]) text;
          Some (decide inTrans sql)
        }
      })"

text \<open>
  \<open>PostgresProxy.delegateSelect(buffer)\<close>: a simple query is \<open>'Q'\<close>, a four byte length
  and the text, whose terminating zero is dropped; the statement is not trimmed.
\<close>

definition pg_route :: "bool \<Rightarrow> bytes \<Rightarrow> (route \<times> bool) option" where
  "pg_route inTrans buffer =
     do {
       tag \<leftarrow> idx buffer 0;
       if tag \<noteq> of_char CHR ''Q'' then Some (ToMain, inTrans)
       else do {
         let end0 = int (length buffer);
         lastb \<leftarrow> idx buffer (end0 - 1);
         let end1 = (if lastb = 0 then end0 - 1 else end0);
         sql \<leftarrow> substr buffer 5 end1;
         Some (decide inTrans sql)
       }
     }"

section \<open>The patterns against a folded text\<close>

text \<open>
  The reference for the regular expressions: \<open>fold_text\<close> reads a text character by
  character in its case-folded form, and a pattern matches exactly when one of its words
  is a prefix of the folded text.
\<close>

fun fold1 :: "bytes \<Rightarrow> (byte \<times> bytes) option" where
  "fold1 [] = None"
| "fold1 (x # xs) =
     (if x = 0xC5 \<and> take 1 xs = [0xBF] then Some (115, drop 1 xs)
      else if x = 0xE2 \<and> take 2 xs = [0x84, 0xAA] then Some (107, drop 2 xs)
      else if 65 \<le> x \<and> x \<le> 90 then Some (x + 32, xs)
      else Some (x, xs))"

lemma fold1_shorter: "fold1 xs = Some (c, r) \<Longrightarrow> length r < length xs"
  by (cases xs) (auto split: if_splits)

function fold_text :: "bytes \<Rightarrow> bytes" where
  "fold_text xs = (case fold1 xs of None \<Rightarrow> [] | Some (c, r) \<Rightarrow> c # fold_text r)"
  by pat_completeness auto
termination
  by (relation "measure length") (auto dest: fold1_shorter)

declare fold_text.simps [simp del]

definition pattern_char :: "byte \<Rightarrow> bool" where
  "pattern_char c \<longleftrightarrow> c = 32 \<or> 97 \<le> c \<and> c \<le> 122"

text \<open>One pattern character accepts the folded first character and nothing else.\<close>

lemma upper_iff_lower:
  fixes c x :: byte
  assumes "97 \<le> c" "c \<le> 122"
  shows "x = c - 32 \<longleftrightarrow> 65 \<le> x \<and> x \<le> 90 \<and> x + 32 = c"
  using assms by uint_arith

lemma upper_not_lower:
  fixes x :: byte
  shows "65 \<le> x \<Longrightarrow> x \<le> 90 \<Longrightarrow> 97 \<le> x + 32"
    and "65 \<le> x \<Longrightarrow> x \<le> 90 \<Longrightarrow> x + 32 \<le> 122"
    and "x \<le> 90 \<Longrightarrow> \<not> 97 \<le> x"
  by (simp_all add: word_le_nat_alt unat_plus_if_size word_size)

lemma take_prefix_iff:
  "take (Suc 0) xs = [a] \<longleftrightarrow> (\<exists>r. xs = a # r)"
  "take (Suc (Suc 0)) xs = [a, b] \<longleftrightarrow> (\<exists>r. xs = a # b # r)"
  "take 2 xs = [a, b] \<longleftrightarrow> (\<exists>r. xs = a # b # r)"
  by (cases xs; cases "tl xs"; auto simp: numeral_2_eq_2)+

lemma match_word_Cons_fold:
  assumes c: "pattern_char c"
  shows "match_word (c # cs) xs \<longleftrightarrow> (\<exists>r. fold1 xs = Some (c, r) \<and> match_word cs r)"
proof (cases xs)
  case Nil
  then show ?thesis by (auto simp: fold_alts_def)
next
  case (Cons x ys)
  show ?thesis
  proof (cases "x = 0xC5 \<or> x = 0xE2")
    case True
    with c show ?thesis
      by (auto simp: Cons fold_alts_def pattern_char_def take_prefix_iff)
  next
    case False
    with c show ?thesis
      by (auto simp: Cons fold_alts_def pattern_char_def take_prefix_iff upper_iff_lower
          dest: upper_not_lower)
  qed
qed

lemma match_word_fold:
  "list_all pattern_char w \<Longrightarrow> match_word w xs \<longleftrightarrow> prefix w (fold_text xs)"
proof (induction w arbitrary: xs)
  case Nil
  then show ?case by simp
next
  case (Cons c cs)
  then have "match_word (c # cs) xs \<longleftrightarrow> (\<exists>r. fold1 xs = Some (c, r) \<and> prefix cs (fold_text r))"
    by (simp only: match_word_Cons_fold list.pred_inject(2))
  also have "\<dots> \<longleftrightarrow> prefix (c # cs) (fold_text xs)"
    by (subst fold_text.simps) (auto split: option.splits)
  finally show ?case .
qed

lemma MatchString_fold:
  "list_all (list_all pattern_char) re \<Longrightarrow>
     MatchString re s \<longleftrightarrow> (\<exists>w \<in> set re. prefix w (fold_text s))"
  by (auto simp: MatchString_def list_ex_iff list_all_iff match_word_fold)

lemma initRegexp_patterns: "list_all (list_all (list_all pattern_char)) initRegexp"
  by (simp add: initRegexp_def pattern_char_def str_def)

lemmas match_defs = matchSelect_def matchTranBegin_def matchTranEnd_def

lemma match_fold:
  "matchSelect s \<longleftrightarrow> prefix (str ''select'') (fold_text s)"
  "matchTranBegin s \<longleftrightarrow>
     prefix (str ''begin'') (fold_text s) \<or> prefix (str ''start transaction'') (fold_text s)"
  "matchTranEnd s \<longleftrightarrow>
     prefix (str ''commit'') (fold_text s) \<or> prefix (str ''rollback'') (fold_text s)"
  using initRegexp_patterns
  by (simp_all add: match_defs MatchString_fold initRegexp_def)

text \<open>No text starts with two different words, so at most one pattern matches.\<close>

lemma prefix_words_exclusive:
  "prefix (str ''select'') t \<Longrightarrow>
     \<not> prefix (str ''begin'') t \<and> \<not> prefix (str ''start transaction'') t
     \<and> \<not> prefix (str ''commit'') t \<and> \<not> prefix (str ''rollback'') t"
  "prefix (str ''begin'') t \<or> prefix (str ''start transaction'') t \<Longrightarrow>
     \<not> prefix (str ''commit'') t \<and> \<not> prefix (str ''rollback'') t"
  by (auto simp: prefix_def str_def)

lemma match_exclusive:
  "matchSelect s \<Longrightarrow> \<not> matchTranBegin s \<and> \<not> matchTranEnd s"
  "matchTranBegin s \<Longrightarrow> \<not> matchTranEnd s"
  using prefix_words_exclusive [of "fold_text s"] by (auto simp: match_fold)

section \<open>The specification of the routing\<close>

text \<open>
  What the proxy promises: statements are reads, transaction starts, transaction ends or
  anything else; only a read outside a transaction leaves the main database.
\<close>

datatype stmt = Read | Start | Finish | Other

definition stmt_of :: "bytes \<Rightarrow> stmt" where
  "stmt_of sql =
     (let t = fold_text sql
      in if prefix (str ''select'') t then Read
         else if prefix (str ''begin'') t \<or> prefix (str ''start transaction'') t then Start
         else if prefix (str ''commit'') t \<or> prefix (str ''rollback'') t then Finish
         else Other)"

fun spec_step :: "bool \<Rightarrow> stmt \<Rightarrow> bool \<times> bool" where
  "spec_step tx Read = (\<not> tx, tx)"
| "spec_step tx Start = (False, True)"
| "spec_step tx Finish = (False, False)"
| "spec_step tx Other = (False, tx)"

definition to_replica :: "route \<Rightarrow> bool" where
  "to_replica r \<longleftrightarrow> r \<noteq> ToMain"

lemma decide_spec: "map_prod to_replica id (decide tx sql) = spec_step tx (stmt_of sql)"
  using match_exclusive [of sql]
  by (cases tx) (auto simp: decide_def stmt_of_def updateTrans_def to_replica_def Let_def
      match_fold)

lemma decide_replica:
  "fst (decide tx sql) = ToReplica q \<longleftrightarrow> \<not> tx \<and> matchSelect sql \<and> q = sql"
  by (auto simp: decide_def)

lemma decide_in_trans:
  "fst (decide True sql) = ToMain" "snd (decide True sql) \<longleftrightarrow> \<not> matchTranEnd sql"
  by (auto simp: decide_def updateTrans_def)

lemma decide_begin: "matchTranBegin sql \<Longrightarrow> decide tx sql = (ToMain, True)"
  using match_exclusive [of sql] by (auto simp: decide_def updateTrans_def)

lemma decide_end: "matchTranEnd sql \<Longrightarrow> decide tx sql = (ToMain, False)"
  using match_exclusive [of sql] by (auto simp: decide_def updateTrans_def)

section \<open>Sessions\<close>

text \<open>
  A session is the sequence of messages one client sends; \<open>run_routes\<close> threads the
  transaction flag through it and collects where each message goes.  A panic of the route
  of one message ends the whole process.
\<close>

fun run_routes :: "(bool \<Rightarrow> 'm \<Rightarrow> (route \<times> bool) option) \<Rightarrow> bool \<Rightarrow> 'm list \<Rightarrow>
    (route list \<times> bool) option" where
  "run_routes rt tx [] = Some ([], tx)"
| "run_routes rt tx (m # ms) =
     do {
       (r, tx1) \<leftarrow> rt tx m;
       (rs, tx2) \<leftarrow> run_routes rt tx1 ms;
       Some (r # rs, tx2)
     }"

fun run_spec :: "bool \<Rightarrow> stmt option list \<Rightarrow> bool list \<times> bool" where
  "run_spec tx [] = ([], tx)"
| "run_spec tx (None # ks) = (let (rs, tx') = run_spec tx ks in (False # rs, tx'))"
| "run_spec tx (Some k # ks) =
     (let (r, tx1) = spec_step tx k; (rs, tx2) = run_spec tx1 ks in (r # rs, tx2))"

text \<open>
  The traffic to the main database, read off the routes.
\<close>

definition main_traffic :: "bytes list \<Rightarrow> route list \<Rightarrow> bytes" where
  "main_traffic ms rs = concat (map fst (filter (\<lambda>(m, r). r = ToMain) (zip ms rs)))"

lemma main_traffic_simps [simp]:
  "main_traffic [] rs = []"
  "main_traffic (m # ms) (ToMain # rs) = m @ main_traffic ms rs"
  "main_traffic (m # ms) (ToReplica q # rs) = main_traffic ms rs"
  by (simp_all add: main_traffic_def)

text \<open>
  The interface both proxies provide: which well-formed messages carry a statement, and
  that the routing of a message is the decision on its statement.
\<close>

locale tx_router =
  fixes route_of :: "bool \<Rightarrow> 'm \<Rightarrow> (route \<times> bool) option"
    and statement :: "'m \<Rightarrow> bytes option"
    and wf :: "'m \<Rightarrow> bool"
  assumes no_statement: "wf m \<Longrightarrow> statement m = None \<Longrightarrow> route_of tx m = Some (ToMain, tx)"
    and with_statement: "wf m \<Longrightarrow> statement m = Some sql \<Longrightarrow> route_of tx m = Some (decide tx sql)"
begin

lemma route_total: "wf m \<Longrightarrow> \<exists>r tx'. route_of tx m = Some (r, tx')"
  using no_statement [of m tx] with_statement [of m _ tx]
  by (cases "statement m") (auto simp: prod_eq_iff)

lemma run_refines:
  "list_all wf ms \<Longrightarrow>
     map_option (map_prod (map to_replica) id) (run_routes route_of tx ms) =
     Some (run_spec tx (map (map_option stmt_of \<circ> statement) ms))"
proof (induction ms arbitrary: tx)
  case Nil
  then show ?case by simp
next
  case (Cons m ms)
  show ?case
  proof (cases "statement m")
    case None
    with Cons show ?thesis
      by (fastforce simp: no_statement to_replica_def split: prod.splits)
  next
    case (Some sql)
    obtain r tx1 where d: "decide tx sql = (r, tx1)" by fastforce
    then have "spec_step tx (stmt_of sql) = (to_replica r, tx1)"
      using decide_spec [of tx sql] by simp
    with d Some Cons show ?thesis
      by (fastforce simp: with_statement split: prod.splits)
  qed
qed

lemma run_Cons:
  "wf m \<Longrightarrow> run_routes route_of tx (m # ms) = Some (rs, tx') \<longleftrightarrow>
     (\<exists>r tx1 rs'. route_of tx m = Some (r, tx1) \<and> run_routes route_of tx1 ms = Some (rs', tx')
        \<and> rs = r # rs')"
  by auto

lemma in_transaction:
  assumes "list_all wf ms"
    and "\<forall>m \<in> set ms. \<forall>sql. statement m = Some sql \<longrightarrow> \<not> matchTranEnd sql"
  shows "run_routes route_of True ms = Some (replicate (length ms) ToMain, True)"
  using assms
proof (induction ms)
  case Nil
  then show ?case by simp
next
  case (Cons m ms)
  then have "route_of True m = Some (ToMain, True)"
    using decide_in_trans
    by (cases "statement m") (auto simp: no_statement with_statement prod_eq_iff)
  with Cons show ?case by simp
qed

lemma begin_keeps_main:
  assumes "list_all wf (b # ms)" and "statement b = Some sb" and "matchTranBegin sb"
    and "\<forall>m \<in> set ms. \<forall>sql. statement m = Some sql \<longrightarrow> \<not> matchTranEnd sql"
  shows "run_routes route_of tx (b # ms) = Some (replicate (Suc (length ms)) ToMain, True)"
  using assms in_transaction [of ms] by (simp add: with_statement decide_begin)

lemma replica_cases:
  assumes "wf m" and "route_of tx m = Some (ToReplica q, tx')"
  shows "statement m = Some q \<and> \<not> tx \<and> \<not> tx' \<and> matchSelect q"
  using assms no_statement [of m tx] with_statement [of m _ tx]
  by (cases "statement m") (auto simp: decide_def split: if_splits)

end

section \<open>The MySQL router\<close>

definition mysql_statement :: "bytes \<Rightarrow> bytes option" where
  "mysql_statement m =
     (if 5 < length m \<and> m ! 4 = 3 then Some (trim (str '' '' @ [13, 10]) (drop 5 m)) else None)"

definition mysql_message :: "bool \<Rightarrow> bytes \<Rightarrow> (route \<times> bool) option" where
  "mysql_message tx m = mysql_route tx (int (length m)) m"

interpretation my: tx_router mysql_message mysql_statement "\<lambda>_. True"
  by unfold_locales
     (auto simp: mysql_message_def mysql_route_def mysql_statement_def idx_def substr_def
       split: if_splits)

section \<open>The PostgreSQL router\<close>

text \<open>A message that does not crash the router: not empty, and a query of five bytes at least.\<close>

definition pg_wf :: "bytes \<Rightarrow> bool" where
  "pg_wf m \<longleftrightarrow> m \<noteq> [] \<and>
     (hd m = of_char CHR ''Q'' \<longrightarrow> 5 \<le> length m \<and> (length m = 5 \<longrightarrow> last m \<noteq> 0))"

definition pg_statement :: "bytes \<Rightarrow> bytes option" where
  "pg_statement m =
     (if m \<noteq> [] \<and> hd m = of_char CHR ''Q''
      then Some (drop 5 (if last m = 0 then butlast m else m)) else None)"

lemma idx_last: "xs \<noteq> [] \<Longrightarrow> idx xs (int (length xs) - 1) = Some (last xs)"
  by (cases xs) (auto simp: idx_def last_conv_nth nat_diff_distrib)

lemma pg_route_cases:
  "pg_route tx m =
     (if m = [] then None
      else if hd m \<noteq> of_char CHR ''Q'' then Some (ToMain, tx)
      else let body = (if last m = 0 then butlast m else m)
           in if length body < 5 then None else Some (decide tx (drop 5 body)))"
proof (cases "m = []")
  case True
  then show ?thesis by (simp add: pg_route_def idx_def)
next
  case False
  then show ?thesis
    by (auto simp: pg_route_def Let_def hd_conv_nth idx_last substr_def butlast_conv_take
        nat_diff_distrib min_def)
qed

interpretation pg: tx_router pg_route pg_statement pg_wf
  by unfold_locales (auto simp: pg_route_cases pg_statement_def pg_wf_def Let_def)

section \<open>Properties\<close>

text \<open>
  C6: Whatever a MySQL client sends, the sequence of routes is that of the specification
  machine: exactly the reads outside a transaction leave the main database, and the
  transaction flag follows the starts and the ends.  In particular the router never panics.
\<close>

theorem mysql_session_refines_spec:
  "map_option (map_prod (map to_replica) id) (run_routes mysql_message tx ms) =
     Some (run_spec tx (map (map_option stmt_of \<circ> mysql_statement) ms))"
  by (rule my.run_refines) (simp add: list_all_iff)

text \<open>
  C16: From the message that opens a transaction on, every message up to the first that starts with commit or
  rollback goes to the main database, whatever it is.
\<close>

theorem mysql_transaction_stays_on_main:
  assumes "mysql_statement b = Some sb" and "matchTranBegin sb"
    and "\<forall>m \<in> set ms. \<forall>sql. mysql_statement m = Some sql \<longrightarrow> \<not> matchTranEnd sql"
  shows "run_routes mysql_message tx (b # ms) =
     Some (replicate (Suc (length ms)) ToMain, True)"
  by (rule my.begin_keeps_main [OF _ assms]) (simp add: list_all_iff)

definition com_query :: "string \<Rightarrow> bytes" where
  "com_query sql = [0, 0, 0, 0, 3] @ str sql"

theorem mysql_transaction_stays_on_main_witness:
  "run_routes mysql_message False [com_query ''begin'', com_query ''SELECT 1''] =
     Some ([ToMain, ToMain], True)"
proof -
  have b: "mysql_statement (com_query ''begin'') = Some (str ''begin'')"
    and s: "mysql_statement (com_query ''SELECT 1'') = Some (str ''SELECT 1'')"
    by code_simp+
  have "matchTranBegin (str ''begin'')" and "\<not> matchTranEnd (str ''SELECT 1'')"
    by code_simp+
  with mysql_transaction_stays_on_main [OF b, of "[com_query ''SELECT 1'']" False] s
  show ?thesis by simp
qed

text \<open>
  A message leaves for a replica only as a \<open>COM_QUERY\<close> outside a transaction whose
  trimmed text starts with \<open>select\<close> under case folding; the replica is asked exactly that
  text, and the transaction flag does not change.
\<close>

theorem mysql_replica_only_reads:
  assumes "mysql_message tx m = Some (ToReplica q, tx')"
  shows "mysql_statement m = Some q \<and> prefix (str ''select'') (fold_text q) \<and> \<not> tx \<and> \<not> tx'"
  using my.replica_cases [OF TrueI assms] by (simp add: match_fold)

theorem mysql_replica_only_reads_witness:
  "mysql_message False (com_query ''Select 1 ;'') = Some (ToReplica (str ''Select 1 ;''), False)
   \<and> prefix (str ''select'') (fold_text (str ''Select 1 ;''))"
proof -
  have "mysql_message False (com_query ''Select 1 ;'') = Some (ToReplica (str ''Select 1 ;''), False)"
    by code_simp
  with mysql_replica_only_reads [OF this] show ?thesis by simp
qed

text \<open>
  The PostgreSQL router panics, and with it the proxy process, exactly on an empty read
  and on a query message of fewer than five bytes before its terminating zero.
\<close>

theorem pg_route_panics_iff:
  "pg_route tx m = None \<longleftrightarrow>
     m = [] \<or> hd m = of_char CHR ''Q'' \<and> (length m < 5 \<or> length m = 5 \<and> last m = 0)"
  by (auto simp: pg_route_cases Let_def)

text \<open>
  On the messages that do not crash the router, a PostgreSQL session too is routed as
  the specification machine says.
\<close>

theorem pg_session_refines_spec:
  assumes "list_all pg_wf ms"
  shows "map_option (map_prod (map to_replica) id) (run_routes pg_route tx ms) =
     Some (run_spec tx (map (map_option stmt_of \<circ> pg_statement) ms))"
  using assms by (rule pg.run_refines)

theorem pg_session_refines_spec_witness:
  "map_option (map_prod (map to_replica) id)
     (run_routes pg_route False [[81, 0, 0, 0, 13] @ str ''select 1'' @ [0]]) =
   Some ([True], False)"
proof -
  have "list_all pg_wf [[81, 0, 0, 0, 13] @ str ''select 1'' @ [0]]"
    by (simp add: pg_wf_def str_def)
  moreover have "run_spec False (map (map_option stmt_of \<circ> pg_statement)
      [[81, 0, 0, 0, 13] @ str ''select 1'' @ [0]]) = ([True], False)"
    by code_simp
  ultimately show ?thesis
    by (simp only: pg_session_refines_spec)
qed

text \<open>
  A rollback to a savepoint is taken for the end of the transaction, so the reads that
  follow it, still inside the transaction on the main database, go to a replica.
\<close>

theorem savepoint_rollback_leaves_transaction:
  "run_routes mysql_message False
     [com_query ''BEGIN'', com_query ''ROLLBACK TO s'', com_query ''SELECT 1''] =
   Some ([ToMain, ToMain, ToReplica (str ''SELECT 1'')], False)"
  by code_simp

end
