(* ===== verification/Weights.thy ===== *)
theory Weights
  imports Prelude
begin

text \<open>
  The replicas of a proxy and the weighted choice between them: the configuration entry of
  a replica (\<open>config/config.go\<close>), the list a proxy keeps (\<open>WeightedMysqlDB\<close>,
  \<open>WeightedDB\<close>) and \<open>chooseByWeight\<close> of both proxies.
\<close>

section \<open>Data\<close>

text \<open>\<open>config.SecondaryDB\<close>.\<close>

record secondary =
  sName :: bytes
  sHost :: bytes
  sPort :: int
  sUser :: bytes
  sPassword :: bytes
  sDbName :: bytes
  sWeight :: int
  sMaxIdleConnCount :: int
  sMaxOpenConnsCount :: int
  sConnMaxLifetime :: int

text \<open>\<open>WeightedMysqlDB\<close> and \<open>WeightedDB\<close>, for any kind of database handle.\<close>

record 'db weighted =
  wName :: bytes
  wDb :: 'db
  wWeight :: int

section \<open>\<open>chooseByWeight\<close>\<close>

text \<open>The loop over the replicas: the running sum of the weights against the random number.\<close>

fun choose_loop :: "int \<Rightarrow> int \<Rightarrow> 'db weighted list \<Rightarrow> 'db option" where
  "choose_loop randomNum currentWeight [] = None"
| "choose_loop randomNum currentWeight (element # es) =
     (let currentWeight' = wrap64 (currentWeight + wWeight element)
      in if randomNum < currentWeight' then Some (wDb element)
         else choose_loop randomNum currentWeight' es)"

text \<open>
  \<open>rand.Intn\<close> is an argument: for a positive bound \<open>n\<close> it gives a number in \<open>[0, n)\<close>; it
  panics on any other bound.  The fallback after the loop reads \<open>dbs[0]\<close>.
\<close>

definition chooseByWeight :: "(int \<Rightarrow> int) \<Rightarrow> int \<Rightarrow> 'db weighted list \<Rightarrow> 'db option" where
  "chooseByWeight intn totalWeight dbs =
     (if totalWeight \<le> 0 then None
      else case choose_loop (intn totalWeight) 0 dbs of
             Some db \<Rightarrow> Some db
           | None \<Rightarrow> map_option wDb (idx dbs 0))"

text \<open>The PostgreSQL proxy has its own copy of the method.\<close>

definition pg_chooseByWeight :: "(int \<Rightarrow> int) \<Rightarrow> int \<Rightarrow> 'db weighted list \<Rightarrow> 'db option" where
  "pg_chooseByWeight intn totalWeight dbs =
     (if totalWeight \<le> 0 then None
      else case choose_loop (intn totalWeight) 0 dbs of
             Some db \<Rightarrow> Some db
           | None \<Rightarrow> map_option wDb (idx dbs 0))"

section \<open>The choice as a partition of the random numbers\<close>

text \<open>What the set-up of a proxy guarantees of its replicas: positive weights, no overflow.\<close>

definition weights_ok :: "'db weighted list \<Rightarrow> int \<Rightarrow> bool" where
  "weights_ok dbs tot \<longleftrightarrow>
     dbs \<noteq> [] \<and> list_all (\<lambda>d. 0 < wWeight d) dbs \<and>
     tot = sum_list (map wWeight dbs) \<and> tot < 2 ^ 63"

text \<open>The first number past the share of the first \<open>i\<close> replicas.\<close>

definition upto_weight :: "'db weighted list \<Rightarrow> nat \<Rightarrow> int" where
  "upto_weight dbs i = sum_list (map wWeight (take i dbs))"

lemma upto_weight_simps [simp]:
  "upto_weight dbs 0 = 0"
  "upto_weight (d # dbs) (Suc i) = wWeight d + upto_weight dbs i"
  by (simp_all add: upto_weight_def)

lemma sum_weights_nonneg:
  "list_all (\<lambda>d. 0 < wWeight d) dbs \<Longrightarrow> 0 \<le> sum_list (map wWeight dbs)"
  by (induction dbs) auto

lemma upto_weight_mono:
  assumes "list_all (\<lambda>d. 0 < wWeight d) dbs" and "i \<le> j"
  shows "upto_weight dbs i \<le> upto_weight dbs j"
proof -
  have "take j dbs = take i dbs @ take (j - i) (drop i dbs)"
    using \<open>i \<le> j\<close> by (metis le_add_diff_inverse take_add)
  moreover have "0 \<le> sum_list (map wWeight (take (j - i) (drop i dbs)))"
    using assms(1) by (intro sum_weights_nonneg)
      (auto simp: list_all_iff dest: in_set_takeD in_set_dropD)
  ultimately show ?thesis by (simp add: upto_weight_def)
qed

lemma upto_weight_Suc:
  "i < length dbs \<Longrightarrow> upto_weight dbs (Suc i) = upto_weight dbs i + wWeight (dbs ! i)"
  by (simp add: upto_weight_def take_Suc_conv_app_nth)

lemma upto_weight_all: "upto_weight dbs (length dbs) = sum_list (map wWeight dbs)"
  by (simp add: upto_weight_def)

text \<open>
  The loop, started at \<open>cur\<close>, picks the replica whose half-open interval of the weight line
  holds the number.
\<close>

lemma choose_loop_picks:
  assumes "list_all (\<lambda>d. 0 < wWeight d) dbs" and "0 \<le> cur"
    and "cur + sum_list (map wWeight dbs) < 2 ^ 63"
    and "i < length dbs"
    and "cur + upto_weight dbs i \<le> r" and "r < cur + upto_weight dbs (Suc i)"
  shows "choose_loop r cur dbs = Some (wDb (dbs ! i))"
  using assms
proof (induction dbs arbitrary: cur i)
  case Nil
  then show ?case by simp
next
  case (Cons d dbs)
  have nonneg: "0 \<le> sum_list (map wWeight dbs)" and pos: "0 < wWeight d"
    using Cons.prems(1) sum_weights_nonneg [of dbs] by auto
  then have w: "wrap64 (cur + wWeight d) = cur + wWeight d"
    using Cons.prems(2,3) by simp
  show ?case
  proof (cases i)
    case 0
    with Cons.prems(6) w show ?thesis by simp
  next
    case (Suc j)
    have "0 \<le> upto_weight dbs j"
      using upto_weight_mono [of dbs 0 j] Cons.prems(1) by simp
    with Cons.prems(5) Suc have "\<not> r < cur + wWeight d" by simp
    moreover have "choose_loop r (cur + wWeight d) dbs = Some (wDb (dbs ! j))"
      using Cons.prems Suc pos by (intro Cons.IH) auto
    ultimately show ?thesis using w Suc by simp
  qed
qed

text \<open>The line \<open>[0, total)\<close> is cut into the replicas' intervals.\<close>

lemma weight_interval_exists:
  assumes "0 \<le> r" and "r < sum_list (map wWeight dbs)"
  shows "\<exists>i < length dbs. upto_weight dbs i \<le> r \<and> r < upto_weight dbs (Suc i)"
  using assms
proof (induction dbs arbitrary: r)
  case Nil
  then show ?case by simp
next
  case (Cons d dbs)
  show ?case
  proof (cases "r < wWeight d")
    case True
    with Cons.prems show ?thesis by (intro exI [of _ 0]) simp
  next
    case False
    with Cons.prems obtain i where "i < length dbs"
        "upto_weight dbs i \<le> r - wWeight d" "r - wWeight d < upto_weight dbs (Suc i)"
      using Cons.IH [of "r - wWeight d"] by auto
    then show ?thesis by (intro exI [of _ "Suc i"]) auto
  qed
qed

section \<open>The interface of a weighted choice\<close>

text \<open>
  Both proxies offer a choice function over their replicas; the law is that it returns the
  replica whose interval holds the random number.
\<close>

locale weighted_choice =
  fixes pick :: "(int \<Rightarrow> int) \<Rightarrow> int \<Rightarrow> 'db weighted list \<Rightarrow> 'db option"
  assumes picks: "weights_ok dbs tot \<Longrightarrow> i < length dbs \<Longrightarrow>
    upto_weight dbs i \<le> intn tot \<Longrightarrow> intn tot < upto_weight dbs (Suc i) \<Longrightarrow>
    pick intn tot dbs = Some (wDb (dbs ! i))"
begin

lemma chosen_interval:
  assumes "weights_ok dbs tot" and "distinct (map wDb dbs)" and "i < length dbs"
    and "0 \<le> intn tot" and "intn tot < tot"
  shows "pick intn tot dbs = Some (wDb (dbs ! i)) \<longleftrightarrow>
    upto_weight dbs i \<le> intn tot \<and> intn tot < upto_weight dbs (Suc i)"
proof -
  obtain j where j: "j < length dbs" "upto_weight dbs j \<le> intn tot"
      "intn tot < upto_weight dbs (Suc j)"
    using assms weight_interval_exists [of "intn tot" dbs] by (auto simp: weights_ok_def)
  have c: "pick intn tot dbs = Some (wDb (dbs ! j))"
    using assms(1) j by (rule picks)
  have pos: "list_all (\<lambda>d. 0 < wWeight d) dbs" using assms(1) by (simp add: weights_ok_def)
  have "wDb (dbs ! j) = wDb (dbs ! i) \<longleftrightarrow> j = i"
    using assms(2,3) j(1) by (metis length_map nth_eq_iff_index_eq nth_map)
  moreover have "i = j" if "upto_weight dbs i \<le> intn tot" "intn tot < upto_weight dbs (Suc i)"
    using that j upto_weight_mono [OF pos, of "Suc i" j] upto_weight_mono [OF pos, of "Suc j" i]
    by (cases i j rule: linorder_cases) auto
  ultimately show ?thesis using c j by auto
qed

lemma share:
  assumes "weights_ok dbs tot" and "distinct (map wDb dbs)" and "i < length dbs"
  shows "card {r. 0 \<le> r \<and> r < tot \<and> pick (\<lambda>_. r) tot dbs = Some (wDb (dbs ! i))} =
    nat (wWeight (dbs ! i))"
proof -
  have pos: "list_all (\<lambda>d. 0 < wWeight d) dbs" and tot_eq: "tot = upto_weight dbs (length dbs)"
    using assms(1) by (auto simp: weights_ok_def upto_weight_all)
  have "{r. 0 \<le> r \<and> r < tot \<and> pick (\<lambda>_. r) tot dbs = Some (wDb (dbs ! i))} =
    {upto_weight dbs i ..< upto_weight dbs (Suc i)}"
    using chosen_interval [OF assms, of "\<lambda>_. _"] upto_weight_mono [OF pos, of 0 i]
      upto_weight_mono [OF pos, of "Suc i" "length dbs"] assms(3) tot_eq
    by auto
  then show ?thesis using upto_weight_Suc [OF assms(3)] by simp
qed

lemma never_panics:
  assumes "weights_ok dbs tot" and "0 \<le> intn tot" and "intn tot < tot"
  shows "\<exists>d \<in> set dbs. pick intn tot dbs = Some (wDb d)"
proof -
  obtain j where "j < length dbs" "upto_weight dbs j \<le> intn tot"
      "intn tot < upto_weight dbs (Suc j)"
    using assms weight_interval_exists [of "intn tot" dbs] by (auto simp: weights_ok_def)
  then show ?thesis using picks [OF assms(1)] nth_mem by blast
qed

end

lemma weights_ok_pos: "weights_ok dbs tot \<Longrightarrow> 0 < tot"
  by (cases dbs) (auto simp: weights_ok_def dest: sum_weights_nonneg)

lemma choose_loop_ok:
  assumes "weights_ok dbs tot" and "i < length dbs"
    and "upto_weight dbs i \<le> r" and "r < upto_weight dbs (Suc i)"
  shows "choose_loop r 0 dbs = Some (wDb (dbs ! i))"
  using assms by (intro choose_loop_picks) (auto simp: weights_ok_def)

interpretation my_choice: weighted_choice chooseByWeight
  by unfold_locales
     (use choose_loop_ok weights_ok_pos in \<open>fastforce simp: chooseByWeight_def\<close>)

interpretation pg_choice: weighted_choice pg_chooseByWeight
  by unfold_locales
     (use choose_loop_ok weights_ok_pos in \<open>fastforce simp: pg_chooseByWeight_def\<close>)

section \<open>Properties\<close>

text \<open>
  C15: Replicas get reads in proportion to their weights: of the equally likely random numbers,
  exactly as many as its weight choose a replica, in both proxies.
\<close>

theorem replica_share:
  assumes "weights_ok dbs tot" and "distinct (map wDb dbs)" and "i < length dbs"
  shows "card {r. 0 \<le> r \<and> r < tot \<and> chooseByWeight (\<lambda>_. r) tot dbs = Some (wDb (dbs ! i))} =
      nat (wWeight (dbs ! i)) \<and>
    card {r. 0 \<le> r \<and> r < tot \<and> pg_chooseByWeight (\<lambda>_. r) tot dbs = Some (wDb (dbs ! i))} =
      nat (wWeight (dbs ! i))"
  using my_choice.share [OF assms] pg_choice.share [OF assms] by simp

theorem replica_share_witness:
  "card {r. 0 \<le> r \<and> r < 7 \<and> chooseByWeight (\<lambda>_. r) 7
      [\<lparr>wName = [], wDb = 0 :: nat, wWeight = 5\<rparr>, \<lparr>wName = [], wDb = 1, wWeight = 2\<rparr>] = Some 1} = 2"
  using replica_share [of "[\<lparr>wName = [], wDb = 0 :: nat, wWeight = 5\<rparr>, \<lparr>wName = [], wDb = 1, wWeight = 2\<rparr>]" 7 1]
  by (simp add: weights_ok_def)

end
