(* ===== verification/Pool.thy ===== *)
theory Pool
  imports Prelude "HOL-Library.Multiset"
begin

text \<open>
  The connection pool (\<open>pool/connectionPool.go\<close>).  First the Go channel that holds the idle
  connections, then the methods of the pool as functions, then the pool with its clients,
  its reaper goroutine and a closing caller as a transition system.
\<close>

section \<open>Buffered channels\<close>

record 'c chan =
  queued :: "'c list"
  ccap :: nat

definition make_chan :: "int \<Rightarrow> 'c chan option" where
  "make_chan n = (if n < 0 then None else Some \<lparr>queued = [], ccap = nat n\<rparr>)"

text \<open>A send on a full channel and a receive from an empty one are not ready: \<open>None\<close>.\<close>

definition chan_send :: "'c \<Rightarrow> 'c chan \<Rightarrow> 'c chan option" where
  "chan_send x q =
     (if length (queued q) < ccap q then Some (q\<lparr>queued := queued q @ [x]\<rparr>) else None)"

definition chan_recv :: "'c chan \<Rightarrow> ('c \<times> 'c chan) option" where
  "chan_recv q = (case queued q of [] \<Rightarrow> None | x # xs \<Rightarrow> Some (x, q\<lparr>queued := xs\<rparr>))"

text \<open>Receiving up to \<open>n\<close> values, as far as they are there.\<close>

fun drain :: "('q \<Rightarrow> ('c \<times> 'q) option) \<Rightarrow> nat \<Rightarrow> 'q \<Rightarrow> 'c list \<times> 'q" where
  "drain recv 0 q = ([], q)"
| "drain recv (Suc n) q =
     (case recv q of None \<Rightarrow> ([], q)
      | Some (c, q') \<Rightarrow> (let (cs, q'') = drain recv n q' in (c # cs, q'')))"

locale bounded_queue =
  fixes send :: "'c \<Rightarrow> 'q \<Rightarrow> 'q option"
    and recv :: "'q \<Rightarrow> ('c \<times> 'q) option"
    and items :: "'q \<Rightarrow> 'c list"
    and room :: "'q \<Rightarrow> nat"
  assumes send_Some: "send x q = Some q' \<Longrightarrow>
      items q' = items q @ [x] \<and> room q' = room q \<and> length (items q) < room q"
    and send_None: "send x q = None \<Longrightarrow> room q \<le> length (items q)"
    and recv_Some: "recv q = Some (x, q') \<Longrightarrow> items q = x # items q' \<and> room q' = room q"
    and recv_None: "recv q = None \<Longrightarrow> items q = []"
begin

lemma recv_iff: "(\<exists>x q'. recv q = Some (x, q')) \<longleftrightarrow> items q \<noteq> []"
  using recv_Some [of q] recv_None [of q] by (cases "recv q") fastforce+

lemma recv_hd: "items q = x # xs \<Longrightarrow> \<exists>q'. recv q = Some (x, q') \<and> items q' = xs \<and> room q' = room q"
  using recv_iff [of q] recv_Some [of q] by fastforce

lemma drain_items:
  "drain recv n q = (cs, q') \<Longrightarrow> cs = take n (items q) \<and> items q' = drop n (items q) \<and> room q' = room q"
proof (induction n arbitrary: q cs q')
  case 0
  then show ?case by simp
next
  case (Suc n)
  show ?case
  proof (cases "recv q")
    case None
    with Suc.prems recv_None [of q] show ?thesis by simp
  next
    case (Some p)
    obtain x q1 where p: "p = (x, q1)" by fastforce
    obtain ds q2 where d: "drain recv n q1 = (ds, q2)" by fastforce
    from Some p d Suc.prems have "cs = x # ds" "q' = q2" by auto
    with Suc.IH [OF d] Some p recv_Some [of q x q1] show ?thesis by simp
  qed
qed

text \<open>First in, first out: after a send, draining everything gives the value last.\<close>

lemma fifo:
  assumes "send x q = Some q'"
  shows "fst (drain recv (Suc (length (items q))) q') = items q @ [x]"
  using drain_items [of "Suc (length (items q))" q'] send_Some [OF assms]
  by (cases "drain recv (Suc (length (items q))) q'") simp

end

interpretation ch: bounded_queue chan_send chan_recv queued ccap
  by unfold_locales
     (auto simp: chan_send_def chan_recv_def split: if_splits list.splits)

section \<open>The pool\<close>

record 'c pool =
  conns :: "'c chan"
  minConns :: int
  maxConns :: int
  idleTimeout :: int
  closed :: bool

text \<open>
  \<open>NewConnectionPool\<close>; the connector is the argument \<open>connect\<close> of the operations below.  It
  panics on a negative capacity.
\<close>

definition NewConnectionPool :: "int \<Rightarrow> int \<Rightarrow> int \<Rightarrow> 'c pool option" where
  "NewConnectionPool mn mx timeout =
     do {
       q \<leftarrow> make_chan mx;
       Some \<lparr>conns = q, minConns = mn, maxConns = mx, idleTimeout = timeout, closed = False\<rparr>
     }"

text \<open>
  The methods act on the pool and on a world \<open>'w\<close> in which \<open>connect\<close> opens a connection and
  \<open>shut\<close> is \<open>conn.Close()\<close>.  The result \<open>None\<close> of \<open>poolOpen\<close> is a call that blocks for ever,
  with the mutex held, on a full channel.
\<close>

fun openLoop :: "('w \<Rightarrow> (error + 'c) \<times> 'w) \<Rightarrow> nat \<Rightarrow> 'c chan \<Rightarrow> 'w \<Rightarrow>
    (error option \<times> 'c chan \<times> 'w) option" where
  "openLoop connect 0 q w = Some (None, q, w)"
| "openLoop connect (Suc k) q w =
     (case connect w of
        (Inl e, w') \<Rightarrow> Some (Some e, q, w')
      | (Inr c, w') \<Rightarrow> (case chan_send c q of
          None \<Rightarrow> None
        | Some q' \<Rightarrow> openLoop connect k q' w'))"

definition poolOpen :: "('w \<Rightarrow> (error + 'c) \<times> 'w) \<Rightarrow> 'c pool \<Rightarrow> 'w \<Rightarrow>
    (error option \<times> 'c pool \<times> 'w) option" where
  "poolOpen connect cp w =
     (if closed cp then Some (Some (FmtError ''connection pool is closed''), cp, w)
      else do {
        (e, q, w') \<leftarrow> openLoop connect (nat (minConns cp)) (conns cp) w;
        Some (e, cp\<lparr>conns := q\<rparr>, w')
      })"

definition poolGet :: "('w \<Rightarrow> (error + 'c) \<times> 'w) \<Rightarrow> 'c pool \<Rightarrow> 'w \<Rightarrow>
    (error + 'c) \<times> 'c pool \<times> 'w" where
  "poolGet connect cp w =
     (if closed cp then (Inl (FmtError ''connection pool is closed''), cp, w)
      else case chan_recv (conns cp) of
             Some (db, q) \<Rightarrow> (Inr db, cp\<lparr>conns := q\<rparr>, w)
           | None \<Rightarrow> (let (r, w') = connect w in (r, cp, w')))"

definition poolPut :: "('c \<Rightarrow> 'w \<Rightarrow> 'w) \<Rightarrow> 'c \<Rightarrow> 'c pool \<Rightarrow> 'w \<Rightarrow> 'c pool \<times> 'w" where
  "poolPut shut conn cp w =
     (if closed cp then (cp, shut conn w)
      else case chan_send conn (conns cp) of
             Some q \<Rightarrow> (cp\<lparr>conns := q\<rparr>, w)
           | None \<Rightarrow> (cp, shut conn w))"

text \<open>The loop of \<open>Close\<close>: the bound \<open>len(cp.conns)\<close> is read again at every test.\<close>

function closeLoop :: "('c \<Rightarrow> 'w \<Rightarrow> 'w) \<Rightarrow> nat \<Rightarrow> 'c chan \<Rightarrow> 'w \<Rightarrow> 'c chan \<times> 'w" where
  "closeLoop shut i q w =
     (if i < length (queued q)
      then case chan_recv q of
             None \<Rightarrow> (q, w)
           | Some (conn, q') \<Rightarrow> closeLoop shut (Suc i) q' (shut conn w)
      else (q, w))"
  by pat_completeness auto
termination
  by (relation "measure (\<lambda>(s, i, q, w). length (queued q) - i)")
     (auto dest: ch.recv_Some)

declare closeLoop.simps [simp del]

definition poolClose :: "('c \<Rightarrow> 'w \<Rightarrow> 'w) \<Rightarrow> 'c pool \<Rightarrow> 'w \<Rightarrow> 'c pool \<times> 'w" where
  "poolClose shut cp w =
     (if closed cp then (cp, w)
      else let (q, w') = closeLoop shut 0 (conns cp) w
           in (cp\<lparr>closed := True, conns := q\<rparr>, w'))"

section \<open>What \<open>Close\<close> closes\<close>

text \<open>
  Each turn of the loop takes one connection out and moves the bound down by one, so the
  counter and the length meet half way.
\<close>

lemma closeLoop_half:
  assumes "k = (length (queued q) - i + 1) div 2"
  shows "closeLoop shut i q w =
    (q\<lparr>queued := drop k (queued q)\<rparr>, fold shut (take k (queued q)) w)"
  using assms
proof (induction k arbitrary: i q w)
  case 0
  then have "\<not> i < length (queued q)" by auto
  then show ?case by (subst closeLoop.simps) simp
next
  case (Suc k)
  then have i: "i < length (queued q)" by (cases "i < length (queued q)") auto
  then obtain x xs where q: "queued q = x # xs" by (cases "queued q") auto
  have r: "chan_recv q = Some (x, q\<lparr>queued := xs\<rparr>)" using q by (simp add: chan_recv_def)
  have "k = (length (queued (q\<lparr>queued := xs\<rparr>)) - Suc i + 1) div 2"
    using Suc.prems i q by simp
  from Suc.IH [OF this] show ?case
    using i q r by (subst closeLoop.simps) simp
qed

section \<open>The pool and its users as a transition system\<close>

text \<open>
  Connections are numbered as they are opened.  The world of the pool's methods is the next
  number, the connections closed so far and the outcomes of the coming dials (a successful
  one when the list has run out).
\<close>

record world =
  fresh :: nat
  shutdown :: "nat list"
  dials :: "error option list"

definition wconnect :: "world \<Rightarrow> (error + nat) \<times> world" where
  "wconnect w =
     (case dials w of
        Some e # ds \<Rightarrow> (Inl e, w\<lparr>dials := ds\<rparr>)
      | _ \<Rightarrow> (Inr (fresh w), w\<lparr>fresh := Suc (fresh w), dials := tl (dials w)\<rparr>))"

definition wshut :: "nat \<Rightarrow> world \<Rightarrow> world" where
  "wshut c w = w\<lparr>shutdown := c # shutdown w\<rparr>"

text \<open>Where the reaper goroutine is, and where a caller inside \<open>Close\<close> is.\<close>

datatype reaper = RNone | RWait | RDrain nat | RStop
datatype closer = CNone | CTest nat | CRecv nat | CDone

record sys =
  pool :: "nat pool"
  world :: world
  inUse :: "nat list"
  reaper :: reaper
  closer :: closer

text \<open>
  \<open>Get\<close>, \<open>Put\<close> and \<open>Open\<close> hold the mutex from their first to their last access, so they are
  single steps, possible when no caller is inside \<open>Close\<close>.  The reaper reads the length
  under the mutex but receives without it, and the loop of \<open>Close\<close> tests and receives in two
  steps: these interleave.
\<close>

definition lock_free :: "sys \<Rightarrow> bool" where
  "lock_free s \<longleftrightarrow> closer s = CNone \<or> closer s = CDone"

inductive pool_step :: "sys \<Rightarrow> sys \<Rightarrow> bool" where
  open_pool: "lock_free s \<Longrightarrow> reaper s = RNone \<Longrightarrow>
    poolOpen wconnect (pool s) (world s) = Some (e, p', w') \<Longrightarrow>
    pool_step s (s\<lparr>pool := p', world := w',
                   reaper := (if e = None then RWait else RNone)\<rparr>)"
| get_conn: "lock_free s \<Longrightarrow> poolGet wconnect (pool s) (world s) = (Inr c, p', w') \<Longrightarrow>
    pool_step s (s\<lparr>pool := p', world := w', inUse := c # inUse s\<rparr>)"
| get_error: "lock_free s \<Longrightarrow> poolGet wconnect (pool s) (world s) = (Inl e, p', w') \<Longrightarrow>
    pool_step s (s\<lparr>pool := p', world := w'\<rparr>)"
| put_conn: "lock_free s \<Longrightarrow> c \<in> set (inUse s) \<Longrightarrow>
    poolPut wshut c (pool s) (world s) = (p', w') \<Longrightarrow>
    pool_step s (s\<lparr>pool := p', world := w', inUse := remove1 c (inUse s)\<rparr>)"
| reap_tick: "lock_free s \<Longrightarrow> reaper s = RWait \<Longrightarrow>
    pool_step s (s\<lparr>reaper :=
      RDrain (nat (int (length (queued (conns (pool s)))) - minConns (pool s)))\<rparr>)"
| reap_recv: "reaper s = RDrain (Suc k) \<Longrightarrow> chan_recv (conns (pool s)) = Some (c, q) \<Longrightarrow>
    pool_step s (s\<lparr>pool := (pool s)\<lparr>conns := q\<rparr>, world := wshut c (world s),
                   reaper := RDrain k\<rparr>)"
| reap_done: "reaper s = RDrain 0 \<Longrightarrow> pool_step s (s\<lparr>reaper := RWait\<rparr>)"
| reap_stop: "reaper s = RWait \<Longrightarrow> closed (pool s) \<Longrightarrow> pool_step s (s\<lparr>reaper := RStop\<rparr>)"
| close_enter: "lock_free s \<Longrightarrow> \<not> closed (pool s) \<Longrightarrow>
    pool_step s (s\<lparr>pool := (pool s)\<lparr>closed := True\<rparr>, closer := CTest 0\<rparr>)"
| close_test: "closer s = CTest i \<Longrightarrow>
    pool_step s (s\<lparr>closer :=
      (if i < length (queued (conns (pool s))) then CRecv i else CDone)\<rparr>)"
| close_recv: "closer s = CRecv i \<Longrightarrow> chan_recv (conns (pool s)) = Some (c, q) \<Longrightarrow>
    pool_step s (s\<lparr>pool := (pool s)\<lparr>conns := q\<rparr>, world := wshut c (world s),
                   closer := CTest (Suc i)\<rparr>)"

definition pool_init :: "nat pool \<Rightarrow> error option list \<Rightarrow> sys" where
  "pool_init p ds = \<lparr>pool = p, world = \<lparr>fresh = 0, shutdown = [], dials = ds\<rparr>,
     inUse = [], reaper = RNone, closer = CNone\<rparr>"

inductive pool_reach :: "int \<Rightarrow> int \<Rightarrow> sys \<Rightarrow> bool" for mn mx where
  start: "NewConnectionPool mn mx t = Some p \<Longrightarrow> pool_reach mn mx (pool_init p ds)"
| step: "pool_reach mn mx s \<Longrightarrow> pool_step s s' \<Longrightarrow> pool_reach mn mx s'"

section \<open>The pool's invariant\<close>

text \<open>
  Every connection ever opened is in exactly one place: idle in the channel, with one
  client, or closed; and the channel never holds more than \<open>maxConns\<close>.
\<close>

definition all_conns :: "nat chan \<Rightarrow> nat list \<Rightarrow> world \<Rightarrow> nat multiset" where
  "all_conns q us w = mset (queued q) + mset us + mset (shutdown w)"

definition conserved :: "nat chan \<Rightarrow> nat list \<Rightarrow> world \<Rightarrow> bool" where
  "conserved q us w \<longleftrightarrow> all_conns q us w = mset [0..<fresh w]"

definition pool_inv :: "int \<Rightarrow> sys \<Rightarrow> bool" where
  "pool_inv mx s \<longleftrightarrow>
     conserved (conns (pool s)) (inUse s) (world s) \<and>
     ccap (conns (pool s)) = nat mx \<and> length (queued (conns (pool s))) \<le> nat mx"

lemmas conserved_defs = conserved_def all_conns_def

lemma wconnect_Inr:
  "wconnect w = (Inr c, w') \<Longrightarrow> c = fresh w \<and> fresh w' = Suc (fresh w) \<and> shutdown w' = shutdown w"
  by (auto simp: wconnect_def split: list.splits option.splits)

lemma wconnect_Inl: "wconnect w = (Inl e, w') \<Longrightarrow> fresh w' = fresh w \<and> shutdown w' = shutdown w"
  by (auto simp: wconnect_def split: list.splits option.splits)

lemma chan_recv_conserved:
  "chan_recv q = Some (c, q') \<Longrightarrow> conserved q us w \<Longrightarrow>
     conserved q' (c # us) w \<and> conserved q' us (wshut c w)"
  using ch.recv_Some [of q c q'] by (simp add: conserved_defs wshut_def)

lemma openLoop_conserved:
  "openLoop wconnect k q w = Some (e, q', w') \<Longrightarrow> conserved q us w \<Longrightarrow>
     length (queued q) \<le> ccap q \<Longrightarrow>
     conserved q' us w' \<and> ccap q' = ccap q \<and> length (queued q') \<le> ccap q"
proof (induction k arbitrary: q w)
  case 0
  then show ?case by simp
next
  case (Suc k)
  show ?case
  proof (cases "wconnect w")
    case (Pair r w1)
    show ?thesis
    proof (cases r)
      case (Inl err)
      with Pair Suc.prems wconnect_Inl [of w err w1] show ?thesis
        by (auto simp: conserved_defs)
    next
      case (Inr c)
      with Pair Suc.prems obtain q1 where q1: "chan_send c q = Some q1"
          "openLoop wconnect k q1 w1 = Some (e, q', w')"
        by (auto split: option.splits)
      note s = ch.send_Some [OF q1(1)]
      have "conserved q1 us w1"
        using s Suc.prems(2) wconnect_Inr [of w c w1] Pair Inr by (simp add: conserved_defs)
      from Suc.IH [OF q1(2) this] s show ?thesis by simp
    qed
  qed
qed

lemma poolOpen_inv:
  assumes "poolOpen wconnect p w = Some (e, p', w')" and "conserved (conns p) us w"
    and "length (queued (conns p)) \<le> ccap (conns p)"
  shows "conserved (conns p') us w' \<and> ccap (conns p') = ccap (conns p) \<and>
    length (queued (conns p')) \<le> ccap (conns p)"
  using assms openLoop_conserved [of "nat (minConns p)" "conns p" w]
  by (fastforce simp: poolOpen_def split: if_splits prod.splits)

lemma poolGet_Inr:
  "poolGet connect p w = (Inr c, p', w') \<Longrightarrow> \<not> closed p \<and>
     ((\<exists>q. chan_recv (conns p) = Some (c, q) \<and> p' = p\<lparr>conns := q\<rparr> \<and> w' = w) \<or>
      chan_recv (conns p) = None \<and> connect w = (Inr c, w') \<and> p' = p)"
  by (auto simp: poolGet_def split: if_splits option.splits prod.splits)

lemma poolPut_cases:
  "poolPut shut c p w = (p', w') \<Longrightarrow>
     (\<exists>q. \<not> closed p \<and> chan_send c (conns p) = Some q \<and> p' = p\<lparr>conns := q\<rparr> \<and> w' = w) \<or>
     p' = p \<and> w' = shut c w"
  by (auto simp: poolPut_def split: if_splits option.splits)

lemma poolGet_inv:
  assumes "poolGet wconnect p w = (Inr c, p', w')" and "conserved (conns p) us w"
  shows "conserved (conns p') (c # us) w' \<and> ccap (conns p') = ccap (conns p) \<and>
    length (queued (conns p')) \<le> length (queued (conns p))"
  using poolGet_Inr [OF assms(1)]
proof (elim conjE disjE exE)
  fix q
  assume "chan_recv (conns p) = Some (c, q)" "p' = p\<lparr>conns := q\<rparr>" "w' = w"
  with assms(2) show ?thesis
    using chan_recv_conserved [of "conns p" c q us w] ch.recv_Some [of "conns p" c q] by simp
next
  assume "wconnect w = (Inr c, w')" "p' = p"
  with assms(2) show ?thesis
    using wconnect_Inr [of w c w'] by (simp add: conserved_defs)
qed

lemma poolGet_error_inv:
  assumes "poolGet wconnect p w = (Inl e, p', w')" and "conserved (conns p) us w"
  shows "conserved (conns p') us w' \<and> conns p' = conns p"
  using assms wconnect_Inl [of w e w']
  by (auto simp: poolGet_def conserved_defs split: if_splits option.splits prod.splits)

lemma poolPut_inv:
  assumes "poolPut wshut c p w = (p', w')" and "conserved (conns p) (c # us) w"
    and "length (queued (conns p)) \<le> ccap (conns p)"
  shows "conserved (conns p') us w' \<and> ccap (conns p') = ccap (conns p) \<and>
    length (queued (conns p')) \<le> ccap (conns p)"
  using poolPut_cases [OF assms(1)]
proof (elim conjE disjE exE)
  fix q
  assume "chan_send c (conns p) = Some q" "p' = p\<lparr>conns := q\<rparr>" "w' = w"
  with assms(2) show ?thesis
    using ch.send_Some [of c "conns p" q] by (simp add: conserved_defs)
next
  assume "p' = p" "w' = wshut c w"
  with assms(2,3) show ?thesis by (simp add: conserved_defs wshut_def)
qed

lemma pool_step_inv: "pool_step s s' \<Longrightarrow> pool_inv mx s \<Longrightarrow> pool_inv mx s'"
proof (induction rule: pool_step.induct)
  case (open_pool s e p' w')
  then show ?case
    using poolOpen_inv [OF open_pool(3), of "inUse s"] by (simp add: pool_inv_def)
next
  case (get_conn s c p' w')
  then show ?case using poolGet_inv [OF get_conn(2)] by (fastforce simp: pool_inv_def)
next
  case (get_error s e p' w')
  then show ?case using poolGet_error_inv [OF get_error(2), of "inUse s"]
    by (auto simp: pool_inv_def)
next
  case (put_conn s c p' w')
  then have "conserved (conns (pool s)) (c # remove1 c (inUse s)) (world s)"
    by (simp add: pool_inv_def conserved_defs)
  with put_conn poolPut_inv [OF put_conn(3)] show ?case by (simp add: pool_inv_def)
next
  case (reap_recv s k c q)
  then show ?case
    using chan_recv_conserved [OF reap_recv(2)] ch.recv_Some [OF reap_recv(2)]
    by (fastforce simp: pool_inv_def)
next
  case (close_recv s i c q)
  then show ?case
    using chan_recv_conserved [OF close_recv(2)] ch.recv_Some [OF close_recv(2)]
    by (fastforce simp: pool_inv_def)
qed (simp_all add: pool_inv_def)

lemma pool_reach_inv: "pool_reach mn mx s \<Longrightarrow> pool_inv mx s"
proof (induction rule: pool_reach.induct)
  case (start t p ds)
  then show ?case
    by (auto simp: NewConnectionPool_def make_chan_def pool_init_def pool_inv_def conserved_defs
        split: if_splits)
next
  case (step s s')
  then show ?case by (blast intro: pool_step_inv)
qed

section \<open>Properties\<close>

text \<open>
  C7: However the users, the reaper and a closing caller interleave, no connection is lost,
  handed to two clients or both idle and in use: the connections opened so far are exactly
  the idle ones, the ones in use and the closed ones, each once; and no more than
  \<open>maxConns\<close> are idle.
\<close>

theorem pool_conserves_connections:
  assumes "pool_reach mn mx s"
  shows "distinct (queued (conns (pool s)) @ inUse s @ shutdown (world s)) \<and>
    set (queued (conns (pool s)) @ inUse s @ shutdown (world s)) = {..<fresh (world s)} \<and>
    length (queued (conns (pool s))) \<le> nat mx"
proof -
  have m: "mset (queued (conns (pool s)) @ inUse s @ shutdown (world s)) = mset [0..<fresh (world s)]"
    and l: "length (queued (conns (pool s))) \<le> nat mx"
    using pool_reach_inv [OF assms] by (auto simp: pool_inv_def conserved_defs ac_simps)
  then show ?thesis
    using mset_eq_setD [OF m] mset_eq_imp_distinct_iff [OF m] by (auto simp: atLeast_upt)
qed

definition demo_pool :: "nat pool" where
  "demo_pool = \<lparr>conns = \<lparr>queued = [], ccap = 2\<rparr>, minConns = 1, maxConns = 2, idleTimeout = 60,
     closed = False\<rparr>"

lemma demo_start: "pool_reach 1 2 (pool_init demo_pool [])"
  by (rule pool_reach.start [of _ _ 60]) (simp add: NewConnectionPool_def make_chan_def demo_pool_def)

definition demo_taken :: sys where
  "demo_taken = (pool_init demo_pool [])
     \<lparr>world := \<lparr>fresh = 1, shutdown = [], dials = []\<rparr>, inUse := [0]\<rparr>"

lemma demo_get: "pool_reach 1 2 demo_taken"
proof -
  have "poolGet wconnect (pool (pool_init demo_pool [])) (world (pool_init demo_pool [])) =
      (Inr 0, demo_pool, \<lparr>fresh = 1, shutdown = [], dials = []\<rparr>)"
    by (simp add: poolGet_def pool_init_def demo_pool_def chan_recv_def wconnect_def)
  from pool_step.get_conn [OF _ this] have "pool_step (pool_init demo_pool []) demo_taken"
    by (simp add: lock_free_def pool_init_def demo_taken_def)
  with demo_start show ?thesis by (rule pool_reach.step)
qed

theorem pool_conserves_connections_witness:
  "pool_reach 1 2 demo_taken \<and>
   set (queued (conns (pool demo_taken)) @ inUse demo_taken @ shutdown (world demo_taken)) = {0}"
  using demo_get pool_conserves_connections [OF demo_get]
  by (simp add: demo_taken_def pool_init_def demo_pool_def)

text \<open>
  \<open>Close\<close> closes the first half of the idle connections, rounded up; the others stay in
  the channel of the closed pool and are never closed.
\<close>

theorem poolClose_closes_half:
  assumes "\<not> closed cp" and "queued (conns cp) = cs" and "k = (length cs + 1) div 2"
  shows "poolClose wshut cp w =
    (cp\<lparr>closed := True, conns := (conns cp)\<lparr>queued := drop k cs\<rparr>\<rparr>,
     fold wshut (take k cs) w)"
  using assms closeLoop_half [of k "conns cp" 0 wshut w] by (simp add: poolClose_def)

theorem poolClose_closes_half_witness:
  "poolClose wshut (demo_pool\<lparr>conns := \<lparr>queued = [4, 5], ccap = 2\<rparr>\<rparr>)
      \<lparr>fresh = 6, shutdown = [], dials = []\<rparr> =
     (demo_pool\<lparr>closed := True, conns := \<lparr>queued = [5], ccap = 2\<rparr>\<rparr>,
      \<lparr>fresh = 6, shutdown = [4], dials = []\<rparr>)"
  using poolClose_closes_half [of "demo_pool\<lparr>conns := \<lparr>queued = [4, 5], ccap = 2\<rparr>\<rparr>" "[4, 5]" 1
      "\<lparr>fresh = 6, shutdown = [], dials = []\<rparr>"]
  by (simp add: demo_pool_def wshut_def)

text \<open>
  A state of the race between \<open>Close\<close> and the reaper: the caller has passed its length test, the
  reaper has taken the last idle connection.
\<close>

definition race_state :: sys where
  "race_state =
     \<lparr>pool = \<lparr>conns = \<lparr>queued = [], ccap = 1\<rparr>, minConns = 0, maxConns = 1, idleTimeout = 60,
              closed = True\<rparr>,
      world = \<lparr>fresh = 1, shutdown = [0], dials = []\<rparr>, inUse = [], reaper = RDrain 0,
      closer = CRecv 0\<rparr>"

definition stuck :: "sys \<Rightarrow> bool" where
  "stuck s \<longleftrightarrow> closer s = CRecv 0 \<and> queued (conns (pool s)) = []"

lemma stuck_step: "pool_step s t \<Longrightarrow> stuck s \<Longrightarrow> stuck t"
  by (induction rule: pool_step.induct) (auto simp: stuck_def lock_free_def chan_recv_def)

lemma stuck_steps: "pool_step\<^sup>*\<^sup>* s t \<Longrightarrow> stuck s \<Longrightarrow> stuck t"
  by (induction rule: rtranclp_induct) (auto dest: stuck_step)

abbreviation race_base :: "nat list \<Rightarrow> bool \<Rightarrow> nat list \<Rightarrow> nat list \<Rightarrow> reaper \<Rightarrow> closer \<Rightarrow> nat \<Rightarrow> sys" where
  "race_base q cl sd us rp cs n \<equiv>
     \<lparr>pool = \<lparr>conns = \<lparr>queued = q, ccap = 1\<rparr>, minConns = 0, maxConns = 1, idleTimeout = 60,
              closed = cl\<rparr>,
      world = \<lparr>fresh = n, shutdown = sd, dials = []\<rparr>, inUse = us, reaper = rp, closer = cs\<rparr>"

lemma race_reach: "pool_reach 0 1 race_state"
proof -
  have 0: "pool_reach 0 1 (race_base [] False [] [] RNone CNone 0)"
    using pool_reach.start [of 0 1 60 _ "[]"]
    by (simp add: NewConnectionPool_def make_chan_def pool_init_def)
  have 1: "pool_step (race_base [] False [] [] RNone CNone 0) (race_base [] False [] [] RWait CNone 0)"
    using pool_step.open_pool [of "race_base [] False [] [] RNone CNone 0" None]
    by (simp add: lock_free_def poolOpen_def)
  have 2: "pool_step (race_base [] False [] [] RWait CNone 0) (race_base [] False [] [0] RWait CNone 1)"
    using pool_step.get_conn [of "race_base [] False [] [] RWait CNone 0" 0]
    by (simp add: lock_free_def poolGet_def chan_recv_def wconnect_def)
  have 3: "pool_step (race_base [] False [] [0] RWait CNone 1) (race_base [0] False [] [] RWait CNone 1)"
    using pool_step.put_conn [of "race_base [] False [] [0] RWait CNone 1" 0]
    by (simp add: lock_free_def poolPut_def chan_send_def)
  have 4: "pool_step (race_base [0] False [] [] RWait CNone 1) (race_base [0] False [] [] (RDrain 1) CNone 1)"
    using pool_step.reap_tick [of "race_base [0] False [] [] RWait CNone 1"]
    by (simp add: lock_free_def)
  have 5: "pool_step (race_base [0] False [] [] (RDrain 1) CNone 1) (race_base [0] True [] [] (RDrain 1) (CTest 0) 1)"
    using pool_step.close_enter [of "race_base [0] False [] [] (RDrain 1) CNone 1"]
    by (simp add: lock_free_def)
  have 6: "pool_step (race_base [0] True [] [] (RDrain 1) (CTest 0) 1) (race_base [0] True [] [] (RDrain 1) (CRecv 0) 1)"
    using pool_step.close_test [of "race_base [0] True [] [] (RDrain 1) (CTest 0) 1"] by simp
  have 7: "pool_step (race_base [0] True [] [] (RDrain 1) (CRecv 0) 1) race_state"
    using pool_step.reap_recv [of "race_base [0] True [] [] (RDrain 1) (CRecv 0) 1" 0 0]
    by (simp add: chan_recv_def wshut_def race_state_def)
  note opened = pool_reach.step [OF 0 1]
  note used = pool_reach.step [OF pool_reach.step [OF opened 2] 3]
  note closing = pool_reach.step [OF pool_reach.step [OF used 4] 5]
  show ?thesis by (rule pool_reach.step [OF pool_reach.step [OF closing 6] 7])
qed

text \<open>
  C40: A caller inside the loop of \<open>Close\<close> that has passed the length test can lose the last
  idle connection to the reaper, which receives without the mutex: from that state on the
  caller waits at its receive for ever, with the mutex held.
\<close>

theorem close_race_deadlocks:
  "\<exists>s. pool_reach 0 1 s \<and> closed (pool s) \<and> {t. pool_step\<^sup>*\<^sup>* s t} \<subseteq> {t. closer t = CRecv 0}"
proof (intro exI conjI)
  show "pool_reach 0 1 race_state" by (rule race_reach)
  show "closed (pool race_state)" by (simp add: race_state_def)
  have "stuck race_state" by (simp add: stuck_def race_state_def)
  then show "{t. pool_step\<^sup>*\<^sup>* race_state t} \<subseteq> {t. closer t = CRecv 0}"
    using stuck_steps by (fastforce simp: stuck_def)
qed

lemma unbounded_reach:
  assumes "NewConnectionPool mn mx t = Some p"
  shows "\<exists>s. pool_reach mn mx s \<and> length (inUse s) = k \<and> pool s = p \<and> closer s = CNone \<and>
    dials (world s) = []"
proof (induction k)
  case 0
  show ?case using pool_reach.start [OF assms, of "[]"] by (force simp: pool_init_def)
next
  case (Suc k)
  then obtain s where s: "pool_reach mn mx s" "length (inUse s) = k" "pool s = p"
      "closer s = CNone" "dials (world s) = []" by blast
  have "\<not> closed p" "queued (conns p) = []"
    using assms by (auto simp: NewConnectionPool_def make_chan_def split: if_splits)
  then have "poolGet wconnect (pool s) (world s) =
      (Inr (fresh (world s)), pool s, (world s)\<lparr>fresh := Suc (fresh (world s)), dials := []\<rparr>)"
    using s(3,5) by (simp add: poolGet_def chan_recv_def wconnect_def)
  from pool_reach.step [OF s(1) pool_step.get_conn [OF _ this]] s show ?case
    by (fastforce simp: lock_free_def)
qed

text \<open>
  \<open>maxConns\<close> bounds the idle connections only: with the database accepting connections,
  any number of clients hold one each at the same time, whatever \<open>maxConns\<close> is.
\<close>

theorem open_connections_unbounded:
  assumes "0 \<le> mx"
  shows "\<exists>s. pool_reach mn mx s \<and> length (inUse s) = k \<and> maxConns (pool s) = mx"
proof -
  obtain p where "NewConnectionPool mn mx 60 = Some (p :: nat pool)" "maxConns p = mx"
    using assms by (auto simp: NewConnectionPool_def make_chan_def)
  with unbounded_reach [of mn mx 60 p k] show ?thesis by blast
qed

theorem open_connections_unbounded_witness:
  "\<exists>s. pool_reach 1 2 s \<and> length (inUse s) = 1000 \<and> maxConns (pool s) = 2"
  using open_connections_unbounded [of 2 1 1000] by simp

end
