(* ===== verification/Wire.thy ===== *)
theory Wire
  imports Prelude
begin

text \<open>
  The number and string encodings of the MySQL protocol (\<open>mysql/utils.go\<close>): little-endian
  integers, length-encoded integers and strings, decimal conversions.
\<close>

section \<open>Little-endian integers\<close>

text \<open>\<open>byte(n >> s)\<close>.\<close>

definition byte_at :: "nat \<Rightarrow> 'a::len word \<Rightarrow> byte" where
  "byte_at s n = ucast (drop_bit s n)"

text \<open>
  \<open>getle\<close> reads bytes as a little-endian number (\<open>binary.LittleEndian.UintN\<close>) and
  \<open>putle k\<close> writes the low \<open>k\<close> bytes (\<open>PutUintN\<close>).
\<close>

fun getle :: "bytes \<Rightarrow> 'a::len word" where
  "getle [] = 0"
| "getle (b # bs) = ucast b OR push_bit 8 (getle bs)"

fun putle :: "nat \<Rightarrow> 'a::len word \<Rightarrow> bytes" where
  "putle 0 n = []"
| "putle (Suc k) n = ucast n # putle k (drop_bit 8 n)"

lemma length_putle [simp]: "length (putle k n) = k"
  by (induction k arbitrary: n) auto

lemma getle_putle: "getle (putle k n) = take_bit (8 * k) n"
proof (induction k arbitrary: n)
  case 0
  then show ?case by simp
next
  case (Suc k)
  have "ucast (ucast n :: byte) OR push_bit 8 (take_bit (8 * k) (drop_bit 8 n)) =
      take_bit (8 * Suc k) n"
    by (rule bit_word_eqI) (auto simp: bit_simps)
  with Suc show ?case by simp
qed

lemma getle_putle_id: "LENGTH('a::len) \<le> 8 * k \<Longrightarrow> getle (putle k (n :: 'a word)) = n"
  by (simp add: getle_putle take_bit_word_eq_self)

text \<open>\<open>readStatus\<close> and \<open>uint64ToBytes\<close>.\<close>

definition readStatus :: "bytes \<Rightarrow> u16 option" where
  "readStatus b = do { b0 \<leftarrow> idx b 0; b1 \<leftarrow> idx b 1; Some (ucast b0 OR push_bit 8 (ucast b1)) }"

definition uint64ToBytes :: "u64 \<Rightarrow> bytes" where
  "uint64ToBytes n =
     [byte_at 0 n, byte_at 8 n, byte_at 16 n, byte_at 24 n,
      byte_at 32 n, byte_at 40 n, byte_at 48 n, byte_at 56 n]"

lemma putle_bytes:
  "putle 1 n = [byte_at 0 n]"
  "putle 2 n = [byte_at 0 n, byte_at 8 n]"
  "putle 3 n = [byte_at 0 n, byte_at 8 n, byte_at 16 n]"
  "putle 8 n = [byte_at 0 n, byte_at 8 n, byte_at 16 n, byte_at 24 n,
      byte_at 32 n, byte_at 40 n, byte_at 48 n, byte_at 56 n]"
  by (simp_all add: byte_at_def numeral_eq_Suc drop_bit_drop_bit)

section \<open>Length-encoded integers\<close>

text \<open>The value, whether it is NULL, and the number of bytes read.\<close>

definition readLengthEncodedInteger :: "bytes \<Rightarrow> (u64 \<times> bool \<times> int) option" where
  "readLengthEncodedInteger b =
     (if length b = 0 then Some (0, True, 1)
      else do {
        b0 \<leftarrow> idx b 0;
        if b0 = 0xfb then Some (0, True, 1)
        else if b0 = 0xfc then do {
          b1 \<leftarrow> idx b 1; b2 \<leftarrow> idx b 2;
          Some (ucast b1 OR push_bit 8 (ucast b2), False, 3) }
        else if b0 = 0xfd then do {
          b1 \<leftarrow> idx b 1; b2 \<leftarrow> idx b 2; b3 \<leftarrow> idx b 3;
          Some (ucast b1 OR push_bit 8 (ucast b2) OR push_bit 16 (ucast b3), False, 4) }
        else if b0 = 0xfe then do {
          b1 \<leftarrow> idx b 1; b2 \<leftarrow> idx b 2; b3 \<leftarrow> idx b 3; b4 \<leftarrow> idx b 4;
          b5 \<leftarrow> idx b 5; b6 \<leftarrow> idx b 6; b7 \<leftarrow> idx b 7; b8 \<leftarrow> idx b 8;
          Some (ucast b1 OR push_bit 8 (ucast b2) OR push_bit 16 (ucast b3) OR
                push_bit 24 (ucast b4) OR push_bit 32 (ucast b5) OR push_bit 40 (ucast b6) OR
                push_bit 48 (ucast b7) OR push_bit 56 (ucast b8), False, 9) }
        else Some (ucast b0, False, 1)
      })"

definition appendLengthEncodedInteger :: "bytes \<Rightarrow> u64 \<Rightarrow> bytes" where
  "appendLengthEncodedInteger b n =
     (if n \<le> 250 then b @ [byte_at 0 n]
      else if n \<le> 0xffff then b @ [0xfc, byte_at 0 n, byte_at 8 n]
      else if n \<le> 0xffffff then b @ [0xfd, byte_at 0 n, byte_at 8 n, byte_at 16 n]
      else b @ [0xfe, byte_at 0 n, byte_at 8 n, byte_at 16 n, byte_at 24 n,
                byte_at 32 n, byte_at 40 n, byte_at 48 n, byte_at 56 n])"

text \<open>The reader in terms of \<open>getle\<close>: a header byte, then a number of 2, 3 or 8 bytes.\<close>

lemma getle_forms:
  "ucast b1 OR push_bit 8 (ucast b2) = (getle [b1, b2] :: 'a::len word)"
  "ucast b1 OR push_bit 8 (ucast b2) OR push_bit 16 (ucast b3) = (getle [b1, b2, b3] :: 'a word)"
  "ucast b1 OR push_bit 8 (ucast b2) OR push_bit 16 (ucast b3) OR push_bit 24 (ucast b4) OR
     push_bit 32 (ucast b5) OR push_bit 40 (ucast b6) OR push_bit 48 (ucast b7) OR
     push_bit 56 (ucast b8) = (getle [b1, b2, b3, b4, b5, b6, b7, b8] :: 'a word)"
  by (simp_all add: push_bit_or or.assoc push_bit_push_bit)

lemma readLEI_short: "b0 \<le> 250 \<Longrightarrow> readLengthEncodedInteger (b0 # r) = Some (ucast b0, False, 1)"
  by (auto simp: readLengthEncodedInteger_def word_le_nat_alt)

lemma readLEI_null: "readLengthEncodedInteger (0xfb # r) = Some (0, True, 1)"
  by (simp add: readLengthEncodedInteger_def)

lemma readLEI_long:
  "readLengthEncodedInteger (0xfc # a # b # r) = Some (getle [a, b], False, 3)"
  "readLengthEncodedInteger (0xfd # a # b # c # r) = Some (getle [a, b, c], False, 4)"
  "readLengthEncodedInteger (0xfe # a # b # c # d # e # f # g # h # r) =
     Some (getle [a, b, c, d, e, f, g, h], False, 9)"
  unfolding getle_forms [symmetric] by (simp_all add: readLengthEncodedInteger_def)

lemma readLEI_putle:
  "readLengthEncodedInteger (0xfc # putle 2 n @ r) = Some (getle (putle 2 n), False, 3)"
  "readLengthEncodedInteger (0xfd # putle 3 n @ r) = Some (getle (putle 3 n), False, 4)"
  "readLengthEncodedInteger (0xfe # putle 8 n @ r) = Some (getle (putle 8 n), False, 9)"
  by (simp_all add: putle_bytes readLEI_long del: getle.simps)

definition lei :: "u64 \<Rightarrow> bytes" where
  "lei n = appendLengthEncodedInteger [] n"

lemma appendLEI_lei: "appendLengthEncodedInteger b n = b @ lei n"
  by (simp add: lei_def appendLengthEncodedInteger_def)

lemma lei_cases:
  "lei n = (if n \<le> 250 then putle 1 n else if n \<le> 0xffff then 0xfc # putle 2 n
            else if n \<le> 0xffffff then 0xfd # putle 3 n else 0xfe # putle 8 n)"
  using putle_bytes(1) [of n] by (simp add: lei_def appendLengthEncodedInteger_def putle_bytes)

lemma take_bit_small: "unat n < 2 ^ k \<Longrightarrow> take_bit k (n :: 'a::len word) = n"
  by (simp add: word_unat_eq_iff unsigned_take_bit_eq take_bit_nat_eq_self)

lemma ucast_byte: "ucast (ucast n :: byte) = take_bit 8 (n :: 'a::len word)"
  by (rule bit_word_eqI) (auto simp: bit_simps)

text \<open>
  Reading back what was appended gives the number and exactly the bytes it took, whatever
  follows.
\<close>

lemma readLEI_lei: "readLengthEncodedInteger (lei n @ r) = Some (n, False, int (length (lei n)))"
proof -
  have "(ucast n :: byte) \<le> 250" if "unat n \<le> 250"
    using that by (simp add: word_le_nat_alt unsigned_ucast_eq take_bit_nat_eq_self)
  then show ?thesis
    using readLEI_short [of "ucast n" r] readLEI_putle [of n r]
    by (auto simp: lei_cases getle_putle take_bit_small take_bit_word_eq_self word_le_nat_alt
        ucast_byte)
qed

lemma lei_nonempty [simp]: "lei n \<noteq> []"
  by (simp add: lei_cases)

lemma length_lei: "length (lei n) \<le> 9"
  by (simp add: lei_cases)

section \<open>Length-encoded strings\<close>

text \<open>
  The bytes, whether the value is NULL, the number of bytes read, and \<open>io.EOF\<close> when the
  string would run past the input.  The length is a 64-bit number converted to \<open>int\<close>.
\<close>

definition readLengthEncodedString ::
    "gslice \<Rightarrow> (bytes \<times> bool \<times> int \<times> error option) option" where
  "readLengthEncodedString b =
     do {
       (num, isNull, n) \<leftarrow> readLengthEncodedInteger (fst b);
       if num < 1 then do {
         s \<leftarrow> slice b n n;
         Some (fst s, isNull, n, None) }
       else do {
         let n' = wrap64 (n + sint num);
         if n' \<le> int (length (fst b)) then do {
           s \<leftarrow> slice b (wrap64 (n' - sint num)) n';
           Some (fst s, False, n', None) }
         else Some ([], False, n', Some IoEOF) }
     }"

definition skipLengthEncodedString :: "bytes \<Rightarrow> (int \<times> error option) option" where
  "skipLengthEncodedString b =
     do {
       (num, isNull, n) \<leftarrow> readLengthEncodedInteger b;
       if num < 1 then Some (n, None)
       else do {
         let n' = wrap64 (n + sint num);
         if n' \<le> int (length b) then Some (n', None) else Some (n', Some IoEOF) }
     }"

definition appendLengthEncodedString :: "bytes \<Rightarrow> bytes \<Rightarrow> bytes" where
  "appendLengthEncodedString b s = appendLengthEncodedInteger b (of_nat (length s)) @ s"

definition les :: "bytes \<Rightarrow> bytes" where
  "les s = lei (of_nat (length s)) @ s"

lemma appendLES_les: "appendLengthEncodedString b s = b @ les s"
  by (simp add: appendLengthEncodedString_def appendLEI_lei les_def)

lemma sint_of_nat_len: "k < 2 ^ 62 \<Longrightarrow> sint (of_nat k :: u64) = int k"
  by (simp add: signed_of_nat signed_take_bit_int_eq_self_iff)

lemma of_nat_less_1: "k < 2 ^ 62 \<Longrightarrow> (of_nat k :: u64) < 1 \<longleftrightarrow> k = 0"
  by (auto simp: word_less_nat_alt unsigned_of_nat take_bit_nat_eq_self)

lemma of_nat_eq_0: "k < 2 ^ 62 \<Longrightarrow> (of_nat k :: u64) = 0 \<longleftrightarrow> k = 0"
  using of_nat_less_1 [of k] by simp

lemma readLES_les:
  assumes "length s < 2 ^ 62"
  shows "readLengthEncodedString (les s @ r, sp) = Some (s, False, int (length (les s)), None)"
proof -
  define L where "L = int (length (lei (of_nat (length s))))"
  have L: "0 \<le> L" "L \<le> 9" using length_lei by (auto simp: L_def)
  have "readLengthEncodedInteger (les s @ r) = Some (of_nat (length s), False, L)"
    using readLEI_lei [of "of_nat (length s)" "s @ r"] by (simp add: les_def L_def)
  moreover have "wrap64 (L + int (length s)) = L + int (length s)"
    using assms L by simp
  ultimately show ?thesis
    using assms L
    by (simp add: readLengthEncodedString_def sint_of_nat_len of_nat_less_1 of_nat_eq_0 slice_def Let_def
        les_def L_def nat_add_distrib)
qed

section \<open>Lengths the reader cannot handle\<close>

text \<open>
  The conversion of the length to \<open>int\<close> and its sum with the header size may wrap; then the
  end of the string lies before its start.
\<close>

lemma sint_wrap64: "sint (v :: u64) = wrap64 (uint v)"
  by (simp add: wrap64_def sint_uint)
lemma sint_cases: "sint (v :: u64) = (if v < 2 ^ 63 then uint v else uint v - 2 ^ 64)"
proof -
  define u where "u = uint v"
  have "0 \<le> u" "u < 2 ^ 64" using uint_lt2p [of v] by (auto simp: u_def)
  then show ?thesis
    using wrap64_over [of u] by (simp add: sint_wrap64 word_less_def flip: u_def)
qed
lemma readLES_big:
  "readLengthEncodedString (0xfe # putle 8 (v :: u64) @ r, sp) = None \<longleftrightarrow> 2 ^ 63 - 9 \<le> v"
proof -
  have r: "readLengthEncodedInteger (0xfe # putle 8 v @ r) = Some (v, False, 9)"
    by (simp add: readLEI_putle getle_putle_id)
  have v: "0 \<le> uint v" "uint v < 2 ^ 64" using uint_lt2p [of v] by auto
  have lt1: "v < 1 \<longleftrightarrow> v = 0" by (simp add: word_less_nat_alt unat_eq_0)
  have lt: "v < 2 ^ 63 \<longleftrightarrow> uint v < 2 ^ 63" "2 ^ 63 - 9 \<le> v \<longleftrightarrow> 2 ^ 63 - 9 \<le> uint v"
    by (auto simp: word_less_def word_le_def)
  consider "uint v < 2 ^ 63 - 9" | "2 ^ 63 - 9 \<le> uint v" "uint v < 2 ^ 63" | "2 ^ 63 \<le> uint v"
    by linarith
  then show ?thesis
  proof cases
    case 1
    then have "sint v = uint v" "wrap64 (9 + sint v) = 9 + uint v"
      using v sint_cases [of v] lt by auto
    with 1 r v lt1 lt show ?thesis
      by (auto simp: readLengthEncodedString_def slice_def Let_def)
  next
    case 2
    then have "sint v = uint v" "wrap64 (9 + sint v) = 9 + uint v - 2 ^ 64"
      using v sint_cases [of v] wrap64_over [of "9 + uint v"] lt by auto
    moreover have "wrap64 (9 + uint v - 2 ^ 64 - uint v) = 9"
      using wrap64_under [of "9 - 2 ^ 64"] by simp
    ultimately show ?thesis using 2 r v lt1 lt
      by (auto simp: readLengthEncodedString_def slice_def Let_def)
  next
    case 3
    then have "sint v = uint v - 2 ^ 64" "wrap64 (9 + sint v) = 9 + uint v - 2 ^ 64"
      using v sint_cases [of v] lt by auto
    then show ?thesis using 3 r v lt1 lt
      by (auto simp: readLengthEncodedString_def slice_def Let_def)
  qed
qed
section \<open>Decimal conversions\<close>

text \<open>
  \<open>uint64ToString\<close> fills an array of 20 bytes from its end; a write outside of it would
  panic.
\<close>

definition array_set :: "bytes \<Rightarrow> int \<Rightarrow> byte \<Rightarrow> bytes option" where
  "array_set a i x = (if 0 \<le> i \<and> i < int (length a) then Some (a[nat i := x]) else None)"

function uint64ToString_loop :: "u64 \<Rightarrow> int \<Rightarrow> bytes \<Rightarrow> (u64 \<times> int \<times> bytes) option" where
  "uint64ToString_loop n i a =
     (if n < 10 then Some (n, i, a)
      else do {
        let i' = i - 1;
        let q = n div 10;
        a' \<leftarrow> array_set a i' (ucast (n - q * 10) + 0x30);
        uint64ToString_loop q i' a'
      })"
  by pat_completeness auto
termination
  by (relation "measure (\<lambda>(n, i, a). unat n)")
     (auto simp: word_less_nat_alt unat_div intro!: div_less_dividend)

declare uint64ToString_loop.simps [simp del]

definition uint64ToString :: "u64 \<Rightarrow> bytes option" where
  "uint64ToString n =
     do {
       (n', i, a) \<leftarrow> uint64ToString_loop n 20 (replicate 20 0);
       let i' = i - 1;
       a' \<leftarrow> array_set a i' (ucast n' + 0x30);
       s \<leftarrow> slice_from (a', []) i';
       Some (fst s)
     }"

text \<open>\<open>stringToInt\<close>: the byte difference wraps, and so does the sum.\<close>

fun stringToInt_loop :: "int \<Rightarrow> bytes \<Rightarrow> int" where
  "stringToInt_loop val [] = val"
| "stringToInt_loop val (c # b) =
     stringToInt_loop (wrap64 (wrap64 (val * 10) + uint (c - 0x30))) b"

definition stringToInt :: "bytes \<Rightarrow> int" where
  "stringToInt b = stringToInt_loop 0 b"

lemma digits_of_step: "10 \<le> m \<Longrightarrow> digits_of m = digits_of (m div 10) @ [of_nat (48 + m mod 10)]"
  and digits_of_small: "m < 10 \<Longrightarrow> digits_of m = [of_nat (48 + m)]"
  by (subst digits_of.simps; simp)+

lemma digits_of_nonempty [simp]: "digits_of m \<noteq> []"
  by (subst digits_of.simps) simp

lemma length_digits_of: "m < 10 ^ k \<Longrightarrow> 0 < k \<Longrightarrow> length (digits_of m) \<le> k"
proof (induction k arbitrary: m)
  case 0
  then show ?case by simp
next
  case (Suc k)
  show ?case
  proof (cases "m < 10")
    case True
    then show ?thesis by (simp add: digits_of_small)
  next
    case False
    then have "0 < k" "m div 10 < 10 ^ k" using Suc.prems by (cases k; auto)+
    with Suc.IH [of "m div 10"] False show ?thesis by (simp add: digits_of_step)
  qed
qed

lemma digit_byte_last: "(of_nat (48 + unat n) :: byte) = ucast (n :: u64) + 0x30"
  by (simp add: of_nat_unat)

lemma digit_byte:
  "(of_nat (48 + unat (n :: u64) mod 10) :: byte) = ucast (n - n div 10 * 10) + 0x30"
proof -
  have "unat n mod 10 = unat (n - n div 10 * 10)"
    by (simp add: minus_div_mult_eq_mod unat_mod)
  then show ?thesis by (simp only: digit_byte_last)
qed

lemma drop_upd: "1 \<le> i \<Longrightarrow> i \<le> length a \<Longrightarrow> drop (i - 1) (a[i - 1 := x]) = x # drop i a"
  using Cons_nth_drop_Suc [of "i - 1" "a[i - 1 := x]"] by (cases i) auto

lemma uint64ToString_loop_digits:
  assumes "length (digits_of (unat n)) \<le> i" and "i \<le> length a"
  shows "\<exists>n' i' a'. uint64ToString_loop n (int i) a = Some (n', int i', a') \<and>
    1 \<le> i' \<and> length a' = length a \<and> i' \<le> length a \<and>
    drop (i' - 1) (a'[i' - 1 := ucast n' + 0x30]) = digits_of (unat n) @ drop i a"
  using assms
proof (induction "unat n" arbitrary: n i a rule: less_induct)
  case less
  show ?case
  proof (cases "n < 10")
    case True
    then have d: "digits_of (unat n) = [ucast n + 0x30]"
      using digits_of_small [of "unat n"] by (simp only: digit_byte_last) (simp add: word_less_nat_alt)
    with less.prems have "1 \<le> i" by simp
    then have "drop (i - 1) (a[i - 1 := ucast n + 0x30]) = digits_of (unat n) @ drop i a"
      using less.prems d by (simp add: drop_upd del: One_nat_def)
    with True \<open>1 \<le> i\<close> less.prems show ?thesis by (subst uint64ToString_loop.simps) auto
  next
    case False
    let ?x = "ucast (n - n div 10 * 10) + 0x30 :: byte"
    have d: "digits_of (unat n) = digits_of (unat (n div 10)) @ [?x]"
      using digits_of_step [of "unat n"] False
      by (simp only: digit_byte) (simp add: unat_div word_less_nat_alt not_less)
    have small: "unat (n div 10) < unat n"
      using False by (simp add: unat_div word_less_nat_alt)
    have i: "1 \<le> i" "length (digits_of (unat (n div 10))) \<le> i - 1" "i - 1 \<le> length (a[i - 1 := ?x])"
      using less.prems d by auto
    have st: "uint64ToString_loop n (int i) a = uint64ToString_loop (n div 10) (int (i - 1)) (a[i - 1 := ?x])"
      using False i less.prems
      by (subst uint64ToString_loop.simps) (auto simp: array_set_def Let_def of_nat_diff nat_diff_distrib)
    show ?thesis
      using less.hyps [OF small i(2,3)] i less.prems unfolding st d
      by (simp add: drop_upd del: One_nat_def)
  qed
qed

lemma uint64ToString_digits: "uint64ToString n = Some (digits_of (unat n))"
proof -
  have "unat n < 10 ^ 20"
    using unsigned_less [of n, where ?'a = nat] by simp
  then have "length (digits_of (unat n)) \<le> 20" by (rule length_digits_of) simp
  with uint64ToString_loop_digits [of n 20 "replicate 20 0"] obtain n' i' a' where
    l: "uint64ToString_loop n 20 (replicate 20 0) = Some (n', int i', a')"
    and i: "1 \<le> i'" "length a' = 20" "i' \<le> 20"
    and d: "drop (i' - 1) (a'[i' - 1 := ucast n' + 0x30]) = digits_of (unat n)"
    by auto
  from i have "array_set a' (int i' - 1) (ucast n' + 0x30) = Some (a'[i' - 1 := ucast n' + 0x30])"
    by (simp add: array_set_def nat_diff_distrib)
  with l i d show ?thesis
    by (auto simp: uint64ToString_def slice_from_def Let_def nat_diff_distrib)
qed

lemma stringToInt_loop_append:
  "stringToInt_loop v (xs @ ys) = stringToInt_loop (stringToInt_loop v xs) ys"
  by (induction xs arbitrary: v) auto

lemma stringToInt_digits: "m < 2 ^ 63 \<Longrightarrow> stringToInt (digits_of m) = int m"
proof (induction m rule: less_induct)
  case (less m)
  have u: "uint ((of_nat (48 + d) :: byte) - 0x30) = int d" if "d < 10" for d
    using that by (simp add: uint_nat unsigned_of_nat take_bit_nat_eq_self)
  show ?case
  proof (cases "m < 10")
    case True
    then show ?thesis using u [of m]
      by (simp add: stringToInt_def digits_of_small)
  next
    case False
    then have "stringToInt (digits_of (m div 10)) = int (m div 10)"
      using less by (intro less.IH) auto
    moreover have "int (m div 10) * 10 + int (m mod 10) = int m"
      by (simp add: zdiv_int zmod_int)
    moreover from this less.prems have "int (m div 10) * 10 < 2 ^ 63" by simp
    ultimately show ?thesis
      using False less.prems u [of "m mod 10"]
      by (simp add: stringToInt_def digits_of_step stringToInt_loop_append)
  qed
qed
section \<open>Encodings read in sequence\<close>

text \<open>
  The interface of an encoding: reading a slice that starts with an encoded value gives the
  value and its size.  A packet that is a sequence of encoded values is then read item by
  item, each from the position where the one before ended.
\<close>

fun read_items :: "(gslice \<Rightarrow> ('a \<times> int) option) \<Rightarrow> nat \<Rightarrow> gslice \<Rightarrow> int \<Rightarrow> ('a list \<times> int) option" where
  "read_items rd 0 data pos = Some ([], pos)"
| "read_items rd (Suc k) data pos =
     do {
       s \<leftarrow> slice_from data pos;
       (x, n) \<leftarrow> rd s;
       (xs, pos') \<leftarrow> read_items rd k data (pos + n);
       Some (x # xs, pos')
     }"

locale codec =
  fixes enc :: "'a \<Rightarrow> bytes" and rd :: "gslice \<Rightarrow> ('a \<times> int) option" and ok :: "'a \<Rightarrow> bool"
  assumes rd_enc: "ok x \<Longrightarrow> rd (enc x @ r, sp) = Some (x, int (length (enc x)))"
begin

lemma read_items_enc:
  assumes "list_all ok xs"
  shows "read_items rd (length xs) (pre @ concat (map enc xs) @ post, sp) (int (length pre)) =
    Some (xs, int (length (pre @ concat (map enc xs))))"
  using assms
proof (induction xs arbitrary: pre)
  case Nil
  then show ?case by simp
next
  case (Cons x xs)
  have "read_items rd (length xs) ((pre @ enc x) @ concat (map enc xs) @ post, sp)
      (int (length (pre @ enc x))) = Some (xs, int (length ((pre @ enc x) @ concat (map enc xs))))"
    using Cons.prems by (intro Cons.IH) simp
  moreover have "rd (enc x @ concat (map enc xs) @ post, sp) = Some (x, int (length (enc x)))"
    using Cons.prems rd_enc by simp
  ultimately show ?case by simp
qed

lemma enc_inj: "ok x \<Longrightarrow> ok y \<Longrightarrow> enc x @ r = enc y @ t \<Longrightarrow> x = y \<and> r = t"
  using rd_enc [of x r "[]"] rd_enc [of y t "[]"] by auto

end

text \<open>A row value is NULL, the byte \<open>0xfb\<close>, or a length-encoded string.\<close>

definition enc_value :: "bytes option \<Rightarrow> bytes" where
  "enc_value v = (case v of None \<Rightarrow> [0xfb] | Some s \<Rightarrow> les s)"

definition rd_value :: "gslice \<Rightarrow> (bytes option \<times> int) option" where
  "rd_value b =
     (case readLengthEncodedString b of
        Some (s, isNull, n, None) \<Rightarrow> Some (if isNull then None else Some s, n)
      | _ \<Rightarrow> None)"

definition value_ok :: "bytes option \<Rightarrow> bool" where
  "value_ok v \<longleftrightarrow> (case v of None \<Rightarrow> True | Some s \<Rightarrow> length s < 2 ^ 62)"

definition rd_int :: "gslice \<Rightarrow> (u64 \<times> int) option" where
  "rd_int b =
     (case readLengthEncodedInteger (fst b) of
        Some (v, False, n) \<Rightarrow> Some (v, n)
      | _ \<Rightarrow> None)"

interpretation lei_codec: codec lei rd_int "\<lambda>_. True"
  by unfold_locales (simp add: rd_int_def readLEI_lei)

lemma readLES_null: "readLengthEncodedString (0xfb # r, sp) = Some ([], True, 1, None)"
  by (simp add: readLengthEncodedString_def readLEI_null slice_def)

interpretation value_codec: codec enc_value rd_value value_ok
  by unfold_locales
     (auto simp: rd_value_def enc_value_def value_ok_def readLES_les readLES_null split: option.splits)

section \<open>Properties\<close>

text \<open>
  A number appended in length-encoded form is read back, followed by anything, as the
  same number, not NULL, and with the number of bytes that were appended.
\<close>

theorem length_encoded_integer_roundtrip:
  "readLengthEncodedInteger (appendLengthEncodedInteger [] n @ r) =
     Some (n, False, int (length (appendLengthEncodedInteger [] n)))"
  using readLEI_lei [of n r] by (simp add: lei_def)

text \<open>
  A text row, NULLs included, is recovered value by value from the concatenation of its
  length-encoded values, whatever precedes and follows it in the packet, and the read
  position ends exactly behind it.
\<close>

theorem row_values_roundtrip:
  assumes "list_all value_ok vs"
  shows "read_items rd_value (length vs) (pre @ concat (map enc_value vs) @ post, sp)
      (int (length pre)) = Some (vs, int (length (pre @ concat (map enc_value vs))))"
  using assms by (rule value_codec.read_items_enc)

theorem row_values_roundtrip_witness:
  "read_items rd_value 3 ([7] @ ([2, 65, 66] @ [0xfb] @ [0]) @ [9], []) 1 =
     Some ([Some [65, 66], None, Some []], 6)"
proof -
  have "list_all value_ok [Some [65, 66], None, Some []]"
    by (simp add: value_ok_def)
  from row_values_roundtrip [OF this, of "[7]" "[9]" "[]"] show ?thesis
    by (simp add: enc_value_def les_def lei_def appendLengthEncodedInteger_def byte_at_def
        numeral_3_eq_3 del: read_items.simps bind_eq_Some_iff)
qed

text \<open>
  A string whose eight-byte length is \<open>2^63 - 9\<close> or more, which a server is free to send,
  makes \<open>readLengthEncodedString\<close> panic; every smaller length is handled.
\<close>

theorem readLengthEncodedString_panics_iff:
  "readLengthEncodedString (0xfe # putle 8 (v :: u64) @ r, sp) = None \<longleftrightarrow> 2 ^ 63 - 9 \<le> v"
  by (rule readLES_big)

text \<open>
  \<open>uint64ToString\<close> never writes outside its 20 byte array and gives the decimal digits of
  the number; \<open>stringToInt\<close> reads them back for every value of an \<open>int\<close>.
\<close>

theorem decimal_roundtrip:
  "uint64ToString n = Some (digits_of (unat n)) \<and>
   stringToInt (digits_of (m mod 2 ^ 63)) = int (m mod 2 ^ 63)"
  using stringToInt_digits [of "m mod 2 ^ 63"] by (simp add: uint64ToString_digits)

end
