(* ===== verification/DateTime.thy ===== *)
theory DateTime
  imports Wire
begin

text \<open>
  Dates and times (\<open>mysql/utils.go\<close>): the text and the binary representation of the protocol,
  read and written.  A time is the list of arguments of \<open>time.Date\<close>, before Go normalises it.
\<close>

datatype gotime = GoTime (tyear: int) (tmonth: int) (tday: int) (thour: int) (tmin: int) (tsec: int) (tnsec: int)

definition zeroTime :: gotime where "zeroTime = GoTime 1 1 1 0 0 0 0"

section \<open>Reading text\<close>

definition bToi :: "byte \<Rightarrow> error + int" where
  "bToi b = (if b < 0x30 \<or> 0x39 < b then Inl (FmtError ''not [0-9]'') else Inr (int (unat (b - 0x30))))"

fun year_loop :: "bytes \<Rightarrow> int \<Rightarrow> int \<Rightarrow> error + int" where
  "year_loop [] year n = Inr year"
| "year_loop (b # bs) year n = onOk (bToi b) (\<lambda>v. year_loop bs (year + v * n) (n div 10))"

definition parseByteYear :: "bytes \<Rightarrow> error + int" where
  "parseByteYear b = year_loop (take 4 b) 0 1000"

definition parseByte2Digits :: "byte \<Rightarrow> byte \<Rightarrow> error + int" where
  "parseByte2Digits b1 b2 = onOk (bToi b1) (\<lambda>d1. onOk (bToi b2) (\<lambda>d2. Inr (d1 * 10 + d2)))"

fun nano_loop :: "bytes \<Rightarrow> int \<Rightarrow> int \<Rightarrow> error + int" where
  "nano_loop [] ns digit = Inr (ns * 1000)"
| "nano_loop (b # bs) ns digit = onOk (bToi b) (\<lambda>v. nano_loop bs (ns + v * digit) (digit div 10))"

definition parseByteNanoSec :: "bytes \<Rightarrow> error + int" where
  "parseByteNanoSec b = nano_loop b 0 100000"

definition zeroDateTime :: bytes where "zeroDateTime = str ''0000-00-00 00:00:00.000000''"

definition badField :: error where "badField = FmtError ''bad value for field''"

text \<open>\<open>if b[i] != c { return bad value }\<close>.\<close>

definition expect :: "bytes \<Rightarrow> nat \<Rightarrow> byte \<Rightarrow> (unit \<Rightarrow> error + 'a) \<Rightarrow> error + 'a" where
  "expect b i c f = (if b ! i \<noteq> c then Inl badField else f ())"

text \<open>Every index is below the length the first test has checked.\<close>

definition parseDateTime :: "bytes \<Rightarrow> error + gotime" where
  "parseDateTime b =
     (if length b \<in> {10, 19, 21, 22, 23, 24, 25, 26} then
        if b = take (length b) zeroDateTime then Inr zeroTime
        else onOk (parseByteYear b) (\<lambda>year.
          expect b 4 0x2d (\<lambda>_.
          onOk (parseByte2Digits (b ! 5) (b ! 6)) (\<lambda>month.
          expect b 7 0x2d (\<lambda>_.
          onOk (parseByte2Digits (b ! 8) (b ! 9)) (\<lambda>day.
          if length b = 10 then Inr (GoTime year month day 0 0 0 0)
          else expect b 10 0x20 (\<lambda>_.
            onOk (parseByte2Digits (b ! 11) (b ! 12)) (\<lambda>hour.
            expect b 13 0x3a (\<lambda>_.
            onOk (parseByte2Digits (b ! 14) (b ! 15)) (\<lambda>min.
            expect b 16 0x3a (\<lambda>_.
            onOk (parseByte2Digits (b ! 17) (b ! 18)) (\<lambda>sec.
            if length b = 19 then Inr (GoTime year month day hour min sec 0)
            else expect b 19 0x2e (\<lambda>_.
              onOk (parseByteNanoSec (drop 20 b)) (\<lambda>nsec.
              Inr (GoTime year month day hour min sec nsec))))))))))))))
      else Inl (FmtError ''invalid time bytes''))"

section \<open>Writing text\<close>

text \<open>The tables \<open>digits01\<close> and \<open>digits10\<close>: 100 digits each; an index past them panics.\<close>

definition digits01 :: "int \<Rightarrow> byte option" where
  "digits01 i = (if 0 \<le> i \<and> i < 100 then Some (of_int (48 + i mod 10)) else None)"

definition digits10 :: "int \<Rightarrow> byte option" where
  "digits10 i = (if 0 \<le> i \<and> i < 100 then Some (of_int (48 + i div 10)) else None)"

definition two :: "int \<Rightarrow> bytes option" where
  "two i = do { a \<leftarrow> digits10 i; b \<leftarrow> digits01 i; Some [a, b] }"

definition trim_zeros :: "bytes \<Rightarrow> bytes" where
  "trim_zeros b = rev (dropWhile (\<lambda>c. c = 0x30) (rev b))"

definition appendDateTime :: "bytes \<Rightarrow> gotime \<Rightarrow> (error + bytes) option" where
  "appendDateTime buf t =
     (if tyear t < 1 \<or> 9999 < tyear t then Some (Inl (FmtError ''year is not in the range [1, 9999]''))
      else do {
        c \<leftarrow> two (tyear t div 100); y \<leftarrow> two (tyear t mod 100);
        m \<leftarrow> two (tmonth t); d \<leftarrow> two (tday t);
        let date = c @ y @ [0x2d] @ m @ [0x2d] @ d;
        if thour t = 0 \<and> tmin t = 0 \<and> tsec t = 0 \<and> tnsec t = 0 then Some (Inr (buf @ date))
        else do {
          h \<leftarrow> two (thour t); mi \<leftarrow> two (tmin t); s \<leftarrow> two (tsec t);
          let clock = date @ [0x20] @ h @ [0x3a] @ mi @ [0x3a] @ s;
          if tnsec t = 0 then Some (Inr (buf @ clock))
          else do {
            a \<leftarrow> digits01 (tnsec t div 100000000);
            b \<leftarrow> two (tnsec t div 1000000 mod 100);
            c \<leftarrow> two (tnsec t div 10000 mod 100);
            d \<leftarrow> two (tnsec t div 100 mod 100);
            e \<leftarrow> two (tnsec t mod 100);
            Some (Inr (buf @ trim_zeros (clock @ [0x2e, a] @ b @ c @ d @ e))) } } })"

section \<open>The binary representation\<close>

definition u16_at :: "gslice \<Rightarrow> int \<Rightarrow> int option" where
  "u16_at b i = do { s \<leftarrow> slice b i (i + 2); Some (uint (getle (fst s) :: u16)) }"

definition u32_at :: "gslice \<Rightarrow> int \<Rightarrow> int option" where
  "u32_at b i = do { s \<leftarrow> slice b i (i + 4); Some (uint (getle (fst s) :: u32)) }"

definition byte_int :: "gslice \<Rightarrow> int \<Rightarrow> int option" where
  "byte_int b i = do { x \<leftarrow> idx (fst b) i; Some (uint x) }"

definition parseBinaryDateTime :: "u64 \<Rightarrow> gslice \<Rightarrow> (error + gotime) option" where
  "parseBinaryDateTime num data =
     (if num = 0 then Some (Inr zeroTime)
      else if num = 4 then do {
        y \<leftarrow> u16_at data 0; m \<leftarrow> byte_int data 2; d \<leftarrow> byte_int data 3;
        Some (Inr (GoTime y m d 0 0 0 0)) }
      else if num = 7 then do {
        y \<leftarrow> u16_at data 0; m \<leftarrow> byte_int data 2; d \<leftarrow> byte_int data 3;
        h \<leftarrow> byte_int data 4; mi \<leftarrow> byte_int data 5; s \<leftarrow> byte_int data 6;
        Some (Inr (GoTime y m d h mi s 0)) }
      else if num = 11 then do {
        y \<leftarrow> u16_at data 0; m \<leftarrow> byte_int data 2; d \<leftarrow> byte_int data 3;
        h \<leftarrow> byte_int data 4; mi \<leftarrow> byte_int data 5; s \<leftarrow> byte_int data 6;
        us \<leftarrow> u32_at data 7;
        Some (Inr (GoTime y m d h mi s (us * 1000))) }
      else Some (Inl (FmtError ''invalid DATETIME packet length'')))"

text \<open>The arithmetic is that of \<open>uint32\<close> and \<open>byte\<close>.\<close>

definition appendMicrosecs :: "bytes \<Rightarrow> bytes \<Rightarrow> int \<Rightarrow> bytes option" where
  "appendMicrosecs dst src decimals =
     (if decimals \<le> 0 then Some dst
      else if src = [] then do {
        z \<leftarrow> substr (str ''.000000'') 0 (decimals + 1);
        Some (dst @ z) }
      else do {
        us \<leftarrow> u32_at (src, []) 0;
        let p1 = us div 10000 mod 256;
        let us1 = (us - 10000 * p1) mod 2 ^ 32;
        let p2 = us1 div 100 mod 256;
        let us2 = (us1 - 100 * p2) mod 2 ^ 32;
        let p3 = us2 mod 256;
        if decimals = 1 then do { a \<leftarrow> digits10 p1; Some (dst @ [0x2e, a]) }
        else if decimals = 2 then do { a \<leftarrow> two p1; Some (dst @ [0x2e] @ a) }
        else if decimals = 3 then do { a \<leftarrow> two p1; b \<leftarrow> digits10 p2; Some (dst @ [0x2e] @ a @ [b]) }
        else if decimals = 4 then do { a \<leftarrow> two p1; b \<leftarrow> two p2; Some (dst @ [0x2e] @ a @ b) }
        else if decimals = 5 then do {
          a \<leftarrow> two p1; b \<leftarrow> two p2; c \<leftarrow> digits10 p3; Some (dst @ [0x2e] @ a @ b @ [c]) }
        else do { a \<leftarrow> two p1; b \<leftarrow> two p2; c \<leftarrow> two p3; Some (dst @ [0x2e] @ a @ b @ c) } })"

definition formatBinaryDateTime :: "bytes \<Rightarrow> byte \<Rightarrow> (error + bytes) option" where
  "formatBinaryDateTime src len =
     (let L = int (unat len)
      in if src = [] then map_option Inr (substr zeroDateTime 0 L)
         else if L \<notin> {10, 19, 21, 22, 23, 24, 25, 26} then Some (Inl (FmtError ''illegal length''))
         else if length src \<notin> {4, 7, 11} then Some (Inl (FmtError ''illegal packet length''))
         else do {
           year \<leftarrow> u16_at (src, []) 0;
           let pt = year div 100;
           let p1 = (year - 100 * pt) mod 256;
           c \<leftarrow> two pt; y \<leftarrow> two p1;
           m \<leftarrow> two (uint (src ! 2)); d \<leftarrow> two (uint (src ! 3));
           let date = c @ y @ [0x2d] @ m @ [0x2d] @ d;
           if L = 10 then Some (Inr date)
           else if length src = 4 then do { z \<leftarrow> substr zeroDateTime 10 L; Some (Inr (date @ z)) }
           else do {
             h \<leftarrow> two (uint (src ! 4)); mi \<leftarrow> two (uint (src ! 5)); s \<leftarrow> two (uint (src ! 6));
             r \<leftarrow> appendMicrosecs (date @ [0x20] @ h @ [0x3a] @ mi @ [0x3a] @ s) (drop 7 src) (L - 20);
             Some (Inr r) } })"

definition formatBinaryTime :: "bytes \<Rightarrow> byte \<Rightarrow> (error + bytes) option" where
  "formatBinaryTime src len =
     (let L = int (unat len)
      in if src = [] then map_option Inr (substr zeroDateTime 11 (11 + L))
         else if L \<notin> {8, 10, 11, 12, 13, 14, 15} then Some (Inl (FmtError ''illegal TIME length''))
         else if length src \<notin> {8, 12} then Some (Inl (FmtError ''invalid TIME packet length''))
         else do {
           let sign = (if src ! 0 = 1 then [0x2d] else []);
           days \<leftarrow> u32_at (src, []) 1;
           let hours = days * 24 + uint (src ! 5);
           hh \<leftarrow> (if 100 \<le> hours then Some (itoa hours) else two hours);
           mi \<leftarrow> two (uint (src ! 6)); s \<leftarrow> two (uint (src ! 7));
           r \<leftarrow> appendMicrosecs (sign @ hh @ [0x3a] @ mi @ [0x3a] @ s) (drop 8 src) (L - 9);
           Some (Inr r) })"

section \<open>Lemmas on digits\<close>

lemma bToi_digit:
  assumes "0 \<le> d" and "d < 10"
  shows "bToi (48 + of_int d) = Inr d"
proof -
  have "d = 0 \<or> d = 1 \<or> d = 2 \<or> d = 3 \<or> d = 4 \<or> d = 5 \<or> d = 6 \<or> d = 7 \<or> d = 8 \<or> d = 9"
    using assms by presburger
  then show ?thesis by (elim disjE) (simp_all add: bToi_def)
qed

lemma nano_zeros: "nano_loop (replicate k 0x30) ns w = Inr (ns * 1000)"
  by (induction k arbitrary: w) (auto simp: bToi_def)

lemma nano_loop_append_zeros: "nano_loop (xs @ replicate k 0x30) ns w = nano_loop xs ns w"
proof (induction xs arbitrary: ns w)
  case (Cons x xs)
  then show ?case by (cases "bToi x") auto
qed (simp add: nano_zeros)

lemma trim_zeros_ex: "\<exists>k. xs = trim_zeros xs @ replicate k 0x30 \<and> (trim_zeros xs = [] \<or> last (trim_zeros xs) \<noteq> 0x30)"
proof -
  define k where "k = length (takeWhile (\<lambda>c. c = 0x30) (rev xs))"
  have "takeWhile (\<lambda>c. c = 0x30) (rev xs) = replicate k 0x30"
    unfolding k_def by (metis (mono_tags, lifting) replicate_length_same set_takeWhileD)
  then have "rev xs = replicate k 0x30 @ dropWhile (\<lambda>c. c = 0x30) (rev xs)"
    by (metis takeWhile_dropWhile_id)
  then have "xs = trim_zeros xs @ replicate k 0x30"
    unfolding trim_zeros_def by (metis rev_append rev_replicate rev_rev_ident)
  moreover have "trim_zeros xs = [] \<or> last (trim_zeros xs) \<noteq> 0x30"
    unfolding trim_zeros_def using hd_dropWhile [of "\<lambda>c. c = 0x30" "rev xs"] by (auto simp: last_rev)
  ultimately show ?thesis by blast
qed

definition dig :: "int \<Rightarrow> byte" where "dig d = 48 + of_int d"

definition digit :: "int \<Rightarrow> bool" where "digit d \<longleftrightarrow> 0 \<le> d \<and> d < 10"

lemma bToi_dig: "digit d \<Longrightarrow> bToi (dig d) = Inr d"
  by (simp add: digit_def dig_def bToi_digit)

lemma year_digits: "digit a \<Longrightarrow> digit b \<Longrightarrow> digit c \<Longrightarrow> digit d \<Longrightarrow>
  year_loop [dig a, dig b, dig c, dig d] 0 1000 = Inr (a * 1000 + b * 100 + c * 10 + d)"
  by (simp add: bToi_dig)

lemma nano_dig: "digit d \<Longrightarrow> nano_loop (dig d # ds) ns w = nano_loop ds (ns + d * w) (w div 10)"
  by (simp add: bToi_dig)

lemma nano_digits: "digit a \<Longrightarrow> digit b \<Longrightarrow> digit c \<Longrightarrow> digit d \<Longrightarrow> digit e \<Longrightarrow> digit f \<Longrightarrow>
  nano_loop [dig a, dig b, dig c, dig d, dig e, dig f] 0 100000 =
    Inr ((a * 100000 + b * 10000 + c * 1000 + d * 100 + e * 10 + f) * 1000)"
  by (simp only: nano_dig nano_loop.simps(1)) simp

lemma digit_div:
  assumes "0 \<le> i" and "i < 10 * k" and "0 < k"
  shows "digit (i div k)"
proof -
  have "i div k * k \<le> i" using div_mult_mod_eq [of i k] pos_mod_sign [OF assms(3), of i] by linarith
  then have "i div k * k < 10 * k" using assms(2) by linarith
  then show ?thesis using assms by (simp add: digit_def pos_imp_zdiv_nonneg_iff)
qed

lemma digit_mod:
  "digit (i mod 10)" "0 \<le> i \<Longrightarrow> i < 100 \<Longrightarrow> digit (i div 10)" "digit (i mod 100 div 10)"
  "0 \<le> i \<Longrightarrow> i < 10000 \<Longrightarrow> digit (i div 100 div 10)" "0 \<le> u \<Longrightarrow> u < 1000000 \<Longrightarrow> digit (u div 100000)"
proof -
  show "digit (i mod 10)" by (simp only: digit_def pos_mod_sign pos_mod_bound zero_less_numeral simp_thms)
  show "0 \<le> i \<Longrightarrow> i < 100 \<Longrightarrow> digit (i div 10)" by (rule digit_div) simp_all
  show "digit (i mod 100 div 10)" by (rule digit_div) simp_all
  have "i div 100 div 10 = i div (100 * 10)" by (rule zdiv_zmult2_eq [symmetric]) simp
  moreover have "0 \<le> i \<Longrightarrow> i < 10000 \<Longrightarrow> digit (i div (100 * 10))" by (rule digit_div) simp_all
  ultimately show "0 \<le> i \<Longrightarrow> i < 10000 \<Longrightarrow> digit (i div 100 div 10)" by (simp only:)
  show "0 \<le> u \<Longrightarrow> u < 1000000 \<Longrightarrow> digit (u div 100000)" by (rule digit_div) simp_all
qed

lemma four_sum:
  fixes y :: int
  assumes "v * 100 + w = y" "a * 10 + b = v" "c * 10 + d = w"
  shows "a * 1000 + b * 100 + c * 10 + d = y"
  using assms by simp

lemma year_parse:
  assumes "0 \<le> y" and "y < 10000"
  shows "year_loop [dig (y div 100 div 10), dig (y div 100 mod 10), dig (y mod 100 div 10), dig (y mod 100 mod 10)] 0 1000 = Inr y"
proof -
  have "y div 100 div 10 * 1000 + (y div 100 mod 10) * 100 + (y mod 100 div 10) * 10 + y mod 100 mod 10 = y"
    by (rule four_sum [of "y div 100" "y mod 100"]) (simp_all only: div_mult_mod_eq)
  then show ?thesis
    by (rule subst) (rule year_digits [OF digit_mod(4) [OF assms] digit_mod(1,3,1)])
qed

text \<open>Microseconds: six digits, then zeros.\<close>

lemma six_sum:
  fixes u :: int
  assumes "v * 10 + f = u" "w * 100 + p = v" "a * 100 + q = w" "b * 10 + c = q" "d * 10 + e = p"
  shows "a * 100000 + b * 10000 + c * 1000 + d * 100 + e * 10 + f = u"
  using assms by simp

lemma nano_parse:
  assumes "0 \<le> u" and "u < 1000000"
  shows "nano_loop [dig (u div 100000), dig (u div 1000 mod 100 div 10), dig (u div 1000 mod 100 mod 10),
     dig (u div 10 mod 100 div 10), dig (u div 10 mod 100 mod 10), dig (u mod 10)] 0 100000 = Inr (u * 1000)"
proof -
  have q: "u div 1000 = u div 10 div 100" "u div 100000 = u div 1000 div 100"
    by (simp_all only: zdiv_zmult2_eq [symmetric]) simp_all
  have "u div 100000 * 100000 + (u div 1000 mod 100 div 10) * 10000 + (u div 1000 mod 100 mod 10) * 1000 +
     (u div 10 mod 100 div 10) * 100 + (u div 10 mod 100 mod 10) * 10 + u mod 10 = u"
    by (rule six_sum [of "u div 10" _ _ "u div 1000" "u div 10 mod 100" _ "u div 1000 mod 100"])
      (simp_all only: q div_mult_mod_eq)
  then show ?thesis
    by (rule subst) (rule nano_digits [OF digit_mod(5) [OF assms] digit_mod(3,1,3,1,1)])
qed

definition pair :: "int \<Rightarrow> bytes" where "pair i = [dig (i div 10), dig (i mod 10)]"

lemma two_pair: "0 \<le> i \<Longrightarrow> i < 100 \<Longrightarrow> two i = Some (pair i)"
  by (simp add: two_def digits01_def digits10_def pair_def dig_def)

lemma parse_pair: "0 \<le> i \<Longrightarrow> i < 100 \<Longrightarrow> parseByte2Digits (dig (i div 10)) (dig (i mod 10)) = Inr i"
  by (simp add: parseByte2Digits_def bToi_dig digit_mod)

definition two_digits :: "int \<Rightarrow> bool" where "two_digits i \<longleftrightarrow> 0 \<le> i \<and> i < 100"

fun writable_time :: "gotime \<Rightarrow> bool" where
  "writable_time (GoTime y mo d h mi s ns) \<longleftrightarrow>
     1 \<le> y \<and> y \<le> 9999 \<and> two_digits mo \<and> two_digits d \<and> two_digits h \<and> two_digits mi \<and> two_digits s \<and>
     0 \<le> ns \<and> ns < 1000000000"

definition date_text :: "int \<Rightarrow> int \<Rightarrow> int \<Rightarrow> bytes" where
  "date_text y mo d = pair (y div 100) @ pair (y mod 100) @ [0x2d] @ pair mo @ [0x2d] @ pair d"

definition clock_text :: "int \<Rightarrow> int \<Rightarrow> int \<Rightarrow> bytes" where
  "clock_text h mi s = [0x20] @ pair h @ [0x3a] @ pair mi @ [0x3a] @ pair s"

definition six :: "int \<Rightarrow> bytes" where
  "six u = [dig (u div 100000), dig (u div 1000 mod 100 div 10), dig (u div 1000 mod 100 mod 10),
     dig (u div 10 mod 100 div 10), dig (u div 10 mod 100 mod 10), dig (u mod 10)]"

lemma length_texts [simp]: "length (pair i) = 2" "length (date_text y mo d) = 10" "length (clock_text h mi s) = 9"
  "length (six u) = 6"
  by (simp_all add: pair_def date_text_def clock_text_def six_def)

lemma append_text:
  assumes "writable_time (GoTime y mo d h mi s (u * 1000))"
  shows "appendDateTime buf (GoTime y mo d h mi s (u * 1000)) = Some (Inr (buf @
    (if h = 0 \<and> mi = 0 \<and> s = 0 \<and> u = 0 then date_text y mo d
     else if u = 0 then date_text y mo d @ clock_text h mi s
     else trim_zeros (date_text y mo d @ clock_text h mi s @ [0x2e] @ six u @ replicate 3 0x30))))"
proof -
  have u: "0 \<le> u" "u < 1000000" using assms by auto
  have c: "0 \<le> y div 100" "y div 100 < 100" "0 \<le> y mod 100" "y mod 100 < 100"
    using assms by auto
  have a: "u * 1000 div 100000000 = u div 100000" "u * 1000 div 1000000 = u div 1000"
    "u * 1000 div 10000 = u div 10" "u * 1000 div 100 mod 100 = (u mod 10) * 10" "u * 1000 mod 100 = 0"
    using div_mult_mult2 [of 1000 u 100000] div_mult_mult2 [of 1000 u 1000] div_mult_mult2 [of 1000 u 10]
      div_mult_mult2 [of 100 "u * 10" 1] mult_mod_left [of u 10 10]
    by (simp_all add: mod_eq_0_iff_dvd mult.commute)
  have f: "digits01 (u div 100000) = Some (dig (u div 100000))"
    using u digit_mod(5) [OF u] by (simp add: digits01_def digit_def dig_def)
  have z: "(0x30 :: byte) = dig 0" by (simp add: dig_def)
  have p: "pair (u mod 10 * 10) = [dig (u mod 10), 0x30]" "pair 0 = [0x30, 0x30]"
    by (simp_all add: pair_def dig_def)
  have t: "0 \<le> u mod 10 * 10" "u mod 10 * 10 < 100" using pos_mod_sign [of 10 u] pos_mod_bound [of 10 u] by linarith+
  have m: "0 \<le> i mod 100" "i mod 100 < (100::int)" for i by simp_all
  have nine: "[0x2e, dig (u div 100000)] @ pair (u div 1000 mod 100) @ pair (u div 10 mod 100) @
      pair (u mod 10 * 10) @ pair 0 = [0x2e] @ six u @ replicate 3 0x30"
    by (simp only: p) (simp add: six_def pair_def numeral_3_eq_3)
  have tw: "two (y div 100) = Some (pair (y div 100))" "two (y mod 100) = Some (pair (y mod 100))"
    "two mo = Some (pair mo)" "two d = Some (pair d)" "two h = Some (pair h)" "two mi = Some (pair mi)"
    "two s = Some (pair s)" "two (u div 1000 mod 100) = Some (pair (u div 1000 mod 100))"
    "two (u div 10 mod 100) = Some (pair (u div 10 mod 100))"
    "two (u mod 10 * 10) = Some (pair (u mod 10 * 10))" "two 0 = Some (pair 0)"
    using assms c t m by (auto intro!: two_pair simp: two_digits_def)
  have y: "(y < 1 \<or> 9999 < y) = False" and n0: "(u * 1000 = 0) = (u = 0)" using assms by auto
  have nine': "x @ [0x2e, dig (u div 100000)] @ pair (u div 1000 mod 100) @ pair (u div 10 mod 100) @
      pair (u mod 10 * 10) @ pair 0 = x @ [0x2e] @ six u @ replicate 3 0x30" for x
    using nine by simp
  show ?thesis
    unfolding appendDateTime_def gotime.sel a y n0
    by (simp only: tw f Some_bind Let_def if_False if_True nine' append_assoc date_text_def clock_text_def
        split: if_split) simp
qed

text \<open>Reading the texts back.\<close>

lemma year_text: "1 \<le> y \<Longrightarrow> y \<le> 9999 \<Longrightarrow> parseByteYear (date_text y mo d @ r) = Inr y"
  using year_parse [of y] by (simp add: parseByteYear_def date_text_def pair_def)

lemma text_not_zero: "1 \<le> y \<Longrightarrow> y \<le> 9999 \<Longrightarrow> date_text y mo d @ r \<noteq> take n zeroDateTime"
proof
  assume y: "1 \<le> y" "y \<le> 9999" and eq: "date_text y mo d @ r = take n zeroDateTime"
  have "10 \<le> length (take n zeroDateTime)" by (simp flip: eq)
  then have "4 \<le> n" by simp
  then have "take 4 (take n zeroDateTime) = [0x30, 0x30, 0x30, 0x30]"
    by (simp add: zeroDateTime_def str_def min_def)
  then have "parseByteYear (take n zeroDateTime) = Inr 0"
    by (simp add: parseByteYear_def bToi_def)
  with year_text [OF y, of mo d r] eq y show False by simp
qed

lemma parse_date:
  assumes "1 \<le> y" "y \<le> 9999" "two_digits mo" "two_digits d"
  shows "parseDateTime (date_text y mo d) = Inr (GoTime y mo d 0 0 0 0)"
  using year_text [OF assms(1,2), of mo d "[]"] text_not_zero [OF assms(1,2), of mo d "[]" 10] assms(3,4)
  by (simp add: parseDateTime_def expect_def two_digits_def)
    (simp add: date_text_def pair_def parse_pair)

lemma parse_clock:
  assumes "1 \<le> y" "y \<le> 9999" "two_digits mo" "two_digits d" "two_digits h" "two_digits mi" "two_digits s"
  shows "parseDateTime (date_text y mo d @ clock_text h mi s) = Inr (GoTime y mo d h mi s 0)"
  using year_text [OF assms(1,2), of mo d] text_not_zero [OF assms(1,2), of mo d _ 19] assms(3-)
  by (simp add: parseDateTime_def expect_def two_digits_def)
    (simp add: date_text_def clock_text_def pair_def parse_pair)

lemma parse_fraction:
  assumes "1 \<le> y" "y \<le> 9999" "two_digits mo" "two_digits d" "two_digits h" "two_digits mi" "two_digits s"
    and "1 \<le> length f" "length f \<le> 6" and "nano_loop f 0 100000 = Inr ns"
  shows "parseDateTime (date_text y mo d @ clock_text h mi s @ [0x2e] @ f) = Inr (GoTime y mo d h mi s ns)"
proof -
  let ?b = "date_text y mo d @ clock_text h mi s @ [0x2e] @ f"
  have len: "length ?b \<in> {10, 19, 21, 22, 23, 24, 25, 26}" "length ?b \<noteq> 10" "length ?b \<noteq> 19"
    using assms(8,9) by auto
  have nz: "?b \<noteq> take (length ?b) zeroDateTime" and yr: "parseByteYear ?b = Inr y"
    by (rule text_not_zero [OF assms(1,2)], rule year_text [OF assms(1,2)])
  have at: "?b ! 4 = 0x2d" "?b ! 7 = 0x2d" "?b ! 10 = 0x20" "?b ! 13 = 0x3a" "?b ! 16 = 0x3a" "?b ! 19 = 0x2e"
    "drop 20 ?b = f" "?b ! 5 = dig (mo div 10)" "?b ! 6 = dig (mo mod 10)" "?b ! 8 = dig (d div 10)"
    "?b ! 9 = dig (d mod 10)" "?b ! 11 = dig (h div 10)" "?b ! 12 = dig (h mod 10)"
    "?b ! 14 = dig (mi div 10)" "?b ! 15 = dig (mi mod 10)" "?b ! 17 = dig (s div 10)" "?b ! 18 = dig (s mod 10)"
    by (simp_all add: date_text_def clock_text_def pair_def)
  show ?thesis
    unfolding parseDateTime_def expect_def at yr
    using len nz assms(3-7,10) by (simp add: parse_pair two_digits_def parseByteNanoSec_def del: append.simps)
qed

text \<open>The fraction after trimming: at most six digits, with the same value.\<close>

lemma trim_zeros_replicate: "trim_zeros (xs @ replicate k 0x30) = trim_zeros xs"
proof -
  have "dropWhile (\<lambda>c. c = 0x30) (replicate k (0x30 :: byte) @ ys) = dropWhile (\<lambda>c. c = 0x30) ys" for ys
    by (induction k) auto
  then show ?thesis by (simp add: trim_zeros_def)
qed

lemma trim_zeros_append: "c \<in> set ys \<Longrightarrow> c \<noteq> 0x30 \<Longrightarrow> trim_zeros (xs @ ys) = xs @ trim_zeros ys"
  by (simp add: trim_zeros_def dropWhile_append1 [of c])

lemma trimmed_fraction:
  assumes "0 \<le> u" and "u < 1000000" and "u \<noteq> 0"
  obtains f where "\<And>pre. trim_zeros (pre @ six u @ replicate 3 0x30) = pre @ f" "1 \<le> length f" "length f \<le> 6"
    "nano_loop f 0 100000 = Inr (u * 1000)"
proof -
  have val: "nano_loop (six u) 0 100000 = Inr (u * 1000)"
    unfolding six_def by (rule nano_parse [OF assms(1,2)])
  obtain k where k: "six u = trim_zeros (six u) @ replicate k 0x30" using trim_zeros_ex by blast
  have v: "nano_loop (trim_zeros (six u)) 0 100000 = Inr (u * 1000)"
    using val k nano_loop_append_zeros by metis
  have "\<exists>c \<in> set (six u). c \<noteq> 0x30"
  proof (rule ccontr)
    assume "\<not> ?thesis"
    then have "six u = replicate 6 0x30"
      using replicate_length_same [of "six u" "0x30"] by auto
    then show False using val nano_zeros [of 6 0 100000] assms(3) by simp
  qed
  then obtain c where c: "c \<in> set (six u)" "c \<noteq> 0x30" by blast
  have "trim_zeros (pre @ six u @ replicate 3 0x30) = pre @ trim_zeros (six u)" for pre
    using trim_zeros_replicate [of "pre @ six u" 3] trim_zeros_append [OF c] by simp
  moreover have "length (trim_zeros (six u)) \<le> 6"
    using arg_cong [OF k, of length] by simp
  moreover have "1 \<le> length (trim_zeros (six u))"
    using v assms(3) by (cases "trim_zeros (six u)") auto
  ultimately show thesis using v that by blast
qed

section \<open>Properties\<close>

text \<open>Text dates and times round-trip: what \<open>appendDateTime\<close> writes for a time with whole
  microseconds, trailing zeros of the fraction trimmed, \<open>parseDateTime\<close> reads back as the
  same time.\<close>

theorem datetime_roundtrip:
  assumes "writable_time (GoTime y mo d h mi s (u * 1000))"
  shows "\<exists>b. appendDateTime [] (GoTime y mo d h mi s (u * 1000)) = Some (Inr b) \<and>
    parseDateTime b = Inr (GoTime y mo d h mi s (u * 1000))"
proof -
  have v: "1 \<le> y" "y \<le> 9999" "two_digits mo" "two_digits d" "two_digits h" "two_digits mi" "two_digits s"
    and u: "0 \<le> u" "u < 1000000" using assms by auto
  consider "h = 0 \<and> mi = 0 \<and> s = 0 \<and> u = 0" | "\<not> (h = 0 \<and> mi = 0 \<and> s = 0)" "u = 0" | "u \<noteq> 0" by blast
  then show ?thesis
  proof cases
    case 1
    then show ?thesis using append_text [OF assms, of "[]"] parse_date [OF v(1-4)] by simp
  next
    case 2
    then show ?thesis using append_text [OF assms, of "[]"] parse_clock [OF v] by auto
  next
    case 3
    obtain f where f: "\<And>pre. trim_zeros (pre @ six u @ replicate 3 0x30) = pre @ f" "1 \<le> length f"
      "length f \<le> 6" "nano_loop f 0 100000 = Inr (u * 1000)"
      using trimmed_fraction [OF u 3] by metis
    have "trim_zeros (date_text y mo d @ clock_text h mi s @ [0x2e] @ six u @ replicate 3 0x30) =
        date_text y mo d @ clock_text h mi s @ [0x2e] @ f"
      using f(1) [of "date_text y mo d @ clock_text h mi s @ [0x2e]"] by simp
    then show ?thesis
      using 3 append_text [OF assms, of "[]"] parse_fraction [OF v f(2-4)] by simp
  qed
qed

theorem datetime_roundtrip_witness:
  "\<exists>b. appendDateTime [] (GoTime 2024 2 29 23 59 58 (120500 * 1000)) = Some (Inr b) \<and>
     parseDateTime b = Inr (GoTime 2024 2 29 23 59 58 (120500 * 1000))"
  by (rule datetime_roundtrip) (simp add: two_digits_def)

lemma two_None_iff: "two i = None \<longleftrightarrow> i < 0 \<or> 100 \<le> i"
  by (auto simp: two_def digits01_def digits10_def)

text \<open>The digit tables have 100 entries and the bytes of a binary date are not checked
  against them: \<open>formatBinaryDateTime\<close> panics exactly when the server sends a year after 9999,
  or a month or a day of 100 or more.\<close>

theorem formatBinaryDate_panics_iff:
  "formatBinaryDateTime [y0, y1, mo, d] 10 = None \<longleftrightarrow>
     10000 \<le> uint (getle [y0, y1] :: u16) \<or> 100 \<le> uint mo \<or> 100 \<le> uint d"
proof -
  define y where "y = uint (getle [y0, y1] :: u16)"
  have y: "u16_at ([y0, y1, mo, d], []) 0 = Some y"
    by (simp add: u16_at_def slice_def y_def)
  have b: "0 \<le> y" unfolding y_def by (rule uint_ge_0)
  then have "0 \<le> y div 100" by simp
  note b = b this
  have p: "0 \<le> y - 100 * (y div 100)" "y - 100 * (y div 100) < 100"
    using div_mult_mod_eq [of y 100] by linarith+
  then have q: "(y - 100 * (y div 100)) mod 256 = y - 100 * (y div 100)" by simp
  have c: "100 \<le> y div 100 \<longleftrightarrow> 10000 \<le> y"
    using p by linarith
  have s: "uint (w :: byte) < 0 \<longleftrightarrow> False" for w by (simp add: uint_ge_0 linorder_not_less)
  show ?thesis
    unfolding y_def [symmetric] formatBinaryDateTime_def Let_def
    using b p two_None_iff [of "y - 100 * (y div 100)"]
    by (auto simp: y q bind_eq_None_conv two_None_iff c s simp del: bind_eq_Some_iff)
qed

end
