(* ===== verification/Buffer.thy ===== *)
theory Buffer
  imports Prelude
begin

text \<open>
  The connection's buffer (\<open>mysql/buffer.go\<close>): a window of unread bytes in one of two backing
  arrays, refilled from the network.  The arrays live in an explicit memory, since slices of
  them are handed out and the double buffering is about which array a refill overwrites.
\<close>

section \<open>The network and the buffer\<close>

text \<open>
  What the peer sends is a script of the results of \<open>Read\<close>: the bytes and the error of each
  call.  A read larger than the room offered is delivered in parts; after the script the
  peer has closed its side.
\<close>

type_synonym read_event = "bytes \<times> error option"

record net =
  script :: "read_event list"
  deadlineErr :: "error option"

definition defaultBufSize :: nat where "defaultBufSize = 4096"
definition maxCachedBufSize :: nat where "maxCachedBufSize = 256 * 1024"
definition maxPacketSize :: nat where "maxPacketSize = 16777215"

text \<open>
  \<open>mem\<close> holds the arrays by address; \<open>cur\<close> is the address of \<open>b.buf\<close>, whose length and
  capacity are equal; \<open>dbuf\<close> gives the two backing arrays (\<open>None\<close> is the nil slice).
\<close>

record buffer =
  mem :: "bytes list"
  cur :: nat
  bidx :: nat
  blen :: nat
  btimeout :: int
  dbuf0 :: "nat option"
  dbuf1 :: "nat option"
  flipcnt :: nat

text \<open>A slice handed out: the array's address, the offset and the length.\<close>

type_synonym sref = "nat \<times> nat \<times> nat"

definition view :: "buffer \<Rightarrow> sref \<Rightarrow> gslice" where
  "view b r = (case r of (a, off, len) \<Rightarrow>
     (take len (drop off (mem b ! a)), drop (off + len) (mem b ! a)))"

section \<open>Operations\<close>

definition newBuffer :: buffer where
  "newBuffer = \<lparr>mem = [replicate defaultBufSize 0], cur = 0, bidx = 0, blen = 0, btimeout = 0,
     dbuf0 = Some 0, dbuf1 = None, flipcnt = 0\<rparr>"

definition flip :: "buffer \<Rightarrow> buffer" where
  "flip b = b\<lparr>flipcnt := flipcnt b + 1\<rparr>"

text \<open>\<open>b.dbuf[b.flipcnt&1]\<close>, read and written.\<close>

definition slot :: "buffer \<Rightarrow> nat option" where
  "slot b = (if even (flipcnt b) then dbuf0 b else dbuf1 b)"

definition other_slot :: "buffer \<Rightarrow> nat option" where
  "other_slot b = (if even (flipcnt b) then dbuf1 b else dbuf0 b)"

definition set_slot :: "nat option \<Rightarrow> buffer \<Rightarrow> buffer" where
  "set_slot a b = (if even (flipcnt b) then b\<lparr>dbuf0 := a\<rparr> else b\<lparr>dbuf1 := a\<rparr>)"

text \<open>\<open>copy(dst[n:], src)\<close> where all of \<open>src\<close> fits.\<close>

definition overwrite :: "bytes \<Rightarrow> nat \<Rightarrow> bytes \<Rightarrow> bytes" where
  "overwrite dst n src = take n dst @ src @ drop (n + length src) dst"

text \<open>
  The read loop of \<open>fill\<close>: \<open>c\<close> is the destination and \<open>n\<close> the bytes in it.  It returns the
  error, the array, the count and what is left of the script.  A read that offers more
  than the room fills the array, whose length is at least \<open>need\<close>, and ends the loop.
\<close>

fun fill_loop :: "nat \<Rightarrow> bytes \<Rightarrow> nat \<Rightarrow> read_event list \<Rightarrow>
    error option \<times> bytes \<times> nat \<times> read_event list" where
  "fill_loop need c n [] = (if need \<le> n then None else Some IoUnexpectedEOF, c, n, [])"
| "fill_loop need c n ((d, e) # evs) =
     (let room = length c - n
      in if room < length d
         then (None, overwrite c n (take room d), n + room, (drop room d, e) # evs)
         else let c' = overwrite c n d; n' = n + length d
              in case e of
                   None \<Rightarrow> if n' < need then fill_loop need c' n' evs else (None, c', n', evs)
                 | Some err \<Rightarrow>
                     if err = IoEOF
                     then (if need \<le> n' then None else Some IoUnexpectedEOF, c', n', evs)
                     else (Some err, c', n', evs))"

text \<open>The first half of \<open>fill\<close> picks the destination, growing it when it is too small \<dots>\<close>

definition fill_dest :: "nat \<Rightarrow> buffer \<Rightarrow> buffer \<times> nat" where
  "fill_dest need b =
     (let dest = (case slot b of None \<Rightarrow> [] | Some a \<Rightarrow> mem b ! a)
      in if length dest < need
         then let size = (need div defaultBufSize + 1) * defaultBufSize;
                  a = length (mem b);
                  b' = b\<lparr>mem := mem b @ [replicate size 0]\<rparr>
              in (if size \<le> maxCachedBufSize then set_slot (Some a) b' else b', a)
         else (b, the (slot b)))"

text \<open>\<open>\<dots>\<close> and moves the unread bytes to its front.\<close>

definition fill_move :: "nat \<Rightarrow> buffer \<Rightarrow> buffer" where
  "fill_move need b =
     (let (b1, a) = fill_dest need b;
          n = blen b;
          unread = take n (drop (bidx b) (mem b ! cur b));
          c = (if 0 < n then overwrite (mem b1 ! a) 0 unread else mem b1 ! a)
      in b1\<lparr>mem := (mem b1)[a := c], cur := a, bidx := 0\<rparr>)"

text \<open>The length of the window is updated only when the loop ends without an error.\<close>

definition fill :: "nat \<Rightarrow> buffer \<Rightarrow> net \<Rightarrow> error option \<times> buffer \<times> net" where
  "fill need b nc =
     (let b1 = fill_move need b
      in if 0 < btimeout b \<and> deadlineErr nc \<noteq> None then (deadlineErr nc, b1, nc)
         else case fill_loop need (mem b1 ! cur b1) (blen b) (script nc) of
                (e, c, n, evs) \<Rightarrow>
                  (e, b1\<lparr>mem := (mem b1)[cur b1 := c], blen := (if e = None then n else blen b)\<rparr>,
                   nc\<lparr>script := evs\<rparr>))"

definition readNext :: "nat \<Rightarrow> buffer \<Rightarrow> net \<Rightarrow> (error + sref) \<times> buffer \<times> net" where
  "readNext need b nc =
     (let (e, b1, nc1) = (if blen b < need then fill need b nc else (None, b, nc))
      in case e of
           Some err \<Rightarrow> (Inl err, b1, nc1)
         | None \<Rightarrow>
             (Inr (cur b1, bidx b1, need),
              b1\<lparr>bidx := bidx b1 + need, blen := blen b1 - need\<rparr>, nc1))"

text \<open>The slices for writing: only one is out at a time, and never while bytes are unread.\<close>

definition takeBuffer :: "nat \<Rightarrow> buffer \<Rightarrow> (error + sref) \<times> buffer" where
  "takeBuffer len b =
     (if 0 < blen b then (Inl ErrBusyBuffer, b)
      else if len \<le> length (mem b ! cur b) then (Inr (cur b, 0, len), b)
      else let a = length (mem b); b' = b\<lparr>mem := mem b @ [replicate len 0]\<rparr>
           in (Inr (a, 0, len), if len < maxPacketSize then b'\<lparr>cur := a\<rparr> else b'))"

definition takeSmallBuffer :: "nat \<Rightarrow> buffer \<Rightarrow> (error + sref) option" where
  "takeSmallBuffer len b =
     (if 0 < blen b then Some (Inl ErrBusyBuffer)
      else if len \<le> length (mem b ! cur b) then Some (Inr (cur b, 0, len)) else None)"

definition takeCompleteBuffer :: "buffer \<Rightarrow> error + sref" where
  "takeCompleteBuffer b =
     (if 0 < blen b then Inl ErrBusyBuffer else Inr (cur b, 0, length (mem b ! cur b)))"

text \<open>\<open>store\<close> keeps the array at address \<open>a\<close> when it is larger than the present one.\<close>

definition store :: "nat \<Rightarrow> buffer \<Rightarrow> error option \<times> buffer" where
  "store a b =
     (if 0 < blen b then (Some ErrBusyBuffer, b)
      else if length (mem b ! a) \<le> maxPacketSize \<and> length (mem b ! cur b) < length (mem b ! a)
           then (None, b\<lparr>cur := a\<rparr>) else (None, b))"

section \<open>The invariant\<close>

definition addr_ok :: "buffer \<Rightarrow> nat option \<Rightarrow> bool" where
  "addr_ok b a \<longleftrightarrow> (case a of None \<Rightarrow> True | Some x \<Rightarrow> x < length (mem b))"

text \<open>
  The window lies in the current array, the backing arrays exist and are different, and every
  array has at least the default size.
\<close>

definition roomy :: "buffer \<Rightarrow> bool" where
  "roomy b \<longleftrightarrow> (\<forall>x \<in> set (mem b). defaultBufSize \<le> length x)"

definition buf_inv :: "buffer \<Rightarrow> bool" where
  "buf_inv b \<longleftrightarrow>
     cur b < length (mem b) \<and> bidx b + blen b \<le> length (mem b ! cur b) \<and>
     addr_ok b (dbuf0 b) \<and> addr_ok b (dbuf1 b) \<and>
     (dbuf0 b = None \<or> dbuf0 b \<noteq> dbuf1 b) \<and> roomy b"

lemma newBuffer_inv: "buf_inv newBuffer"
  by (simp add: buf_inv_def newBuffer_def addr_ok_def roomy_def)

text \<open>The bytes in the window, and the bytes still to come.\<close>

definition pending :: "buffer \<Rightarrow> bytes" where
  "pending b = take (blen b) (drop (bidx b) (mem b ! cur b))"

definition arriving :: "read_event list \<Rightarrow> bytes" where
  "arriving evs = concat (map fst evs)"

lemma arriving_simps [simp]: "arriving [] = []" "arriving ((d, e) # evs) = d @ arriving evs"
  by (simp_all add: arriving_def)

lemma length_pending: "buf_inv b \<Longrightarrow> length (pending b) = blen b"
  by (auto simp: pending_def buf_inv_def)

lemma length_overwrite: "n + length src \<le> length dst \<Longrightarrow> length (overwrite dst n src) = length dst"
  by (simp add: overwrite_def)

lemma take_overwrite:
  "n + length src \<le> length dst \<Longrightarrow> take (n + length src) (overwrite dst n src) = take n dst @ src"
  by (simp add: overwrite_def)

text \<open>
  The loop keeps what it has, appends what arrives and leaves the rest of the script, whatever
  the errors in it; when it ends without an error it has at least \<open>need\<close> bytes.
\<close>

lemma fill_loop_stream:
  assumes "fill_loop need c n evs = (r, c', n', evs')" and "n \<le> length c" and "need \<le> length c"
  shows "length c' = length c \<and> n' \<le> length c' \<and>
    take n' c' @ arriving evs' = take n c @ arriving evs \<and> (r = None \<longrightarrow> need \<le> n')"
  using assms
proof (induction need c n evs rule: fill_loop.induct)
  case (1 need c n)
  then show ?case by (auto split: if_splits)
next
  case (2 need c n d e evs)
  show ?case
  proof (cases "length c - n < length d")
    case True
    then have "length (overwrite c n (take (length c - n) d)) = length c"
      using 2(3) by (simp add: length_overwrite)
    moreover from True 2(3) have "overwrite c n (take (length c - n) d) = take n c @ take (length c - n) d"
      by (simp add: overwrite_def)
    ultimately show ?thesis using 2(2,3,4) True by (auto simp: Let_def)
  next
    case False
    then have fits: "n + length d \<le> length c" using 2(3) by simp
    note ow = length_overwrite [OF fits] take_overwrite [OF fits]
    show ?thesis
    proof (cases "e = None \<and> n + length d < need")
      case True
      with False 2(2) have step: "fill_loop need (overwrite c n d) (n + length d) evs = (r, c', n', evs')"
        by (auto simp: Let_def)
      from True have e: "e = None" and lt: "n + length d < need" by auto
      have "length c' = length (overwrite c n d) \<and> n' \<le> length c' \<and>
        take n' c' @ arriving evs' = take (n + length d) (overwrite c n d) @ arriving evs \<and>
        (r = None \<longrightarrow> need \<le> n')"
        by (rule 2(1) [OF refl False refl refl e lt step]) (use fits ow 2(4) in simp_all)
      then show ?thesis using ow by simp
    next
      case stop: False
      then have "c' = overwrite c n d" "n' = n + length d" "evs' = evs" "r = None \<longrightarrow> need \<le> n'"
        using False 2(2) by (auto simp: Let_def split: option.splits if_splits)
      with fits ow show ?thesis by simp
    qed
  qed
qed

section \<open>Refilling and reading\<close>

text \<open>The destination of a refill: the array of the slot, or a fresh larger one.\<close>

lemma fill_dest:
  assumes "buf_inv b" and "0 < need" and "fill_dest need b = (b1, a)"
  shows "a < length (mem b1) \<and> need \<le> length (mem b1 ! a)"
    and "length (mem b) \<le> length (mem b1)"
    and "x < length (mem b) \<Longrightarrow> mem b1 ! x = mem b ! x"
    and "slot b = Some a \<or> length (mem b) \<le> a"
    and "other_slot b1 = other_slot b" and "slot b1 = slot b \<or> slot b1 = Some a"
    and "flipcnt b1 = flipcnt b" and "btimeout b1 = btimeout b" and "blen b1 = blen b"
    and "roomy b1"
proof -
  define dest where "dest = (case slot b of None \<Rightarrow> [] | Some a \<Rightarrow> mem b ! a)"
  have size: "need \<le> (need div defaultBufSize + 1) * defaultBufSize"
    unfolding defaultBufSize_def by simp
  have slotS: "\<not> length dest < need \<Longrightarrow> \<exists>x. slot b = Some x \<and> x < length (mem b) \<and> need \<le> length (mem b ! x)"
    using assms(1,2) by (auto simp: dest_def slot_def buf_inv_def addr_ok_def split: option.splits if_splits)
  note eq = assms(3) [unfolded fill_dest_def Let_def, folded dest_def]
  show "a < length (mem b1) \<and> need \<le> length (mem b1 ! a)"
    "length (mem b) \<le> length (mem b1)"
    "x < length (mem b) \<Longrightarrow> mem b1 ! x = mem b ! x"
    "slot b = Some a \<or> length (mem b) \<le> a"
    "other_slot b1 = other_slot b" "slot b1 = slot b \<or> slot b1 = Some a"
    "flipcnt b1 = flipcnt b" "btimeout b1 = btimeout b" "blen b1 = blen b" "roomy b1"
    using eq slotS size assms(1)
    by (auto simp: set_slot_def slot_def other_slot_def nth_append roomy_def buf_inv_def split: if_splits)
qed

lemma fill_move:
  assumes "buf_inv b" and "blen b < need"
  defines "b1 \<equiv> fill_move need b"
  shows "cur b1 < length (mem b1)" "need \<le> length (mem b1 ! cur b1)"
    and "take (blen b) (mem b1 ! cur b1) = pending b"
    and "length (mem b) \<le> length (mem b1)"
    and "\<lbrakk>x < length (mem b); x \<noteq> cur b1\<rbrakk> \<Longrightarrow> mem b1 ! x = mem b ! x"
    and "slot b = Some (cur b1) \<or> length (mem b) \<le> cur b1"
    and "other_slot b1 = other_slot b" and "slot b1 = slot b \<or> slot b1 = Some (cur b1)"
    and "flipcnt b1 = flipcnt b" and "btimeout b1 = btimeout b" and "blen b1 = blen b"
    and "bidx b1 = 0" and "roomy b1"
proof -
  obtain b0 a where fd: "fill_dest need b = (b0, a)" by (cases "fill_dest need b")
  have need0: "0 < need" using assms(2) by simp
  note d = fill_dest [OF assms(1) need0 fd]
  have unread: "length (pending b) = blen b" by (rule length_pending [OF assms(1)])
  have b1: "b1 = b0\<lparr>mem := (mem b0)[a := (if 0 < blen b then overwrite (mem b0 ! a) 0 (pending b)
      else mem b0 ! a)], cur := a, bidx := 0\<rparr>"
    by (simp add: b1_def fill_move_def fd Let_def pending_def)
  have lenc: "length (overwrite (mem b0 ! a) 0 (pending b)) = length (mem b0 ! a)"
    using d(1) assms(2) unread by (intro length_overwrite) simp
  show "cur b1 < length (mem b1)" "need \<le> length (mem b1 ! cur b1)"
    using d(1) lenc by (simp_all add: b1)
  show "take (blen b) (mem b1 ! cur b1) = pending b"
    using d(1) unread by (auto simp: b1 overwrite_def)
  show "length (mem b) \<le> length (mem b1)" using d(2) by (simp add: b1)
  show "mem b1 ! x = mem b ! x" if "x < length (mem b)" "x \<noteq> cur b1"
    using d(2) d(3) [OF that(1)] that by (simp add: b1)
  show "slot b = Some (cur b1) \<or> length (mem b) \<le> cur b1" using d(4) by (simp add: b1)
  have "slot b1 = slot b0" "other_slot b1 = other_slot b0" "cur b1 = a"
    by (simp_all add: b1 slot_def other_slot_def)
  then show "other_slot b1 = other_slot b" "slot b1 = slot b \<or> slot b1 = Some (cur b1)"
    using d(5,6) by simp_all
  show "flipcnt b1 = flipcnt b" "btimeout b1 = btimeout b" "blen b1 = blen b" "bidx b1 = 0"
    using d(7-9) by (simp_all add: b1)
  have "mem b0 ! a \<in> set (mem b0)" using d(1) by simp
  then show "roomy b1"
    using d(10) lenc by (auto simp: b1 roomy_def dest!: set_update_subset_insert [THEN subsetD])
qed

text \<open>
  A refill keeps the invariant, error or not; when it succeeds nothing is lost or reordered;
  and it writes to no array that existed before but the one of the slot.
\<close>

lemma fill_inv:
  assumes "buf_inv b" and "blen b < need" and "fill need b nc = (e, b', nc')"
  shows "buf_inv b'"
    and "e = None \<Longrightarrow> need \<le> blen b' \<and>
      pending b' @ arriving (script nc') = pending b @ arriving (script nc)"
    and "other_slot b' \<noteq> Some (cur b')"
    and "\<lbrakk>x < length (mem b); slot b \<noteq> Some x\<rbrakk> \<Longrightarrow> mem b' ! x = mem b ! x \<and> slot b' \<noteq> Some x"
    and "length (mem b) \<le> length (mem b')"
proof -
  define b1 where "b1 = fill_move need b"
  note m = fill_move [OF assms(1,2), folded b1_def]
  obtain c n where b': "b' = b1\<lparr>mem := (mem b1)[cur b1 := c], blen := n\<rparr>"
    and c: "length c = length (mem b1 ! cur b1)" "n \<le> length c"
    and ok: "e = None \<Longrightarrow> need \<le> n \<and> take n c @ arriving (script nc') = pending b @ arriving (script nc)"
  proof (cases "0 < btimeout b \<and> deadlineErr nc \<noteq> None")
    case True
    then have "e = deadlineErr nc" "b' = b1" using assms(3) by (auto simp: fill_def b1_def)
    with True show thesis
      by (intro that [where c = "mem b1 ! cur b1" and n = "blen b"]) (use m(2,11) assms(2) in auto)
  next
    case False
    obtain r c n evs where fl: "fill_loop need (mem b1 ! cur b1) (blen b) (script nc) = (r, c, n, evs)"
      by (metis prod_cases4)
    have "length c = length (mem b1 ! cur b1) \<and> n \<le> length c \<and>
      take n c @ arriving evs = pending b @ arriving (script nc) \<and> (r = None \<longrightarrow> need \<le> n)"
      using fill_loop_stream [OF fl] m(2,3) assms(2) by simp
    moreover have "e = r" "script nc' = evs"
      "b' = b1\<lparr>mem := (mem b1)[cur b1 := c], blen := (if r = None then n else blen b)\<rparr>"
      using assms(3) False fl by (auto simp: fill_def Let_def b1_def [symmetric])
    ultimately show thesis
      by (intro that [where c = c and n = "if r = None then n else blen b"]) (use m(2) assms(2) in auto)
  qed
  have "slot b' = slot b1" "other_slot b' = other_slot b1" "cur b' = cur b1"
    "mem b' = (mem b1)[cur b1 := c]"
    by (simp_all add: b' slot_def other_slot_def)
  then have so: "slot b' = slot b1" "other_slot b' = other_slot b" "cur b' = cur b1"
    "mem b' = (mem b1)[cur b1 := c]" using m(7) by simp_all
  note inv = assms(1) [unfolded buf_inv_def addr_ok_def]
  have oth: "other_slot b \<noteq> Some (cur b1)"
    using m(6) inv by (auto simp: slot_def other_slot_def split: if_splits option.splits)
  then show "other_slot b' \<noteq> Some (cur b')" using so by simp
  have oinv: "addr_ok b' (other_slot b')" "addr_ok b' (slot b')"
      "other_slot b' = None \<or> slot b' \<noteq> other_slot b'"
    using inv so m(1,4,8) oth
    by (auto simp: addr_ok_def slot_def other_slot_def split: if_splits option.splits)
  have "addr_ok b' (dbuf0 b') \<and> addr_ok b' (dbuf1 b') \<and> (dbuf0 b' = None \<or> dbuf0 b' \<noteq> dbuf1 b')"
    using oinv by (cases "even (flipcnt b')") (auto simp: slot_def other_slot_def)
  moreover have "mem b1 ! cur b1 \<in> set (mem b1)" using m(1) by simp
  then have "roomy b'"
    using m(13) c(1) by (auto simp: b' roomy_def dest!: set_update_subset_insert [THEN subsetD])
  ultimately show "buf_inv b'" using m(1,2,12) c by (simp add: buf_inv_def b')
  show "length (mem b) \<le> length (mem b')" using m(4) so by simp
  show "need \<le> blen b' \<and> pending b' @ arriving (script nc') = pending b @ arriving (script nc)"
    if "e = None" using ok [OF that] m(1,12) by (simp add: pending_def b')
  show "mem b' ! x = mem b ! x \<and> slot b' \<noteq> Some x" if "x < length (mem b)" "slot b \<noteq> Some x"
  proof -
    have "x \<noteq> cur b1" using m(6) that by auto
    then show ?thesis using that m(5,8) so by auto
  qed
qed

lemma readNext_inv:
  assumes "buf_inv b" and "readNext need b nc = (r, b', nc')"
  shows "buf_inv b'"
    and "\<lbrakk>x < length (mem b); slot b \<noteq> Some x\<rbrakk> \<Longrightarrow> mem b' ! x = mem b ! x \<and> slot b' \<noteq> Some x"
    and "length (mem b) \<le> length (mem b')"
    and "r = Inr ref \<Longrightarrow>
      fst ref < length (mem b') \<and> length (fst (view b' ref)) = need \<and>
      pending b @ arriving (script nc) = fst (view b' ref) @ pending b' @ arriving (script nc')"
proof -
  obtain e b1 nc1 where f: "(if blen b < need then fill need b nc else (None, b, nc)) = (e, b1, nc1)"
    by (metis prod_cases3)
  have b1: "buf_inv b1" "length (mem b) \<le> length (mem b1)"
    and keep: "\<And>x. \<lbrakk>x < length (mem b); slot b \<noteq> Some x\<rbrakk> \<Longrightarrow> mem b1 ! x = mem b ! x \<and> slot b1 \<noteq> Some x"
    and ok: "e = None \<Longrightarrow> need \<le> blen b1 \<and>
      pending b1 @ arriving (script nc1) = pending b @ arriving (script nc)"
    using f fill_inv [OF assms(1)] assms(1) by (auto split: if_splits)
  note b' = assms(2) [unfolded readNext_def, simplified f, simplified]
  have eqs: "mem b' = mem b1" "cur b' = cur b1" "slot b' = slot b1" "nc' = nc1"
    "dbuf0 b' = dbuf0 b1" "dbuf1 b' = dbuf1 b1"
    "r = Inr ref \<Longrightarrow> e = None \<and> ref = (cur b1, bidx b1, need) \<and> bidx b' = bidx b1 + need \<and>
      blen b' = blen b1 - need" and
    other: "e \<noteq> None \<Longrightarrow> b' = b1" "e = None \<Longrightarrow> bidx b' = bidx b1 + need \<and> blen b' = blen b1 - need"
    using b' by (auto simp: slot_def split: option.splits)
  show "buf_inv b'"
    using b1(1) ok other eqs(1-6)
    by (cases e) (auto simp: buf_inv_def addr_ok_def roomy_def split: option.splits)
  show "length (mem b) \<le> length (mem b')" using b1 eqs by simp
  show "mem b' ! x = mem b ! x \<and> slot b' \<noteq> Some x" if "x < length (mem b)" "slot b \<noteq> Some x"
    using keep [OF that] eqs by simp
  show "fst ref < length (mem b') \<and> length (fst (view b' ref)) = need \<and>
      pending b @ arriving (script nc) = fst (view b' ref) @ pending b' @ arriving (script nc')"
    if "r = Inr ref"
  proof -
    from eqs(7) [OF that] have e: "e = None" and ref: "ref = (cur b1, bidx b1, need)"
      and w: "bidx b' = bidx b1 + need" "blen b' = blen b1 - need" by auto
    from ok [OF e] have need: "need \<le> blen b1" by simp
    have "pending b1 = take need (drop (bidx b1) (mem b1 ! cur b1)) @ pending b'"
      using need w eqs take_add [of need "blen b1 - need" "drop (bidx b1) (mem b1 ! cur b1)"]
      by (simp add: pending_def add.commute)
    moreover have "bidx b1 + blen b1 \<le> length (mem b1 ! cur b1)" "cur b1 < length (mem b1)"
      using b1(1) by (auto simp: buf_inv_def)
    ultimately show ?thesis using ok [OF e] need eqs(1,4) by (simp add: ref view_def)
  qed
qed

text \<open>On a peer that reports no error a read succeeds exactly when the bytes are there.\<close>

definition clean :: "read_event list \<Rightarrow> bool" where
  "clean evs \<longleftrightarrow> (\<forall>ev \<in> set evs. snd ev = None)"

lemma clean_Cons [simp]: "clean ((d, e) # evs) \<longleftrightarrow> e = None \<and> clean evs" "clean []"
  by (auto simp: clean_def)

lemma fill_loop_clean:
  assumes "clean evs" and "n \<le> length c" and "need \<le> length c"
  shows "\<exists>r c' n' evs'. fill_loop need c n evs = (r, c', n', evs') \<and> clean evs' \<and>
    r = (if need \<le> n + length (arriving evs) then None else Some IoUnexpectedEOF)"
  using assms
proof (induction need c n evs rule: fill_loop.induct)
  case (2 need c n d e evs)
  show ?case
  proof (cases "length c - n < length d")
    case True
    then have "need \<le> n + length (arriving ((d, e) # evs))" using 2(4) by simp
    then show ?thesis using 2(2) True by (simp add: Let_def)
  next
    case False
    then have "length (overwrite c n d) = length c" using 2(3) by (simp add: length_overwrite)
    moreover have "e = None" using 2(2) by simp
    ultimately show ?thesis
      using 2(1) [OF refl False refl refl \<open>e = None\<close>] 2(2-4) False
      by (cases "n + length d < need") (auto simp: Let_def add.assoc)
  qed
qed auto

lemma readNext_clean:
  assumes "buf_inv b" and "clean (script nc)" and "btimeout b \<le> 0 \<or> deadlineErr nc = None"
    and "readNext need b nc = (r, b', nc')"
  shows "clean (script nc')"
    and "need \<le> blen b + length (arriving (script nc)) \<Longrightarrow> \<exists>ref. r = Inr ref"
    and "blen b + length (arriving (script nc)) < need \<Longrightarrow> r = Inl IoUnexpectedEOF"
proof -
  have "\<exists>b1 nc1. (if blen b < need then fill need b nc else (None, b, nc)) =
      (if need \<le> blen b + length (arriving (script nc)) then None else Some IoUnexpectedEOF, b1, nc1)
      \<and> clean (script nc1)"
  proof (cases "blen b < need")
    case True
    note m = fill_move [OF assms(1) True]
    have "blen b \<le> length (mem (fill_move need b) ! cur (fill_move need b))" using m(2) True by simp
    from fill_loop_clean [OF assms(2) this m(2)] True assms(3) show ?thesis
      by (auto simp: fill_def Let_def)
  qed (use assms(2) in auto)
  then obtain b1 nc1 where f: "(if blen b < need then fill need b nc else (None, b, nc)) =
      (if need \<le> blen b + length (arriving (script nc)) then None else Some IoUnexpectedEOF, b1, nc1)"
    and c: "clean (script nc1)" by auto
  note r = assms(4) [unfolded readNext_def f]
  show "clean (script nc')" using r c by (auto simp: Let_def split: if_splits)
  show "\<exists>ref. r = Inr ref" if "need \<le> blen b + length (arriving (script nc))"
    using r that by (auto simp: Let_def)
  show "r = Inl IoUnexpectedEOF" if "blen b + length (arriving (script nc)) < need"
    using r that by (auto simp: Let_def)
qed

text \<open>
  Every successful read uses up its bytes of the window and the script, on any state at all:
  the measure of the packet loops.
\<close>

definition available :: "buffer \<Rightarrow> net \<Rightarrow> nat" where
  "available b nc = blen b + length (arriving (script nc))"

lemma fill_loop_count:
  assumes "fill_loop need c n evs = (r, c', n', evs')" and "need \<le> length c"
  shows "n' + length (arriving evs') = n + length (arriving evs) \<and> (r = None \<longrightarrow> need \<le> n')"
  using assms
proof (induction need c n evs rule: fill_loop.induct)
  case (1 need c n)
  then show ?case by (auto split: if_splits)
next
  case (2 need c n d e evs)
  consider (full) "length c - n < length d"
    | (more) "\<not> length c - n < length d" "e = None" "n + length d < need"
    | (stop) "\<not> length c - n < length d" "\<not> (e = None \<and> n + length d < need)" by blast
  then show ?case
  proof cases
    case full
    then show ?thesis using 2(2,3) by (auto simp: Let_def)
  next
    case more
    with 2(2) have step: "fill_loop need (overwrite c n d) (n + length d) evs = (r, c', n', evs')"
      by (auto simp: Let_def)
    have "need \<le> length (overwrite c n d)" using 2(3) by (simp add: overwrite_def)
    from 2(1) [OF refl more(1) refl refl more(2,3) step this] show ?thesis by simp
  next
    case stop
    then show ?thesis using 2(2) by (auto simp: Let_def split: option.splits if_splits)
  qed
qed

lemma fill_move_room:
  assumes "blen b < need"
  shows "need \<le> length (mem (fill_move need b) ! cur (fill_move need b))"
proof -
  obtain b0 a where fd: "fill_dest need b = (b0, a)" by (cases "fill_dest need b")
  have size: "need \<le> (need div defaultBufSize + 1) * defaultBufSize"
    unfolding defaultBufSize_def by simp
  have dest: "need \<le> length (mem b0 ! a)"
    using fd assms size
    by (auto simp: fill_dest_def Let_def set_slot_def split: option.splits if_splits)
  then have "need \<le> length (overwrite (mem b0 ! a) 0 (take (blen b) (drop (bidx b) (mem b ! cur b))))"
    by (simp add: overwrite_def)
  with dest show ?thesis
    by (cases "a < length (mem b0)") (simp_all add: fill_move_def fd Let_def list_update_beyond)
qed

lemma readNext_available:
  assumes "readNext need b nc = (Inr ref, b', nc')"
  shows "available b' nc' + need = available b nc"
proof (cases "blen b < need")
  case True
  note room = fill_move_room [OF True]
  obtain r c n evs where fl: "fill_loop need (mem (fill_move need b) ! cur (fill_move need b))
      (blen b) (script nc) = (r, c, n, evs)" by (metis prod_cases4)
  from fill_loop_count [OF fl room] assms True fl show ?thesis
    by (auto simp: readNext_def fill_def Let_def available_def split: if_splits option.splits)
next
  case False
  then show ?thesis using assms by (auto simp: readNext_def available_def)
qed

section \<open>The buffer as a source of bytes\<close>

text \<open>
  What the packet layer relies on: reads take the bytes of the stream in order, and they
  succeed as long as a well-behaved peer has sent enough.
\<close>

locale byte_source =
  fixes read :: "nat \<Rightarrow> 's \<Rightarrow> (error + 'r) \<times> 's"
    and content :: "'s \<Rightarrow> 'r \<Rightarrow> bytes"
    and rest :: "'s \<Rightarrow> bytes"
    and good :: "'s \<Rightarrow> bool"
    and fine :: "'s \<Rightarrow> bool"
  assumes read_good: "good s \<Longrightarrow> read n s = (r, s') \<Longrightarrow> good s'"
    and read_in_order: "good s \<Longrightarrow> read n s = (Inr x, s') \<Longrightarrow>
      rest s = content s' x @ rest s' \<and> length (content s' x) = n"
    and read_fine: "good s \<Longrightarrow> fine s \<Longrightarrow> read n s = (r, s') \<Longrightarrow> fine s'"
    and read_succeeds: "good s \<Longrightarrow> fine s \<Longrightarrow> n \<le> length (rest s) \<Longrightarrow> \<exists>x s'. read n s = (Inr x, s')"
    and read_short: "good s \<Longrightarrow> fine s \<Longrightarrow> length (rest s) < n \<Longrightarrow>
      \<exists>s'. read n s = (Inl IoUnexpectedEOF, s')"
begin

lemma read_chunk:
  assumes "good s" and "fine s" and "rest s = d @ tail" and "length d = n"
  obtains x s' where "read n s = (Inr x, s')" "content s' x = d" "rest s' = tail" "good s'" "fine s'"
proof -
  obtain x s' where r: "read n s = (Inr x, s')" using read_succeeds assms by fastforce
  with read_in_order [OF assms(1) r] assms(3,4) have "content s' x = d" "rest s' = tail" by auto
  with r that read_good read_fine assms(1,2) show thesis by blast
qed

lemma read_outcome:
  assumes "good s" and "fine s"
  shows "(\<exists>x s'. read n s = (Inr x, s')) \<longleftrightarrow> n \<le> length (rest s)"
  using read_succeeds read_short assms by (metis linorder_not_less prod.inject sum.distinct(1))

end

definition src_read :: "nat \<Rightarrow> buffer \<times> net \<Rightarrow> (error + sref) \<times> buffer \<times> net" where
  "src_read n s = readNext n (fst s) (snd s)"

definition src_rest :: "buffer \<times> net \<Rightarrow> bytes" where
  "src_rest s = pending (fst s) @ arriving (script (snd s))"

text \<open>A peer without errors, and deadlines that can be set.\<close>

definition src_fine :: "buffer \<times> net \<Rightarrow> bool" where
  "src_fine s \<longleftrightarrow> clean (script (snd s)) \<and> deadlineErr (snd s) = None"

lemma readNext_deadline:
  "readNext n b nc = (r, b', nc') \<Longrightarrow> deadlineErr nc' = deadlineErr nc"
  by (auto simp: readNext_def fill_def Let_def split: if_splits option.splits prod.splits)

interpretation buf: byte_source src_read "\<lambda>s x. fst (view (fst s) x)" src_rest
    "\<lambda>s. buf_inv (fst s)" src_fine
proof (unfold_locales, goal_cases)
  case (1 s n r s')
  then show ?case
    using readNext_inv(1) [of "fst s" n "snd s" r "fst s'" "snd s'"] by (simp add: src_read_def)
next
  case (2 s n x s')
  then show ?case
    using readNext_inv(4) [of "fst s" n "snd s" "Inr x" "fst s'" "snd s'" x]
    by (simp add: src_read_def src_rest_def)
next
  case (3 s n r s')
  then show ?case
    using readNext_clean(1) [of "fst s" "snd s" n r "fst s'" "snd s'"]
      readNext_deadline [of n "fst s" "snd s" r "fst s'" "snd s'"]
    by (simp add: src_read_def src_fine_def)
next
  case (4 s n)
  obtain r b' nc' where r: "readNext n (fst s) (snd s) = (r, b', nc')" by (metis prod_cases3)
  show ?case
    using readNext_clean(2) [OF _ _ _ r] 4 r length_pending [of "fst s"]
    by (auto simp: src_read_def src_rest_def src_fine_def)
next
  case (5 s n)
  obtain r b' nc' where r: "readNext n (fst s) (snd s) = (r, b', nc')" by (metis prod_cases3)
  show ?case
    using readNext_clean(3) [OF _ _ _ r] 5 r length_pending [of "fst s"]
    by (auto simp: src_read_def src_rest_def src_fine_def)
qed

section \<open>Properties\<close>

text \<open>C23: Whatever the sizes of the network reads and whatever errors they report, a read that
  succeeds returns exactly the next \<open>need\<close> bytes of the stream, in order, and loses none of
  the bytes behind them.\<close>

theorem readNext_in_order:
  assumes "buf_inv b" and "readNext need b nc = (Inr ref, b', nc')"
  shows "buf_inv b' \<and> length (fst (view b' ref)) = need \<and>
    pending b @ arriving (script nc) = fst (view b' ref) @ pending b' @ arriving (script nc')"
  using readNext_inv [OF assms] by simp

definition example_net :: net where
  "example_net = \<lparr>script = [([5, 0], None), ([0, 1, 3, 65], None), ([], Some IoEOF)], deadlineErr = None\<rparr>"

theorem readNext_in_order_witness:
  "\<exists>ref b' nc'. readNext 4 newBuffer (example_net\<lparr>script := butlast (script example_net)\<rparr>) = (Inr ref, b', nc') \<and>
     [5, 0, 0, 1, 3, 65] = fst (view b' ref) @ pending b' @ arriving (script nc')"
proof -
  let ?nc = "example_net\<lparr>script := butlast (script example_net)\<rparr>"
  obtain r b' nc' where r: "readNext 4 newBuffer ?nc = (r, b', nc')" by (metis prod_cases3)
  have "clean (script ?nc)" "deadlineErr ?nc = None" "length (arriving (script ?nc)) = 6"
    by (simp_all add: example_net_def)
  then obtain ref where "r = Inr ref"
    using readNext_clean(2) [OF newBuffer_inv _ _ r] by auto
  with r readNext_in_order [OF newBuffer_inv, of 4 ?nc ref b' nc'] show ?thesis
    by (auto simp: example_net_def newBuffer_def pending_def)
qed

text \<open>
  The reads after a flip.  \<open>front b\<close> says the window is not in the array a flip brings up;
  it holds of a new buffer and after every refill.
\<close>

fun reads :: "nat list \<Rightarrow> buffer \<Rightarrow> net \<Rightarrow> buffer" where
  "reads [] b nc = b"
| "reads (n # ns) b nc = (case readNext n b nc of (r, b', nc') \<Rightarrow> reads ns b' nc')"

definition front :: "buffer \<Rightarrow> bool" where
  "front b \<longleftrightarrow> other_slot b \<noteq> Some (cur b)"

lemma front_newBuffer: "front newBuffer"
  by (simp add: front_def newBuffer_def other_slot_def)

lemma readNext_front:
  assumes "buf_inv b" and "front b" and "readNext need b nc = (r, b', nc')"
  shows "front b' \<and> (r = Inr ref \<longrightarrow> fst ref = cur b')"
proof (cases "blen b < need")
  case True
  obtain e b1 nc1 where f: "fill need b nc = (e, b1, nc1)" by (metis prod_cases3)
  from fill_inv(3) [OF assms(1) True f] assms(3) f True show ?thesis
    by (auto simp: readNext_def front_def other_slot_def split: option.splits if_splits)
next
  case False
  then show ?thesis using assms(2,3)
    by (auto simp: readNext_def front_def other_slot_def)
qed

lemma reads_keep:
  "\<lbrakk>buf_inv b; a < length (mem b); slot b \<noteq> Some a\<rbrakk> \<Longrightarrow> mem (reads ns b nc) ! a = mem b ! a"
proof (induction ns arbitrary: b nc)
  case (Cons n ns)
  obtain r b' nc' where r: "readNext n b nc = (r, b', nc')" by (metis prod_cases3)
  note k = readNext_inv(1-3) [OF Cons.prems(1) r]
  show ?case using Cons.IH [OF k(1)] k(2) [OF Cons.prems(2,3)] k(3) Cons.prems(2) r by simp
qed simp

text \<open>C24: Double buffering keeps a slice valid across a flip: the bytes returned by the last
  read before \<open>flip\<close> are still there after any number of later reads, refills included.\<close>

theorem flip_protects_slices:
  assumes "buf_inv b" and "front b" and "readNext need b nc = (Inr ref, b', nc')"
  shows "fst (view (reads ns (flip b') nc2) ref) = fst (view b' ref)"
proof -
  note k = readNext_inv [OF assms(1,3)] and fr = readNext_front [OF assms, of ref]
  have "slot (flip b') = other_slot b'" "mem (flip b') = mem b'"
    by (simp_all add: slot_def other_slot_def flip_def)
  moreover have "buf_inv (flip b')"
    using k(1) by (auto simp: buf_inv_def flip_def addr_ok_def roomy_def split: option.splits)
  ultimately have "mem (reads ns (flip b') nc2) ! fst ref = mem b' ! fst ref"
    using reads_keep [of "flip b'" "fst ref" ns nc2] fr k(4) by (auto simp: front_def)
  then show ?thesis by (cases ref) (simp add: view_def)
qed

lemma whole_prefix: "xs = ys @ zs \<Longrightarrow> length ys = length xs \<Longrightarrow> ys = xs"
  by simp

theorem flip_protects_slices_witness:
  "\<exists>ref b' nc'. readNext 4 newBuffer (example_net\<lparr>script := [([5, 0, 0, 1], None)]\<rparr>) = (Inr ref, b', nc') \<and>
     fst (view (reads [5, 9] (flip b') example_net) ref) = [5, 0, 0, 1]"
proof -
  let ?nc = "example_net\<lparr>script := [([5, 0, 0, 1], None)]\<rparr>"
  obtain r b' nc' where r: "readNext 4 newBuffer ?nc = (r, b', nc')" by (metis prod_cases3)
  then obtain ref where ref: "r = Inr ref"
    using readNext_clean(2) [OF newBuffer_inv _ _ r] by (auto simp: example_net_def)
  from readNext_inv(4) [OF newBuffer_inv r ref]
  have len: "length (fst (view b' ref)) = 4"
    and eq: "[5, 0, 0, 1] = fst (view b' ref) @ pending b' @ arriving (script nc')"
    by (simp_all add: newBuffer_def pending_def)
  have "fst (view b' ref) = [5, 0, 0, 1]"
    by (rule whole_prefix [OF eq]) (unfold len, simp)
  with flip_protects_slices [OF newBuffer_inv front_newBuffer r [unfolded ref], of "[5, 9]" example_net] r ref
  show ?thesis by simp
qed

end
