(* ===== verification/Conn.thy ===== *)
theory Conn
  imports Buffer DateTime
begin

text \<open>
  A connection to a replica (\<open>mysql/connection.go\<close>) and its packet layer
  (\<open>mysql/packets.go\<close>): closing, reading and writing packets, the commands.  Writes to the
  network take their results from a list in the state; reads from the script of the buffer's
  network.
\<close>

section \<open>The state\<close>

record config =
  checkConnLiveness :: bool
  rejectReadOnly :: bool
  columnsWithAlias :: bool
  allowAllFiles :: bool
  interpolates :: bool

text \<open>
  What \<open>LOAD DATA LOCAL INFILE\<close> may read: the registered readers (\<open>Some None\<close> is a handler that
  returns nil), the file allowlist and the files.  A reader is a script of \<open>Read\<close> results, as
  on the network, and the result of its \<open>Close\<close>.
\<close>

record reader =
  rscript :: "read_event list"
  rclose :: "error option"

record locals =
  readerRegister :: "bytes \<Rightarrow> reader option option"
  fileRegister :: "bytes \<Rightarrow> bool"
  openFile :: "bytes \<Rightarrow> error + (error + int) \<times> reader"

text \<open>
  \<open>sent\<close> is what the server has been sent.  \<open>wresults\<close> are the results of the coming \<open>Write\<close>
  calls, the bytes taken and the error; after them every write succeeds in full.
  \<open>wdeadlineErr\<close> and \<open>checkErr\<close> are the results of \<open>SetWriteDeadline\<close> and of the stale
  connection check.  \<open>netConn\<close> is false for a connection without a network.  \<open>floatErr\<close> is the
  error of \<open>strconv.ParseFloat\<close> on a text at a bit size.
\<close>

record conn =
  cbuf :: buffer
  cnet :: net
  sent :: bytes
  wresults :: "(nat \<times> error option) list"
  wdeadlineErr :: "error option"
  checkErr :: "error option"
  netConn :: bool
  netClosed :: bool
  cfg :: config
  affectedRows :: "int list"
  insertIds :: "int list"
  maxAllowedPacket :: int
  maxWriteSize :: int
  parseTime :: bool
  floatErr :: "nat \<Rightarrow> bytes \<Rightarrow> error option"
  locals :: locals
  writeTimeout :: int
  cstatus :: u16
  sequence :: byte
  creset :: bool
  canceled :: "error option"
  closed :: bool

definition comQuit :: byte where "comQuit = 1"
definition comQuery :: byte where "comQuery = 3"
definition comPing :: byte where "comPing = 14"
definition comStmtPrepare :: byte where "comStmtPrepare = 22"
definition comStmtClose :: byte where "comStmtClose = 25"

section \<open>Writing packets\<close>

definition netErrClosed :: error where "netErrClosed = OsError 0"

text \<open>\<open>netConn.Write\<close>: the bytes taken and the error.\<close>

definition net_write :: "bytes \<Rightarrow> conn \<Rightarrow> (nat \<times> error option) \<times> conn" where
  "net_write d mc =
     (if netClosed mc then ((0, Some netErrClosed), mc)
      else case wresults mc of
             [] \<Rightarrow> ((length d, None), mc\<lparr>sent := sent mc @ d\<rparr>)
           | (n, e) # ws \<Rightarrow>
               ((min n (length d), e), mc\<lparr>sent := sent mc @ take n d, wresults := ws\<rparr>))"

text \<open>\<open>clearResult\<close> empties the two result lists, \<open>cleanup\<close> closes the network once.\<close>

definition clearResult :: "conn \<Rightarrow> conn" where
  "clearResult mc = mc\<lparr>affectedRows := [], insertIds := []\<rparr>"

definition cleanup :: "conn \<Rightarrow> conn" where
  "cleanup mc =
     (if closed mc then mc
      else let mc1 = mc\<lparr>closed := True\<rparr>
           in if \<not> netConn mc1 then mc1
              else clearResult (mc1\<lparr>netClosed := True, cnet := (cnet mc1)\<lparr>script := []\<rparr>\<rparr>))"

text \<open>Writing into a slice handed out by the buffer.\<close>

definition put :: "sref \<Rightarrow> nat \<Rightarrow> bytes \<Rightarrow> conn \<Rightarrow> conn" where
  "put r n d mc = (case r of (a, off, len) \<Rightarrow>
     mc\<lparr>cbuf := (cbuf mc)\<lparr>mem := (mem (cbuf mc))[a := overwrite (mem (cbuf mc) ! a) (off + n) d]\<rparr>\<rparr>)"

definition content :: "conn \<Rightarrow> sref \<Rightarrow> bytes" where
  "content mc r = fst (view (cbuf mc) r)"

text \<open>
  The loop of \<open>writePacket\<close>: one frame per turn, its header written over the four bytes
  before the payload, \<open>data\<close> moved forward by a full frame.
\<close>

function write_loop :: "nat \<Rightarrow> sref \<Rightarrow> conn \<Rightarrow> error option \<times> conn" where
  "write_loop pktLen (a, off, len) mc =
     (let (h, size) = (if maxPacketSize \<le> pktLen then ([255, 255, 255], maxPacketSize)
                       else ([of_nat pktLen, of_nat (pktLen div 2 ^ 8), of_nat (pktLen div 2 ^ 16)], pktLen));
          mc1 = put (a, off, len) 0 (h @ [sequence mc]) mc
      in if 0 < writeTimeout mc1 \<and> wdeadlineErr mc1 \<noteq> None then (wdeadlineErr mc1, mc1)
         else case net_write (take (4 + size) (content mc1 (a, off, len))) mc1 of
           ((n, err), mc2) \<Rightarrow>
             if err = None \<and> n = 4 + size
             then let mc3 = mc2\<lparr>sequence := sequence mc2 + 1\<rparr>
                  in if size \<noteq> maxPacketSize then (None, mc3)
                     else write_loop (pktLen - size) (a, off + size, len - size) mc3
             else if err = None then (Some ErrInvalidConn, cleanup mc2)
             else if canceled mc2 \<noteq> None then (canceled mc2, mc2)
             else if n = 0 \<and> int pktLen = int len - 4 then (Some ErrBadConnNoWrite, mc2)
             else (Some ErrInvalidConn, cleanup mc2))"
  by pat_completeness auto
termination
  by (relation "measure fst") (auto simp: maxPacketSize_def split: if_splits)

declare write_loop.simps [simp del]

definition sref_len :: "sref \<Rightarrow> nat" where
  "sref_len r = snd (snd r)"

text \<open>
  \<open>writePacket\<close> on a connection that is not marked for the liveness check, and \<open>Close\<close> on
  such a connection: \<open>COM_QUIT\<close> unless it is closed already, then \<open>cleanup\<close>.
\<close>

definition write_unmarked :: "sref \<Rightarrow> conn \<Rightarrow> error option \<times> conn" where
  "write_unmarked r mc =
     (let pktLen = sref_len r - 4
      in if maxAllowedPacket mc < int pktLen then (Some ErrPktTooLarge, mc)
         else write_loop pktLen r mc)"

definition close_unmarked :: "conn \<Rightarrow> (error option \<times> conn) option" where
  "close_unmarked mc =
     (if closed mc then Some (None, cleanup mc)
      else let mc1 = mc\<lparr>sequence := 0\<rparr>
           in do {
                data \<leftarrow> takeSmallBuffer (4 + 1) (cbuf mc1);
                case data of
                  Inl e \<Rightarrow> Some (Some ErrBadConnNoWrite, cleanup mc1)
                | Inr r \<Rightarrow> (case write_unmarked r (put r 4 [comQuit] mc1) of
                    (e, mc2) \<Rightarrow> Some (e, cleanup mc2))
              })"

text \<open>
  \<open>writePacket\<close>: the first write after \<open>ResetSession\<close> checks the connection, and closes it
  when the check fails; the mark is gone by then, so this \<open>Close\<close> does not check again.
\<close>

definition writePacket :: "sref \<Rightarrow> conn \<Rightarrow> (error option \<times> conn) option" where
  "writePacket r mc =
     (let pktLen = sref_len r - 4
      in if maxAllowedPacket mc < int pktLen then Some (Some ErrPktTooLarge, mc)
         else if creset mc
         then let mc1 = mc\<lparr>creset := False\<rparr>
              in if checkConnLiveness (cfg mc1) \<and> checkErr mc1 \<noteq> None
                 then do { (e, mc2) \<leftarrow> close_unmarked mc1; Some (Some DriverErrBadConn, mc2) }
                 else Some (write_loop pktLen r mc1)
         else Some (write_loop pktLen r mc))"

section \<open>Commands\<close>

definition writeCommandPacket :: "byte \<Rightarrow> conn \<Rightarrow> (error option \<times> conn) option" where
  "writeCommandPacket command mc =
     (let mc1 = mc\<lparr>sequence := 0\<rparr>
      in do {
           data \<leftarrow> takeSmallBuffer (4 + 1) (cbuf mc1);
           case data of
             Inl e \<Rightarrow> Some (Some ErrBadConnNoWrite, mc1)
           | Inr r \<Rightarrow> writePacket r (put r 4 [command] mc1)
         })"

definition writeCommandPacketStr :: "byte \<Rightarrow> bytes \<Rightarrow> conn \<Rightarrow> (error option \<times> conn) option" where
  "writeCommandPacketStr command arg mc =
     (let mc1 = mc\<lparr>sequence := 0\<rparr>;
          pktLen = 1 + length arg
      in case takeBuffer (pktLen + 4) (cbuf mc1) of
           (Inl e, b) \<Rightarrow> Some (Some ErrBadConnNoWrite, mc1)
         | (Inr r, b) \<Rightarrow> writePacket r (put r 4 (command # arg) (mc1\<lparr>cbuf := b\<rparr>)))"

definition writeCommandPacketUint32 :: "byte \<Rightarrow> u32 \<Rightarrow> conn \<Rightarrow> (error option \<times> conn) option" where
  "writeCommandPacketUint32 command arg mc =
     (let mc1 = mc\<lparr>sequence := 0\<rparr>
      in do {
           data \<leftarrow> takeSmallBuffer (4 + 1 + 4) (cbuf mc1);
           case data of
             Inl e \<Rightarrow> Some (Some ErrBadConnNoWrite, mc1)
           | Inr r \<Rightarrow> writePacket r
               (put r 4 [command, ucast arg, ucast (drop_bit 8 arg), ucast (drop_bit 16 arg),
                         ucast (drop_bit 24 arg)] mc1)
         })"

definition Close :: "conn \<Rightarrow> (error option \<times> conn) option" where
  "Close mc =
     (if closed mc then Some (None, cleanup mc)
      else do { (e, mc1) \<leftarrow> writeCommandPacket comQuit mc; Some (e, cleanup mc1) })"

definition conn_error :: "conn \<Rightarrow> error option" where
  "conn_error mc =
     (if closed mc then (case canceled mc of Some e \<Rightarrow> Some e | None \<Rightarrow> Some ErrInvalidConn) else None)"

definition markBadConn :: "error option \<Rightarrow> error option" where
  "markBadConn e = (if e = Some ErrBadConnNoWrite then Some DriverErrBadConn else e)"

definition ResetSession :: "conn \<Rightarrow> error option \<times> conn" where
  "ResetSession mc = (if closed mc then (Some DriverErrBadConn, mc) else (None, mc\<lparr>creset := True\<rparr>))"

definition IsValid :: "conn \<Rightarrow> bool" where
  "IsValid mc \<longleftrightarrow> \<not> closed mc"

definition cancel :: "error \<Rightarrow> conn \<Rightarrow> conn" where
  "cancel e mc = cleanup (mc\<lparr>canceled := Some e\<rparr>)"

text \<open>The \<open>Close\<close> inside \<open>writePacket\<close> is \<open>Close\<close> on its unmarked connection.\<close>

lemma close_unmarked: "\<not> creset mc \<Longrightarrow> close_unmarked mc = Close mc"
  by (auto simp: close_unmarked_def Close_def writeCommandPacket_def writePacket_def
      write_unmarked_def put_def Let_def sref_len_def bind_eq_None_conv
      split: sum.splits Option.bind_splits prod.splits intro!: option.expand)

section \<open>Reading packets\<close>

definition conn_read :: "nat \<Rightarrow> conn \<Rightarrow> (error + sref) \<times> conn" where
  "conn_read n mc = (case readNext n (cbuf mc) (cnet mc) of (r, b, nc) \<Rightarrow>
     (r, mc\<lparr>cbuf := b, cnet := nc\<rparr>))"

text \<open>What both calls of \<open>readNext\<close> do with an error: the cancellation, or close.\<close>

definition read_failed :: "conn \<Rightarrow> ((error + gslice) \<times> conn) option" where
  "read_failed mc =
     (case canceled mc of
        Some e \<Rightarrow> Some (Inl e, mc)
      | None \<Rightarrow> do { (_, mc1) \<leftarrow> Close mc; Some (Inl ErrInvalidConn, mc1) })"

definition pkt_len :: "bytes \<Rightarrow> nat" where
  "pkt_len h = unat (ucast (h ! 0) OR push_bit 8 (ucast (h ! 1)) OR push_bit 16 (ucast (h ! 2)) :: u32)"

text \<open>
  The loop of \<open>readPacket\<close>; \<open>prev\<close> is \<open>prevData\<close>, \<open>None\<close> for nil.  What \<open>append\<close> allocates
  is taken to have no spare capacity.
\<close>

lemma conn_read_available:
  "conn_read n mc = (Inr ref, mc') \<Longrightarrow>
     available (cbuf mc') (cnet mc') + n = available (cbuf mc) (cnet mc)"
  using readNext_available [of n "cbuf mc" "cnet mc"]
  by (auto simp: conn_read_def split: prod.splits)

function read_loop :: "bytes option \<Rightarrow> conn \<Rightarrow> ((error + gslice) \<times> conn) option" where
  "read_loop prev mc =
     (case conn_read 4 mc of
        (Inl e, mc1) \<Rightarrow> read_failed mc1
      | (Inr ref, mc1) \<Rightarrow>
          let data = content mc1 ref; pktLen = pkt_len data
          in if data ! 3 \<noteq> sequence mc1
             then Some (Inl (if sequence mc1 < data ! 3 then ErrPktSyncMul else ErrPktSync), mc1)
             else let mc2 = mc1\<lparr>sequence := sequence mc1 + 1\<rparr>
                  in if pktLen = 0
                     then case prev of
                            None \<Rightarrow> do { (_, mc3) \<leftarrow> Close mc2; Some (Inl ErrInvalidConn, mc3) }
                          | Some p \<Rightarrow> Some (Inr (p, []), mc2)
                     else case conn_read pktLen mc2 of
                            (Inl e, mc3) \<Rightarrow> read_failed mc3
                          | (Inr ref2, mc3) \<Rightarrow>
                              if pktLen < maxPacketSize
                              then Some (Inr (case prev of
                                     None \<Rightarrow> view (cbuf mc3) ref2
                                   | Some p \<Rightarrow> (p @ content mc3 ref2, [])), mc3)
                              else read_loop
                                     (Some ((case prev of None \<Rightarrow> [] | Some p \<Rightarrow> p) @ content mc3 ref2)) mc3)"
  by pat_completeness auto
termination
  by (relation "measure (\<lambda>(prev, mc). available (cbuf mc) (cnet mc))")
    (auto dest!: conn_read_available [OF sym])

declare read_loop.simps [simp del]

definition readPacket :: "conn \<Rightarrow> ((error + gslice) \<times> conn) option" where
  "readPacket mc = read_loop None mc"

text \<open>
  \<open>readPacket1\<close>: the same, and both reads are written to the client's connection before they
  are looked at; \<open>dst\<close> is what the client has been written.
\<close>

function read_loop1 :: "bytes option \<Rightarrow> conn \<times> bytes \<Rightarrow> ((error + gslice) \<times> conn \<times> bytes) option" where
  "read_loop1 prev (mc, dst) =
     (case conn_read 4 mc of
        (Inl e, mc1) \<Rightarrow> do { (r, mc2) \<leftarrow> read_failed mc1; Some (r, mc2, dst) }
      | (Inr ref, mc1) \<Rightarrow>
          let data = content mc1 ref; dst1 = dst @ data; pktLen = pkt_len data
          in if data ! 3 \<noteq> sequence mc1
             then Some (Inl (if sequence mc1 < data ! 3 then ErrPktSyncMul else ErrPktSync), mc1, dst1)
             else let mc2 = mc1\<lparr>sequence := sequence mc1 + 1\<rparr>
                  in if pktLen = 0
                     then case prev of
                            None \<Rightarrow> do { (_, mc3) \<leftarrow> Close mc2; Some (Inl ErrInvalidConn, mc3, dst1) }
                          | Some p \<Rightarrow> Some (Inr (p, []), mc2, dst1)
                     else case conn_read pktLen mc2 of
                            (Inl e, mc3) \<Rightarrow> do { (r, mc4) \<leftarrow> read_failed mc3; Some (r, mc4, dst1) }
                          | (Inr ref2, mc3) \<Rightarrow>
                              let dst2 = dst1 @ content mc3 ref2
                              in if pktLen < maxPacketSize
                                 then Some (Inr (case prev of
                                        None \<Rightarrow> view (cbuf mc3) ref2
                                      | Some p \<Rightarrow> (p @ content mc3 ref2, [])), mc3, dst2)
                                 else read_loop1
                                        (Some ((case prev of None \<Rightarrow> [] | Some p \<Rightarrow> p) @ content mc3 ref2))
                                        (mc3, dst2))"
  by pat_completeness auto
termination
  by (relation "measure (\<lambda>(prev, mc, dst). available (cbuf mc) (cnet mc))")
    (auto dest!: conn_read_available [OF sym])

declare read_loop1.simps [simp del]

definition readPacket1 :: "conn \<times> bytes \<Rightarrow> ((error + gslice) \<times> conn \<times> bytes) option" where
  "readPacket1 s = read_loop1 None s"

text \<open>A packet that is read uses up bytes: the measure of the loops over packets.\<close>

definition left_over :: "conn \<Rightarrow> nat" where
  "left_over mc = available (cbuf mc) (cnet mc)"

lemma read_loop_available:
  "read_loop prev mc = Some (Inr v, mc') \<Longrightarrow> left_over mc' < left_over mc"
proof (induction "left_over mc" arbitrary: mc prev rule: less_induct)
  case less
  obtain x mc1 where r1: "conn_read 4 mc = (x, mc1)" by (cases "conn_read 4 mc")
  obtain ref where x: "x = Inr ref"
    using less.prems r1
    by (cases x) (auto simp: read_loop.simps [of prev mc] read_failed_def split: option.splits)
  define n where "n = pkt_len (content mc1 ref)"
  define mc2 where "mc2 = mc1\<lparr>sequence := sequence mc1 + 1\<rparr>"
  obtain y mc3 where r2: "conn_read n mc2 = (y, mc3)" by (cases "conn_read n mc2")
  have a1: "left_over mc2 + 4 = left_over mc"
    using conn_read_available [OF r1 [unfolded x]] by (simp add: left_over_def mc2_def)
  have a2: "left_over mc3 + n = left_over mc2" if "y = Inr ref2" for ref2
    using conn_read_available [OF r2 [unfolded that]] by (simp add: left_over_def)
  have ih: "read_loop prev' mc3 = Some (Inr v, mc') \<Longrightarrow> left_over mc' < left_over mc"
    if "y = Inr ref2" for ref2 prev'
    using less.hyps [of mc3 prev'] a1 a2 [OF that] by simp
  from less.prems r1 x show ?case
    using a1 a2 ih r2
    by (auto simp: read_loop.simps [of prev mc] n_def [symmetric] mc2_def [symmetric] Let_def read_failed_def
        split: if_splits option.splits sum.splits)
qed

lemma readPacket_available [termination_simp]:
  "readPacket mc = Some (Inr v, mc') \<Longrightarrow> left_over mc' < left_over mc"
  by (auto simp: readPacket_def dest: read_loop_available)

lemma read_loop1_available:
  "read_loop1 prev (mc, dst) = Some (Inr v, mc', dst') \<Longrightarrow> left_over mc' < left_over mc"
proof (induction "left_over mc" arbitrary: mc dst prev rule: less_induct)
  case less
  obtain x mc1 where r1: "conn_read 4 mc = (x, mc1)" by (cases "conn_read 4 mc")
  obtain ref where x: "x = Inr ref"
    using less.prems r1
    by (cases x) (auto simp: read_loop1.simps [of prev mc] read_failed_def split: option.splits)
  define n where "n = pkt_len (content mc1 ref)"
  define mc2 where "mc2 = mc1\<lparr>sequence := sequence mc1 + 1\<rparr>"
  obtain y mc3 where r2: "conn_read n mc2 = (y, mc3)" by (cases "conn_read n mc2")
  have a1: "left_over mc2 + 4 = left_over mc"
    using conn_read_available [OF r1 [unfolded x]] by (simp add: left_over_def mc2_def)
  have a2: "left_over mc3 + n = left_over mc2" if "y = Inr ref2" for ref2
    using conn_read_available [OF r2 [unfolded that]] by (simp add: left_over_def)
  have ih: "left_over mc' < left_over mc"
    if "y = Inr ref2" and that2: "read_loop1 prev' (mc3, dst1) = Some (Inr v, mc', dst')" for ref2 prev' dst1
  proof -
    from a1 a2 [OF that(1)] have "left_over mc3 < left_over mc" by simp
    from less.hyps [OF this that2] this show ?thesis by simp
  qed
  from less.prems r1 x show ?case
    using a1 a2 ih r2
    by (auto simp: read_loop1.simps [of prev mc] n_def [symmetric] mc2_def [symmetric] Let_def read_failed_def
        split: if_splits option.splits sum.splits)
qed

lemma readPacket1_available [termination_simp]:
  "readPacket1 (mc, dst) = Some (Inr v, mc', dst') \<Longrightarrow> left_over mc' < left_over mc"
  by (auto simp: readPacket1_def dest: read_loop1_available)

text \<open>No operation brings bytes back: \<open>progress\<close> collects these facts.\<close>

named_theorems progress \<open>operations do not increase what is left to read\<close>

lemma left_over_fields [simp]:
  "left_over (mc\<lparr>sequence := x\<rparr>) = left_over mc" "left_over (mc\<lparr>creset := y\<rparr>) = left_over mc"
  "left_over (mc\<lparr>closed := z\<rparr>) = left_over mc" "left_over (mc\<lparr>cstatus := st\<rparr>) = left_over mc"
  "left_over (mc\<lparr>affectedRows := l\<rparr>) = left_over mc" "left_over (mc\<lparr>insertIds := l\<rparr>) = left_over mc"
  "left_over (mc\<lparr>sent := d\<rparr>) = left_over mc" "left_over (mc\<lparr>wresults := w\<rparr>) = left_over mc"
  "left_over (mc\<lparr>cbuf := (cbuf mc)\<lparr>mem := m\<rparr>\<rparr>) = left_over mc"
  "left_over (mc\<lparr>canceled := e\<rparr>) = left_over mc"
  by (simp_all add: left_over_def available_def)

lemma left_over_put [simp]: "left_over (put r n d mc) = left_over mc"
  by (cases r) (simp add: put_def)

lemma left_over_net_write: "net_write d mc = (r, mc') \<Longrightarrow> left_over mc' = left_over mc"
  by (auto simp: net_write_def left_over_def available_def split: if_splits list.splits)

lemma left_over_cleanup [progress]: "left_over (cleanup mc) \<le> left_over mc"
  by (simp add: cleanup_def clearResult_def left_over_def available_def Let_def)

lemma left_over_write_loop [progress]: "write_loop n r mc = (e, mc') \<Longrightarrow> left_over mc' \<le> left_over mc"
proof (induction n r mc arbitrary: e mc' rule: write_loop.induct)
  case (1 pktLen a off len mc)
  define sz where "sz = (if maxPacketSize \<le> pktLen then maxPacketSize else pktLen)"
  define h :: bytes where "h = (if maxPacketSize \<le> pktLen then [255, 255, 255]
    else [of_nat pktLen, of_nat (pktLen div 2 ^ 8), of_nat (pktLen div 2 ^ 16)])"
  define mc1 where "mc1 = put (a, off, len) 0 (h @ [sequence mc]) mc"
  obtain k err mc2 where nw: "net_write (take (4 + sz) (content mc1 (a, off, len))) mc1 = ((k, err), mc2)"
    by (metis prod.exhaust)
  have hs: "(if maxPacketSize \<le> pktLen then ([255, 255, 255], maxPacketSize)
      else ([of_nat pktLen, of_nat (pktLen div 2 ^ 8), of_nat (pktLen div 2 ^ 16)], pktLen)) = (h, sz)"
    by (simp add: h_def sz_def)
  have lo: "left_over mc1 = left_over mc" "left_over mc2 = left_over mc"
    using left_over_net_write [OF nw] by (simp_all add: mc1_def)
  note ih = 1(1) [OF hs [symmetric] refl mc1_def _ nw [symmetric] refl]
  note eq = 1(2) [unfolded write_loop.simps [of pktLen a off len mc] hs Let_def prod.case,
      folded mc1_def, unfolded nw prod.case]
  let ?rec = "write_loop (pktLen - sz) (a, off + sz, len - sz) (mc2\<lparr>sequence := sequence mc2 + 1\<rparr>)"
  let ?dl = "0 < writeTimeout mc1 \<and> wdeadlineErr mc1 \<noteq> None"
  have "mc' = mc1 \<or> mc' = mc2 \<or> mc' = mc2\<lparr>sequence := sequence mc2 + 1\<rparr> \<or> mc' = cleanup mc2 \<or>
      (\<not> ?dl \<and> (err = None \<and> k = 4 + sz) \<and> \<not> sz \<noteq> maxPacketSize \<and> ?rec = (e, mc'))"
    using eq by (simp split: if_split_asm)
  then show ?case
  proof (elim disjE conjE)
    assume c: "\<not> ?dl" "err = None" "k = 4 + sz" "\<not> sz \<noteq> maxPacketSize" and r: "?rec = (e, mc')"
    from ih [OF c(1) conjI [OF c(2,3)] refl c(4) r] show ?thesis using lo by simp
  qed (use lo left_over_cleanup [of mc2] in simp_all)
qed

lemma left_over_write_unmarked [progress]:
  "write_unmarked r mc = (e, mc') \<Longrightarrow> left_over mc' \<le> left_over mc"
  by (auto simp: write_unmarked_def Let_def split: if_split_asm dest: left_over_write_loop)

lemma left_over_close_unmarked [progress]:
  assumes "close_unmarked mc = Some (e, mc')"
  shows "left_over mc' \<le> left_over mc"
proof (cases "closed mc")
  case True
  then show ?thesis using assms left_over_cleanup [of mc] by (simp add: close_unmarked_def)
next
  case False
  let ?mc1 = "mc\<lparr>sequence := 0\<rparr>"
  obtain x where x: "takeSmallBuffer 5 (cbuf mc) = Some x"
    using assms False by (auto simp: close_unmarked_def Let_def)
  show ?thesis
  proof (cases x)
    case (Inl err)
    then show ?thesis using assms False x left_over_cleanup [of ?mc1]
      by (simp add: close_unmarked_def Let_def)
  next
    case (Inr r)
    obtain e2 mc2 where w: "write_unmarked r (put r 4 [comQuit] ?mc1) = (e2, mc2)"
      by (cases "write_unmarked r (put r 4 [comQuit] ?mc1)")
    then have "mc' = cleanup mc2" using assms False x Inr by (simp add: close_unmarked_def Let_def)
    then show ?thesis using left_over_write_unmarked [OF w] left_over_cleanup [of mc2] by simp
  qed
qed

lemma left_over_writePacket [progress]:
  "writePacket r mc = Some (e, mc') \<Longrightarrow> left_over mc' \<le> left_over mc"
  by (auto simp: writePacket_def Let_def split: if_split_asm
      dest!: left_over_write_loop left_over_close_unmarked)

lemma left_over_writeCommandPacket [progress]:
  "writeCommandPacket c mc = Some (e, mc') \<Longrightarrow> left_over mc' \<le> left_over mc"
proof -
  assume w: "writeCommandPacket c mc = Some (e, mc')"
  then obtain x where x: "takeSmallBuffer 5 (cbuf mc) = Some x"
    by (auto simp: writeCommandPacket_def Let_def)
  with w show ?thesis
    by (cases x) (auto simp: writeCommandPacket_def Let_def dest!: left_over_writePacket)
qed

lemma left_over_Close [progress]: "Close mc = Some (e, mc') \<Longrightarrow> left_over mc' \<le> left_over mc"
  by (auto simp: Close_def left_over_cleanup split: if_split_asm dest!: left_over_writeCommandPacket
      intro: order_trans [OF left_over_cleanup])

lemma fill_loop_arriving:
  "fill_loop need c n evs = (r, c', n', evs') \<Longrightarrow> length (arriving evs') \<le> length (arriving evs)"
proof (induction need c n evs rule: fill_loop.induct)
  case (2 need c n d e evs)
  consider (full) "length c - n < length d"
    | (more) "\<not> length c - n < length d" "e = None" "n + length d < need"
    | (stop) "\<not> length c - n < length d" "\<not> (e = None \<and> n + length d < need)" by blast
  then show ?case
  proof cases
    case more
    with 2(2) have step: "fill_loop need (overwrite c n d) (n + length d) evs = (r, c', n', evs')"
      by (auto simp: Let_def)
    from 2(1) [OF refl more(1) refl refl more(2,3) step] show ?thesis by simp
  qed (use 2(2) in \<open>auto simp: Let_def split: option.split_asm if_split_asm\<close>)
qed auto

lemma left_over_conn_read [progress]:
  assumes "conn_read n mc = (r, mc')"
  shows "left_over mc' \<le> left_over mc"
proof (cases r)
  case (Inr ref)
  then show ?thesis using conn_read_available assms by (fastforce simp: left_over_def)
next
  case (Inl e)
  obtain x b nc where rn: "readNext n (cbuf mc) (cnet mc) = (x, b, nc)" by (metis prod_cases3)
  with assms Inl have x: "x = Inl e" "mc' = mc\<lparr>cbuf := b, cnet := nc\<rparr>" by (auto simp: conn_read_def)
  then have "blen (cbuf mc) < n" using rn by (auto simp: readNext_def split: if_split_asm)
  then obtain e' where f: "fill n (cbuf mc) (cnet mc) = (e', b, nc)" and e': "e' \<noteq> None"
    using rn x(1) by (auto simp: readNext_def split: prod.split_asm option.split_asm)
  have "blen (fill_move n (cbuf mc)) = blen (cbuf mc)"
    by (auto simp: fill_move_def fill_dest_def set_slot_def Let_def split: prod.split)
  then have "blen b = blen (cbuf mc)" "length (arriving (script nc)) \<le> length (arriving (script (cnet mc)))"
    using f e' by (auto simp: fill_def Let_def split: if_split_asm prod.split_asm dest: fill_loop_arriving)
  then show ?thesis using x(2) by (simp add: left_over_def available_def)
qed

lemma left_over_read_failed [progress]:
  "read_failed mc = Some (r, mc') \<Longrightarrow> left_over mc' \<le> left_over mc"
  by (auto simp: read_failed_def split: option.split_asm dest!: left_over_Close)

lemma left_over_read_loop:
  "read_loop prev mc = Some (r, mc') \<Longrightarrow> left_over mc' \<le> left_over mc"
proof (induction "left_over mc" arbitrary: mc prev rule: less_induct)
  case less
  obtain x mc1 where r1: "conn_read 4 mc = (x, mc1)" by (cases "conn_read 4 mc")
  define n where "n = (case x of Inl e \<Rightarrow> 0 | Inr ref \<Rightarrow> pkt_len (content mc1 ref))"
  define mc2 where "mc2 = mc1\<lparr>sequence := sequence mc1 + 1\<rparr>"
  obtain y mc3 where r2: "conn_read n mc2 = (y, mc3)" by (cases "conn_read n mc2")
  have l: "left_over mc1 \<le> left_over mc" "left_over mc2 = left_over mc1" "left_over mc3 \<le> left_over mc2"
    using left_over_conn_read [OF r1] left_over_conn_read [OF r2] by (simp_all add: mc2_def)
  have ih: "left_over mc' \<le> left_over mc"
    if "x = Inr ref" "y = Inr ref2" "read_loop prev' mc3 = Some (r, mc')" for ref ref2 prev'
  proof -
    have "left_over mc3 < left_over mc"
      using conn_read_available [OF r1 [unfolded that(1)]] conn_read_available [OF r2 [unfolded that(2)]]
      by (simp add: left_over_def mc2_def)
    from less.hyps [OF this that(3)] this show ?thesis by simp
  qed
  show ?case
  proof (cases x)
    case (Inl e)
    then show ?thesis using less.prems r1 l
      by (auto simp: read_loop.simps [of prev mc] dest: left_over_read_failed)
  next
    case (Inr ref)
    note eq = less.prems [unfolded read_loop.simps [of prev mc] r1 Inr prod.case sum.case Let_def,
        folded mc2_def]
    have n: "n = pkt_len (content mc1 ref)" by (simp add: n_def Inr)
    show ?thesis
      using eq [folded n, unfolded r2 prod.case] l ih [OF Inr]
      by (auto split: if_split_asm option.split_asm sum.split_asm
          dest!: left_over_read_failed left_over_Close)
  qed
qed

lemma left_over_readPacket [progress]:
  "readPacket mc = Some (r, mc') \<Longrightarrow> left_over mc' \<le> left_over mc"
  by (auto simp: readPacket_def dest: left_over_read_loop)

end
