(* ===== verification/Frames.thy ===== *)
theory Frames
  imports Conn
begin

text \<open>
  The packet layer of \<open>Conn\<close> is correct: the frames of a payload as a specification, writing
  sends exactly them, reading gives the payload back, \<open>readPacket1\<close> forwards exactly what it
  consumes, and what happens on each error.
\<close>

section \<open>Frames\<close>

text \<open>
  The specification: a payload is cut into frames of at most 2^24 - 1 bytes, each with its
  length in three bytes and a sequence number; the last frame is a shorter one, if need be
  empty.
\<close>

definition le24 :: "nat \<Rightarrow> bytes" where
  "le24 n = [of_nat n, of_nat (n div 2 ^ 8), of_nat (n div 2 ^ 16)]"

function frames :: "byte \<Rightarrow> bytes \<Rightarrow> bytes" where
  "frames s p =
     (if length p < maxPacketSize then le24 (length p) @ [s] @ p
      else le24 maxPacketSize @ [s] @ take maxPacketSize p @ frames (s + 1) (drop maxPacketSize p))"
  by pat_completeness auto
termination
  by (relation "measure (length \<circ> snd)") (auto simp: maxPacketSize_def)

declare frames.simps [simp del]

text \<open>The number of frames.\<close>

definition frame_count :: "bytes \<Rightarrow> nat" where
  "frame_count p = length p div maxPacketSize + 1"

lemma frames_short: "length p < maxPacketSize \<Longrightarrow> frames s p = le24 (length p) @ [s] @ p"
  by (simp add: frames.simps)

lemma frames_long:
  "maxPacketSize \<le> length p \<Longrightarrow>
     frames s p = le24 maxPacketSize @ [s] @ take maxPacketSize p @ frames (s + 1) (drop maxPacketSize p)"
  by (subst frames.simps) simp

lemma length_le24 [simp]: "length (le24 n) = 3"
  by (simp add: le24_def)

lemma le24_max: "le24 maxPacketSize = [255, 255, 255]"
  by (simp add: le24_def maxPacketSize_def)

lemma frame_count_step:
  "maxPacketSize \<le> length p \<Longrightarrow> frame_count p = Suc (frame_count (drop maxPacketSize p))"
  by (simp add: frame_count_def maxPacketSize_def le_div_geq)

lemma ucast_drop_of_nat:
  assumes n: "n < 2 ^ 32"
  shows "(ucast (drop_bit k (of_nat n :: u32)) :: byte) = of_nat (n div 2 ^ k)"
proof -
  have "unat (of_nat n :: u32) = n"
    using n by (simp only: unsigned_of_nat) (simp add: take_bit_nat_eq_self)
  then have "unat (drop_bit k (of_nat n :: u32)) = n div 2 ^ k"
    using n by (subst unsigned_drop_bit_eq) (simp only: drop_bit_eq_div, simp add: take_bit_nat_eq_self)
  then show ?thesis by (metis of_nat_unat)
qed

lemma le24_putle: "n < 2 ^ 24 \<Longrightarrow> le24 n = putle 3 (of_nat n :: u32)"
  using ucast_drop_of_nat [of n 0] ucast_drop_of_nat [of n 8] ucast_drop_of_nat [of n 16]
  by (simp add: le24_def putle_bytes byte_at_def)

lemma pkt_len_le24:
  assumes "n < 2 ^ 24"
  shows "pkt_len (le24 n @ [s]) = n"
proof -
  have "pkt_len (le24 n @ [s]) = unat (getle (le24 n) :: u32)"
    unfolding pkt_len_def le24_def getle_forms [symmetric] by simp
  also have "\<dots> = unat (take_bit 24 (of_nat n :: u32))"
    by (simp only: le24_putle [OF assms] getle_putle) simp
  also have "\<dots> = n"
  proof -
    have "unat (of_nat n :: u32) = n"
      using assms by (simp only: unsigned_of_nat) (simp add: take_bit_nat_eq_self)
    then show ?thesis using assms by (simp only: unsigned_take_bit_eq take_bit_nat_eq_self)
  qed
  finally show ?thesis .
qed

section \<open>Writing sends the frames\<close>

text \<open>A network that takes every write: the state in which a command is sent.\<close>

definition writable :: "conn \<Rightarrow> bool" where
  "writable mc \<longleftrightarrow> wresults mc = [] \<and> \<not> netClosed mc \<and> (writeTimeout mc \<le> 0 \<or> wdeadlineErr mc = None)"

definition room :: "conn \<Rightarrow> sref \<Rightarrow> bool" where
  "room mc r \<longleftrightarrow> (case r of (a, off, len) \<Rightarrow>
     a < length (mem (cbuf mc)) \<and> off + len \<le> length (mem (cbuf mc) ! a) \<and> 4 \<le> len)"

lemma content_slice:
  "content mc (a, off, len) = take len (drop off (mem (cbuf mc) ! a))"
  by (simp add: content_def view_def)

lemma length_content: "room mc (a, off, len) \<Longrightarrow> length (content mc (a, off, len)) = len"
  by (auto simp: content_slice room_def)

lemma overwrite_at:
  assumes "n + length d \<le> length xs"
  shows "overwrite xs n d = take n xs @ d @ drop (n + length d) xs"
  by (simp add: overwrite_def)

text \<open>What writing a header does to the slice and to the array behind it.\<close>

lemma put_header:
  assumes "room mc (a, off, len)" and "length h = 4"
  shows "content (put (a, off, len) 0 h mc) (a, off, len) = h @ drop 4 (content mc (a, off, len))"
    and "room (put (a, off, len) 0 h mc) (a, off, len)"
    and "\<lbrakk>4 \<le> k; k \<le> len\<rbrakk> \<Longrightarrow> content (put (a, off, len) 0 h mc) (a, off + k, len - k) =
      drop k (content mc (a, off, len))"
  using assms
  by (auto simp: room_def content_slice put_def overwrite_def min_def drop_take
      add.commute)

lemma put_fields:
  "sequence (put r n d mc) = sequence mc" "sent (put r n d mc) = sent mc"
  "writeTimeout (put r n d mc) = writeTimeout mc" "wdeadlineErr (put r n d mc) = wdeadlineErr mc"
  "wresults (put r n d mc) = wresults mc" "netClosed (put r n d mc) = netClosed mc"
  "writable (put r n d mc) = writable mc"
  by (cases r; simp add: put_def writable_def)+

lemma put_window:
  "blen (cbuf (put r n d mc)) = blen (cbuf mc)" "bidx (cbuf (put r n d mc)) = bidx (cbuf mc)"
  "cur (cbuf (put r n d mc)) = cur (cbuf mc)"
  by (cases r; simp add: put_def)+

lemma net_writable:
  "writable mc \<Longrightarrow> net_write d mc = ((length d, None), mc\<lparr>sent := sent mc @ d\<rparr>)"
  by (simp add: net_write_def writable_def)

lemma put_inv: "room mc r \<Longrightarrow> n + length d \<le> sref_len r \<Longrightarrow> buf_inv (cbuf mc) \<Longrightarrow> buf_inv (cbuf (put r n d mc))"
proof -
  assume a: "room mc r" "n + length d \<le> sref_len r" "buf_inv (cbuf mc)"
  obtain x off len where r: "r = (x, off, len)" by (cases r)
  have x: "x < length (mem (cbuf mc))" and "off + n + length d \<le> length (mem (cbuf mc) ! x)"
    using a by (auto simp: r room_def sref_len_def)
  then have ow: "length (overwrite (mem (cbuf mc) ! x) (off + n) d) = length (mem (cbuf mc) ! x)"
    by (simp add: length_overwrite)
  have "roomy (cbuf (put r n d mc))"
    using a(3) x ow by (auto simp: buf_inv_def roomy_def put_def r dest!: set_update_subset_insert [THEN subsetD])
  then show "buf_inv (cbuf (put r n d mc))"
    using a(3) x ow unfolding buf_inv_def
    by (cases "cur (cbuf mc) = x") (auto simp: put_def r addr_ok_def split: option.splits)
qed

text \<open>One turn of the loop on a writable connection.\<close>

lemma write_loop_turn:
  assumes "writable mc" and "room mc (a, off, len)" and "pktLen = len - 4"
  defines "p \<equiv> drop 4 (content mc (a, off, len))"
  defines "sz \<equiv> min pktLen maxPacketSize"
  defines "mc1 \<equiv> put (a, off, len) 0 (le24 sz @ [sequence mc]) mc"
  defines "mc3 \<equiv> mc1\<lparr>sent := sent mc @ le24 sz @ [sequence mc] @ take sz p,
    sequence := sequence mc + 1\<rparr>"
  shows "write_loop pktLen (a, off, len) mc =
    (if sz \<noteq> maxPacketSize then (None, mc3)
     else write_loop (pktLen - sz) (a, off + sz, len - sz) mc3)"
proof -
  have hdr: "(if maxPacketSize \<le> pktLen then ([255, 255, 255], maxPacketSize)
      else ([of_nat pktLen, of_nat (pktLen div 2 ^ 8), of_nat (pktLen div 2 ^ 16)], pktLen)) = (le24 sz, sz)"
    using le24_max by (auto simp: sz_def le24_def min_def)
  have c: "content mc1 (a, off, len) = (le24 sz @ [sequence mc]) @ p"
    unfolding mc1_def p_def by (rule put_header(1) [OF assms(2)]) simp
  have lp: "length p = pktLen"
    using assms(2,3) by (auto simp: p_def length_content)
  have w: "writable mc1" "sequence mc1 = sequence mc" "sent mc1 = sent mc"
    using assms(1) by (simp_all add: mc1_def put_fields)
  have out: "take (4 + sz) (content mc1 (a, off, len)) = le24 sz @ [sequence mc] @ take sz p"
    by (simp add: c)
  have len_out: "length (le24 sz @ [sequence mc] @ take sz p) = 4 + sz"
    using lp by (simp add: sz_def)
  have nw: "net_write (take (4 + sz) (content mc1 (a, off, len))) mc1 =
      ((4 + sz, None), mc1\<lparr>sent := sent mc @ le24 sz @ [sequence mc] @ take sz p\<rparr>)"
    unfolding out net_writable [OF w(1)] len_out w(3) by (rule refl)
  have "\<not> (0 < writeTimeout mc1 \<and> wdeadlineErr mc1 \<noteq> None)"
    using w(1) by (auto simp: writable_def)
  then have dl: "(0 < writeTimeout mc1 \<and> wdeadlineErr mc1 \<noteq> None) = False" by simp
  show ?thesis
    unfolding write_loop.simps [of pktLen a off len mc] hdr
    unfolding Let_def prod.case mc1_def [symmetric] dl if_False nw
    by (simp add: mc3_def w(2))
qed

lemma write_loop_frames:
  assumes "writable mc" and "room mc (a, off, len)" and "pktLen = len - 4"
  shows "\<exists>b. write_loop pktLen (a, off, len) mc =
    (None, mc\<lparr>cbuf := b, sent := sent mc @ frames (sequence mc) (drop 4 (content mc (a, off, len))),
       sequence := sequence mc + of_nat (frame_count (drop 4 (content mc (a, off, len))))\<rparr>) \<and>
    blen b = blen (cbuf mc) \<and> bidx b = bidx (cbuf mc) \<and> cur b = cur (cbuf mc) \<and>
    (buf_inv (cbuf mc) \<longrightarrow> buf_inv b)"
  using assms
proof (induction pktLen arbitrary: off len mc rule: less_induct)
  case (less pktLen)
  define p where "p = drop 4 (content mc (a, off, len))"
  define sz where "sz = min pktLen maxPacketSize"
  define mc1 where "mc1 = put (a, off, len) 0 (le24 sz @ [sequence mc]) mc"
  define mc3 where "mc3 = mc1\<lparr>sent := sent mc @ le24 sz @ [sequence mc] @ take sz p,
    sequence := sequence mc + 1\<rparr>"
  note turn = write_loop_turn [OF less.prems, folded p_def sz_def, folded mc1_def, folded mc3_def]
  have lp: "length p = pktLen"
    using less.prems by (auto simp: p_def length_content)
  define b1 where "b1 = cbuf mc1"
  have mc3: "mc3 = mc\<lparr>cbuf := b1, sent := sent mc @ le24 sz @ [sequence mc] @ take sz p,
      sequence := sequence mc + 1\<rparr>"
    unfolding mc3_def b1_def mc1_def
    by (simp add: put_def)
  have b1: "blen b1 = blen (cbuf mc)" "bidx b1 = bidx (cbuf mc)" "cur b1 = cur (cbuf mc)"
    unfolding b1_def mc1_def by (rule put_window)+
  have bi1: "buf_inv b1" if "buf_inv (cbuf mc)"
    unfolding b1_def mc1_def
    by (rule put_inv [OF less.prems(2) _ that]) (use less.prems(2) in \<open>simp add: room_def sref_len_def\<close>)
  show ?case
  proof (cases "pktLen < maxPacketSize")
    case True
    then have "write_loop pktLen (a, off, len) mc = (None, mc3)" "take sz p = p" "sz = length p"
      using turn lp by (auto simp: sz_def)
    moreover have "frames (sequence mc) p = le24 (length p) @ [sequence mc] @ p" "frame_count p = 1"
      using True lp by (simp_all add: frames_short frame_count_def)
    ultimately show ?thesis using b1 bi1
      by (intro exI [of _ b1]) (simp add: p_def [symmetric] mc3)
  next
    case False
    then have sz: "sz = maxPacketSize" by (simp add: sz_def)
    have len: "maxPacketSize + 4 \<le> len" using False less.prems by (simp add: maxPacketSize_def)
    have c3: "content mc3 (a, off + maxPacketSize, len - maxPacketSize) =
        drop maxPacketSize (content mc (a, off, len))"
      using put_header(3) [OF less.prems(2), of "le24 sz @ [sequence mc]" maxPacketSize] len
      by (simp add: mc3_def mc1_def [symmetric] content_def maxPacketSize_def)
    have r3: "room mc3 (a, off + maxPacketSize, len - maxPacketSize)"
      using put_header(2) [OF less.prems(2), of "le24 sz @ [sequence mc]"] len
      by (simp add: mc3_def mc1_def [symmetric] room_def)
    have w3: "writable mc3"
      using less.prems(1) by (simp add: mc3_def mc1_def writable_def put_fields)
    have lt: "pktLen - maxPacketSize < pktLen" using False by (simp add: maxPacketSize_def)
    have "pktLen - maxPacketSize = len - maxPacketSize - 4" using less.prems(3) by simp
    from less.IH [OF lt w3 r3 this] obtain b where b:
      "write_loop (pktLen - maxPacketSize) (a, off + maxPacketSize, len - maxPacketSize) mc3 =
        (None, mc3\<lparr>cbuf := b, sent := sent mc3 @ frames (sequence mc3) (drop maxPacketSize p),
          sequence := sequence mc3 + of_nat (frame_count (drop maxPacketSize p))\<rparr>)"
      "blen b = blen (cbuf mc3)" "bidx b = bidx (cbuf mc3)" "cur b = cur (cbuf mc3)"
      "buf_inv (cbuf mc3) \<longrightarrow> buf_inv b"
      unfolding c3 by (auto simp: p_def add.commute)
    have long: "maxPacketSize \<le> length p" using False lp by simp
    have "write_loop pktLen (a, off, len) mc =
        (None, mc3\<lparr>cbuf := b, sent := sent mc3 @ frames (sequence mc3) (drop maxPacketSize p),
          sequence := sequence mc3 + of_nat (frame_count (drop maxPacketSize p))\<rparr>)"
      using turn b(1) sz by simp
    also have "mc3\<lparr>cbuf := b, sent := sent mc3 @ frames (sequence mc3) (drop maxPacketSize p),
          sequence := sequence mc3 + of_nat (frame_count (drop maxPacketSize p))\<rparr> =
        mc\<lparr>cbuf := b, sent := sent mc @ frames (sequence mc) p,
          sequence := sequence mc + of_nat (frame_count p)\<rparr>"
      unfolding frames_long [OF long] frame_count_step [OF long]
      by (simp add: mc3 sz add.assoc)
    finally show ?thesis using b(2-5) b1 bi1
      by (intro exI [of _ b]) (simp add: p_def [symmetric] mc3)
  qed
qed

section \<open>Reading gives the payload back\<close>

text \<open>The bytes still to be read on a connection, and a connection that can read them.\<close>

definition incoming :: "conn \<Rightarrow> bytes" where
  "incoming mc = src_rest (cbuf mc, cnet mc)"

definition readable :: "conn \<Rightarrow> bool" where
  "readable mc \<longleftrightarrow> buf_inv (cbuf mc) \<and> src_fine (cbuf mc, cnet mc)"

lemma incoming_upd [simp]:
  "incoming (mc\<lparr>sequence := x\<rparr>) = incoming mc" "readable (mc\<lparr>sequence := x\<rparr>) = readable mc"
  by (simp_all add: incoming_def readable_def)

lemma conn_read_chunk:
  assumes "readable mc" and "incoming mc = d @ tail" and "length d = n"
  obtains ref b nc where "conn_read n mc = (Inr ref, mc\<lparr>cbuf := b, cnet := nc\<rparr>)"
    "content (mc\<lparr>cbuf := b, cnet := nc\<rparr>) ref = d" "incoming (mc\<lparr>cbuf := b, cnet := nc\<rparr>) = tail"
    "readable (mc\<lparr>cbuf := b, cnet := nc\<rparr>)"
proof -
  from assms have "buf_inv (fst (cbuf mc, cnet mc))" "src_fine (cbuf mc, cnet mc)"
    "src_rest (cbuf mc, cnet mc) = d @ tail" by (simp_all add: readable_def incoming_def)
  from buf.read_chunk [OF this assms(3)] obtain ref s' where
    "src_read n (cbuf mc, cnet mc) = (Inr ref, s')" "fst (view (fst s') ref) = d" "src_rest s' = tail"
    "buf_inv (fst s')" "src_fine s'" by blast
  then show thesis
    by (intro that [where ref = ref and b = "fst s'" and nc = "snd s'"])
      (simp_all add: conn_read_def src_read_def content_def incoming_def readable_def split: prod.splits)
qed

lemma pkt_len_header: "n < 2 ^ 24 \<Longrightarrow> pkt_len (le24 n @ [s]) = n \<and> (le24 n @ [s]) ! 3 = s"
  by (simp add: pkt_len_le24) (simp add: nth_append)

text \<open>The bytes collected over the frames before this one.\<close>

definition collected :: "bytes option \<Rightarrow> bytes" where
  "collected prev = (case prev of None \<Rightarrow> [] | Some p \<Rightarrow> p)"

lemma read_loop_frames:
  assumes "readable mc" and "incoming mc = frames (sequence mc) p @ tail" and "p \<noteq> [] \<or> prev \<noteq> None"
  shows "\<exists>v b nc. read_loop prev mc =
      Some (Inr v, mc\<lparr>cbuf := b, cnet := nc, sequence := sequence mc + of_nat (frame_count p)\<rparr>) \<and>
    fst v = collected prev @ p \<and>
    incoming (mc\<lparr>cbuf := b, cnet := nc\<rparr>) = tail \<and> readable (mc\<lparr>cbuf := b, cnet := nc\<rparr>)"
  using assms
proof (induction "length p" arbitrary: p mc prev rule: less_induct)
  case less
  define n where "n = min (length p) maxPacketSize"
  define tl where "tl = (if length p < maxPacketSize then tail
    else frames (sequence mc + 1) (drop maxPacketSize p) @ tail)"
  have n: "n < 2 ^ 24" by (simp add: n_def maxPacketSize_def)
  have "incoming mc = (le24 n @ [sequence mc]) @ take n p @ tl"
    using less.prems(2) by (auto simp: tl_def n_def frames_short frames_long)
  then obtain ref b nc where r: "conn_read 4 mc = (Inr ref, mc\<lparr>cbuf := b, cnet := nc\<rparr>)"
    "content (mc\<lparr>cbuf := b, cnet := nc\<rparr>) ref = le24 n @ [sequence mc]"
    "incoming (mc\<lparr>cbuf := b, cnet := nc\<rparr>) = take n p @ tl"
    "readable (mc\<lparr>cbuf := b, cnet := nc\<rparr>)"
    by (rule conn_read_chunk [OF less.prems(1)]) simp
  define mc2 where "mc2 = mc\<lparr>cbuf := b, cnet := nc, sequence := sequence mc + 1\<rparr>"
  have mc2: "readable mc2" "incoming mc2 = take n p @ tl"
    using r(3,4) by (simp_all add: mc2_def)
  note hdr = pkt_len_header [OF n, of "sequence mc"]
  have ltk: "length (take n p) = n" by (simp add: n_def)
  show ?case
  proof (cases "n = 0")
    case True
    then have "p = []" by (auto simp: n_def maxPacketSize_def min_def split: if_splits)
    then obtain q where q: "prev = Some q" using less.prems(3) by auto
    have "read_loop prev mc = Some (Inr (q, []), mc2)"
      by (subst read_loop.simps) (simp add: r(1,2) hdr Let_def, simp add: True q mc2_def)
    then show ?thesis using \<open>p = []\<close> q r(3,4)
      by (auto simp: mc2_def collected_def frame_count_def tl_def maxPacketSize_def)
  next
    case False
    obtain ref2 b2 nc2 where r2: "conn_read n mc2 = (Inr ref2, mc2\<lparr>cbuf := b2, cnet := nc2\<rparr>)"
      "content (mc2\<lparr>cbuf := b2, cnet := nc2\<rparr>) ref2 = take n p"
      "incoming (mc2\<lparr>cbuf := b2, cnet := nc2\<rparr>) = tl"
      "readable (mc2\<lparr>cbuf := b2, cnet := nc2\<rparr>)"
      by (rule conn_read_chunk [OF mc2 ltk])
    define mc3 where "mc3 = mc2\<lparr>cbuf := b2, cnet := nc2\<rparr>"
    have mc3: "mc3 = mc\<lparr>cbuf := b2, cnet := nc2, sequence := sequence mc + 1\<rparr>"
      by (simp add: mc3_def mc2_def)
    note r2' = r2 [folded mc3_def]
    have step: "read_loop prev mc =
      (if n < maxPacketSize
       then Some (Inr (case prev of None \<Rightarrow> view (cbuf mc3) ref2 | Some q \<Rightarrow> (q @ take n p, [])), mc3)
       else read_loop (Some (collected prev @ take n p)) mc3)"
      by (subst read_loop.simps)
        (cases prev; simp add: r(1,2) hdr False Let_def mc2_def [symmetric] r2'(1,2) collected_def)
    show ?thesis
    proof (cases "length p < maxPacketSize")
      case True
      then have "n = length p" "tl = tail" "frame_count p = 1"
        by (simp_all add: n_def tl_def frame_count_def)
      moreover have "fst (view (cbuf mc3) ref2) = take n p" using r2'(2) by (simp add: content_def)
      ultimately show ?thesis using step True r2'(3,4)
        by (auto simp: mc3 collected_def split: option.splits)
    next
      case long: False
      then have n': "n = maxPacketSize" and tl': "tl = frames (sequence mc + 1) (drop n p) @ tail"
        by (simp_all add: n_def tl_def)
      have lt: "length (drop n p) < length p" using long n' by (simp add: maxPacketSize_def)
      have inc: "incoming mc3 = frames (sequence mc3) (drop n p) @ tail"
        using r2'(3) tl' by (simp add: mc3)
      from less.hyps [OF lt r2'(4) inc, of "Some (collected prev @ take n p)"]
      obtain v b' nc' where v: "read_loop (Some (collected prev @ take n p)) mc3 =
          Some (Inr v, mc3\<lparr>cbuf := b', cnet := nc', sequence := sequence mc3 + of_nat (frame_count (drop n p))\<rparr>)"
        "fst v = (collected prev @ take n p) @ drop n p"
        "incoming (mc3\<lparr>cbuf := b', cnet := nc'\<rparr>) = tail" "readable (mc3\<lparr>cbuf := b', cnet := nc'\<rparr>)"
        by (auto simp: collected_def)
      have "frame_count p = Suc (frame_count (drop n p))"
        using long n' by (simp add: frame_count_step)
      then show ?thesis using v step n'
        by (intro exI [of _ v] exI [of _ b'] exI [of _ nc']) (simp add: mc3 incoming_def readable_def add.assoc)
    qed
  qed
qed

section \<open>Forwarding\<close>

lemma conn_read_in_order:
  assumes "buf_inv (cbuf mc)" and "conn_read n mc = (r, mc')"
  shows "buf_inv (cbuf mc')"
    and "r = Inr ref \<Longrightarrow> incoming mc = content mc' ref @ incoming mc' \<and> length (content mc' ref) = n"
    and "mc' = mc\<lparr>cbuf := cbuf mc', cnet := cnet mc'\<rparr>"
proof -
  obtain x b nc where rn: "readNext n (cbuf mc) (cnet mc) = (x, b, nc)" by (metis prod_cases3)
  with assms(2) have eq: "r = x" "mc' = mc\<lparr>cbuf := b, cnet := nc\<rparr>" by (auto simp: conn_read_def)
  show "buf_inv (cbuf mc')" using readNext_inv(1) [OF assms(1) rn] eq by simp
  show "mc' = mc\<lparr>cbuf := cbuf mc', cnet := cnet mc'\<rparr>" using eq by simp
  show "incoming mc = content mc' ref @ incoming mc' \<and> length (content mc' ref) = n" if "r = Inr ref"
    using readNext_inv(4) [OF assms(1) rn, of ref] that eq
    by (simp add: incoming_def src_rest_def content_def)
qed

lemma read_loop1_forwards:
  assumes "buf_inv (cbuf mc)"
  shows "\<exists>fwd. (\<forall>dst. read_loop1 prev (mc, dst) =
      map_option (\<lambda>(r, mc'). (r, mc', dst @ fwd)) (read_loop prev mc)) \<and>
    prefix fwd (incoming mc) \<and>
    (\<forall>v mc'. read_loop prev mc = Some (Inr v, mc') \<longrightarrow>
       incoming mc = fwd @ incoming mc' \<and> buf_inv (cbuf mc'))"
  using assms
proof (induction "available (cbuf mc) (cnet mc)" arbitrary: mc prev rule: less_induct)
  case less
  obtain x mc1 where r1: "conn_read 4 mc = (x, mc1)" by (cases "conn_read 4 mc")
  note in1 = conn_read_in_order [OF less.prems r1]
  show ?case
  proof (cases x)
    case (Inl e)
    then show ?thesis using r1
      by (intro exI [of _ "[]"])
        (auto simp: read_loop.simps [of prev mc] read_loop1.simps [of prev mc] read_failed_def
          map_option_bind case_prod_unfold comp_def
          split: option.splits intro!: option.expand)
  next
    case (Inr ref)
    define h where "h = content mc1 ref"
    have h: "incoming mc = h @ incoming mc1" using in1(2) [OF Inr] by (simp add: h_def)
    define mc2 where "mc2 = mc1\<lparr>sequence := sequence mc1 + 1\<rparr>"
    have b2: "buf_inv (cbuf mc2)" "incoming mc2 = incoming mc1" using in1(1) by (simp_all add: mc2_def)
    obtain y mc3 where r2: "conn_read (pkt_len h) mc2 = (y, mc3)" by (cases "conn_read (pkt_len h) mc2")
    note in2 = conn_read_in_order [OF b2(1) r2]
    consider (seq) "h ! 3 \<noteq> sequence mc1" | (zero) "h ! 3 = sequence mc1" "pkt_len h = 0"
      | (err) e where "h ! 3 = sequence mc1" "pkt_len h \<noteq> 0" "y = Inl e"
      | (last) ref2 where "h ! 3 = sequence mc1" "pkt_len h \<noteq> 0" "y = Inr ref2" "pkt_len h < maxPacketSize"
      | (more) ref2 where "h ! 3 = sequence mc1" "pkt_len h \<noteq> 0" "y = Inr ref2" "\<not> pkt_len h < maxPacketSize"
      by (cases y) blast+
    then show ?thesis
    proof cases
      case seq
      then show ?thesis using r1 Inr h
        by (intro exI [of _ h])
          (auto simp: read_loop.simps [of prev mc] read_loop1.simps [of prev mc] h_def [symmetric] Let_def)
    next
      case zero
      then show ?thesis using r1 Inr h b2
        by (intro exI [of _ h])
          (auto simp: read_loop.simps [of prev mc] read_loop1.simps [of prev mc] h_def [symmetric] Let_def
            mc2_def [symmetric] map_option_bind case_prod_unfold comp_def split: option.splits
            intro!: option.expand)
    next
      case err
      then show ?thesis using r1 r2 Inr h
        by (intro exI [of _ h])
          (auto simp: read_loop.simps [of prev mc] read_loop1.simps [of prev mc] h_def [symmetric] Let_def
            mc2_def [symmetric] read_failed_def map_option_bind case_prod_unfold comp_def
            split: option.splits intro!: option.expand)
    next
      case last
      have i1: "incoming mc1 = content mc3 ref2 @ incoming mc3"
        using in2(2) [OF last(3)] b2(2) by simp
      show ?thesis using last r1 r2 Inr h in2(1)
        by (intro exI [of _ "h @ content mc3 ref2"])
          (auto simp: i1 read_loop.simps [of prev mc] read_loop1.simps [of prev mc] h_def [symmetric] Let_def
            mc2_def [symmetric])
    next
      case more
      define prev' where "prev' = Some ((case prev of None \<Rightarrow> [] | Some p \<Rightarrow> p) @ content mc3 ref2)"
      have "available (cbuf mc3) (cnet mc3) < available (cbuf mc) (cnet mc)"
        using conn_read_available [OF r1 [unfolded Inr]] conn_read_available [OF r2 [unfolded more(3)]]
        by (simp add: mc2_def)
      from less.hyps [OF this in2(1), of prev'] obtain fwd where f:
        "\<And>dst. read_loop1 prev' (mc3, dst) = map_option (\<lambda>(r, mc'). (r, mc', dst @ fwd)) (read_loop prev' mc3)"
        "prefix fwd (incoming mc3)"
        "\<And>v mc'. read_loop prev' mc3 = Some (Inr v, mc') \<Longrightarrow> incoming mc3 = fwd @ incoming mc' \<and> buf_inv (cbuf mc')"
        by blast
      have one: "read_loop prev mc = read_loop prev' mc3"
        "read_loop1 prev (mc, dst) = read_loop1 prev' (mc3, dst @ h @ content mc3 ref2)" for dst
        using more r1 r2 Inr
        by (simp_all add: read_loop.simps [of prev mc] read_loop1.simps [of prev mc] h_def [symmetric] Let_def
            mc2_def [symmetric] prev'_def)
      have i1: "incoming mc1 = content mc3 ref2 @ incoming mc3"
        using in2(2) [OF more(3)] b2(2) by simp
      show ?thesis using h f
        by (intro exI [of _ "h @ content mc3 ref2 @ fwd"]) (simp add: one i1)
    qed
  qed
qed

section \<open>Only frames are read\<close>

text \<open>The converse: whatever is read successfully was framed.\<close>

lemma putle_getle3: "putle 3 (getle [a, b, c] :: u32) = [a, b, c]"
proof -
  have "(ucast (ucast a OR push_bit 8 (ucast b) OR push_bit 16 (ucast c) :: u32) :: byte) = a"
    "(ucast (drop_bit 8 (ucast a OR push_bit 8 (ucast b) OR push_bit 16 (ucast c) :: u32)) :: byte) = b"
    "(ucast (drop_bit 16 (ucast a OR push_bit 8 (ucast b) OR push_bit 16 (ucast c) :: u32)) :: byte) = c"
    by (rule bit_word_eqI; auto simp: bit_simps dest: bit_imp_le_length)+
  then show ?thesis unfolding putle_bytes byte_at_def getle_forms [symmetric] by simp
qed

lemma getle3_bound: "unat (getle [a, b, c] :: u32) < 2 ^ 24"
proof -
  have "take_bit 24 (getle [a, b, c] :: u32) = getle [a, b, c]"
    unfolding getle_forms [symmetric]
    by (rule bit_word_eqI) (auto simp: bit_simps dest: bit_imp_le_length)
  then have "unat (getle [a, b, c] :: u32) = take_bit 24 (unat (getle [a, b, c] :: u32))"
    by (metis unsigned_take_bit_eq)
  then show ?thesis by (metis take_bit_nat_less_exp)
qed

lemma header_le24:
  assumes "length h = 4"
  shows "h = le24 (pkt_len h) @ [h ! 3] \<and> pkt_len h < 2 ^ 24"
proof -
  obtain a b c s where h: "h = [a, b, c, s]"
    using assms by (auto simp: length_Suc_conv numeral_eq_Suc)
  have len: "pkt_len h = unat (getle [a, b, c] :: u32)"
    unfolding pkt_len_def h getle_forms [symmetric] by simp
  then have "le24 (pkt_len h) = [a, b, c]"
    using le24_putle [OF getle3_bound [of a b c]] putle_getle3 [of a b c] by simp
  with len getle3_bound [of a b c] show ?thesis by (simp add: h)
qed

lemma read_loop_sound:
  assumes "buf_inv (cbuf mc)" and "read_loop prev mc = Some (Inr v, mc')"
  shows "\<exists>p. fst v = collected prev @ p \<and> (p \<noteq> [] \<or> prev \<noteq> None) \<and>
    incoming mc = frames (sequence mc) p @ incoming mc'"
  using assms
proof (induction "available (cbuf mc) (cnet mc)" arbitrary: mc prev rule: less_induct)
  case less
  obtain x mc1 where r1: "conn_read 4 mc = (x, mc1)" by (cases "conn_read 4 mc")
  note in1 = conn_read_in_order [OF less.prems(1) r1]
  obtain ref where x: "x = Inr ref"
    using less.prems(2) r1
    by (cases x) (auto simp: read_loop.simps [of prev mc] read_failed_def split: option.splits)
  define h where "h = content mc1 ref"
  have h: "incoming mc = h @ incoming mc1" "length h = 4" using in1(2) [OF x] by (simp_all add: h_def)
  define mc2 where "mc2 = mc1\<lparr>sequence := sequence mc1 + 1\<rparr>"
  have b2: "buf_inv (cbuf mc2)" "incoming mc2 = incoming mc1" using in1(1) by (simp_all add: mc2_def)
  have s1: "sequence mc1 = sequence mc" by (subst in1(3)) simp
  have eq: "h ! 3 = sequence mc1"
    using less.prems(2) r1 x
    by (auto simp: read_loop.simps [of prev mc] h_def [symmetric] Let_def split: if_splits)
  have hh: "h = le24 (pkt_len h) @ [sequence mc]" "pkt_len h < 2 ^ 24"
    using header_le24 [OF h(2)] eq s1 by simp_all
  obtain y mc3 where r2: "conn_read (pkt_len h) mc2 = (y, mc3)" by (cases "conn_read (pkt_len h) mc2")
  note in2 = conn_read_in_order [OF b2(1) r2]
  note unroll = less.prems(2) [unfolded read_loop.simps [of prev mc] r1 x prod.case sum.case Let_def,
      folded h_def, unfolded eq, folded mc2_def, unfolded r2 prod.case]
  show ?case
  proof (cases "pkt_len h = 0")
    case True
    with unroll obtain q where "prev = Some q" "v = (q, [])" "mc' = mc2"
      by (auto split: option.splits)
    with h hh True b2 show ?thesis
      by (intro exI [of _ "[]"]) (auto simp: collected_def frames_short maxPacketSize_def)
  next
    case False
    with unroll obtain ref2 where y: "y = Inr ref2"
      by (cases y) (auto simp: read_failed_def split: option.splits)
    note body = in2(2) [OF y]
    show ?thesis
    proof (cases "pkt_len h < maxPacketSize")
      case True
      with unroll False y have v: "mc' = mc3" "fst v = collected prev @ content mc3 ref2"
        by (auto simp: collected_def content_def split: option.splits)
      have "incoming mc = frames (sequence mc) (content mc3 ref2) @ incoming mc3"
        using h(1) hh(1) b2(2) body True by (simp add: frames_short)
      with v body False show ?thesis by (intro exI [of _ "content mc3 ref2"]) auto
    next
      case long: False
      then have n: "pkt_len h = maxPacketSize" using hh(2) by (simp add: maxPacketSize_def)
      from unroll False y long have rec: "read_loop (Some (collected prev @ content mc3 ref2)) mc3 = Some (Inr v, mc')"
        by (simp add: collected_def)
      have lt: "available (cbuf mc3) (cnet mc3) < available (cbuf mc) (cnet mc)"
        using conn_read_available [OF r1 [unfolded x]] conn_read_available [OF r2 [unfolded y]]
        by (simp add: mc2_def)
      from less.hyps [OF lt in2(1) rec] obtain p where p:
        "fst v = collected prev @ content mc3 ref2 @ p" "incoming mc3 = frames (sequence mc3) p @ incoming mc'"
        by (auto simp: collected_def)
      have s3: "sequence mc3 = sequence mc + 1" by (subst in2(3)) (simp add: mc2_def s1)
      have "incoming mc = frames (sequence mc) (content mc3 ref2 @ p) @ incoming mc'"
        using h(1) hh(1) b2(2) body n p(2) s3 by (simp add: frames_long)
      with p(1) body False show ?thesis by (intro exI [of _ "content mc3 ref2 @ p"]) auto
    qed
  qed
qed

section \<open>Commands and closing\<close>

text \<open>An idle connection: nothing unread, so the buffer can be taken for writing.\<close>

definition idle :: "conn \<Rightarrow> bool" where
  "idle mc \<longleftrightarrow> blen (cbuf mc) = 0 \<and> buf_inv (cbuf mc)"

lemma idle_room: "buf_inv b \<Longrightarrow> defaultBufSize \<le> length (mem b ! cur b) \<and> cur b < length (mem b)"
  by (auto simp: buf_inv_def roomy_def)

lemma writePacket_frames:
  assumes "writable mc" and "room mc (a, off, len)" and "\<not> creset mc"
    and "int (len - 4) \<le> maxAllowedPacket mc" and "content mc (a, off, len) = x @ p" and "length x = 4"
  shows "\<exists>b. writePacket (a, off, len) mc = Some (None, mc\<lparr>cbuf := b, sent := sent mc @ frames (sequence mc) p,
    sequence := sequence mc + of_nat (frame_count p)\<rparr>) \<and> blen b = blen (cbuf mc) \<and>
    (buf_inv (cbuf mc) \<longrightarrow> buf_inv b)"
  using write_loop_frames [OF assms(1,2) refl] assms(3-)
  by (auto simp: writePacket_def sref_len_def)

text \<open>The arguments of a command, written behind the header.\<close>

lemma put_args:
  assumes "a < length (mem (cbuf mc))" and "4 + length d \<le> length (mem (cbuf mc) ! a)"
  shows "content (put (a, 0, 4 + length d) 4 d mc) (a, 0, 4 + length d) = take 4 (mem (cbuf mc) ! a) @ d"
    and "room (put (a, 0, 4 + length d) 4 d mc) (a, 0, 4 + length d)"
  using assms by (auto simp: room_def content_slice put_def overwrite_def)

lemma put_command:
  "creset (put r n d mc) = creset mc" "maxAllowedPacket (put r n d mc) = maxAllowedPacket mc"
  "put r n d mc = mc\<lparr>cbuf := cbuf (put r n d mc)\<rparr>"
  by (cases r; simp add: put_def)+

lemma write_args:
  assumes "writable mc" and "\<not> creset mc" and "int (length d) \<le> maxAllowedPacket mc"
    and "a < length (mem (cbuf mc))" and "4 + length d \<le> length (mem (cbuf mc) ! a)"
  shows "\<exists>b. writePacket (a, 0, 4 + length d) (put (a, 0, 4 + length d) 4 d mc) =
    Some (None, mc\<lparr>cbuf := b, sent := sent mc @ frames (sequence mc) d,
      sequence := sequence mc + of_nat (frame_count d)\<rparr>) \<and> blen b = blen (cbuf mc) \<and>
    (buf_inv (cbuf mc) \<longrightarrow> buf_inv b)"
proof -
  let ?mc1 = "put (a, 0, 4 + length d) 4 d mc"
  have "length (take 4 (mem (cbuf mc) ! a)) = 4" using assms(5) by simp
  from writePacket_frames [of ?mc1, OF _ put_args(2) [OF assms(4,5)] _ _ put_args(1) [OF assms(4,5)] this]
  obtain b where b: "writePacket (a, 0, 4 + length d) ?mc1 =
      Some (None, ?mc1\<lparr>cbuf := b, sent := sent ?mc1 @ frames (sequence ?mc1) d,
        sequence := sequence ?mc1 + of_nat (frame_count d)\<rparr>)" "blen b = blen (cbuf ?mc1)"
      "buf_inv (cbuf ?mc1) \<longrightarrow> buf_inv b"
    using assms(1-3) by (auto simp: put_fields put_command(1,2))
  have "?mc1\<lparr>cbuf := b, sent := sent ?mc1 @ frames (sequence ?mc1) d,
        sequence := sequence ?mc1 + of_nat (frame_count d)\<rparr> =
      mc\<lparr>cbuf := b, sent := sent mc @ frames (sequence mc) d,
        sequence := sequence mc + of_nat (frame_count d)\<rparr>"
    by (simp add: put_def)
  moreover have "buf_inv (cbuf mc) \<Longrightarrow> buf_inv (cbuf ?mc1)"
    by (rule put_inv) (use assms(4,5) in \<open>simp_all add: room_def sref_len_def\<close>)
  ultimately show ?thesis using b by (auto simp: put_window)
qed

lemma writeCommandPacket_frames:
  assumes "writable mc" and "idle mc" and "\<not> creset mc" and "1 \<le> maxAllowedPacket mc"
  shows "\<exists>b. writeCommandPacket c mc = Some (None, mc\<lparr>cbuf := b, sent := sent mc @ [1, 0, 0, 0, c],
    sequence := 1\<rparr>) \<and> blen b = 0 \<and> buf_inv b"
proof -
  have "takeSmallBuffer (4 + 1) (cbuf mc) = Some (Inr (cur (cbuf mc), 0, 4 + length [c]))"
    using assms(2) idle_room [of "cbuf mc"] by (auto simp: takeSmallBuffer_def idle_def defaultBufSize_def)
  moreover have "frames 0 [c] = [1, 0, 0, 0, c]" "frame_count [c] = 1"
    by (simp_all add: frames_short le24_def maxPacketSize_def frame_count_def)
  ultimately show ?thesis
    using write_args [of "mc\<lparr>sequence := 0\<rparr>" "[c]" "cur (cbuf mc)"] assms
      idle_room [of "cbuf mc"]
    by (auto simp: writeCommandPacket_def Let_def idle_def writable_def defaultBufSize_def)
qed

lemma cleanup_closed: "closed (cleanup mc)" "sent (cleanup mc) = sent mc"
  "closed mc \<Longrightarrow> cleanup mc = mc"
  by (auto simp: cleanup_def clearResult_def Let_def)

lemma cleanup_network:
  "\<not> closed mc \<Longrightarrow> netConn mc \<Longrightarrow> netClosed (cleanup mc) \<and> affectedRows (cleanup mc) = [] \<and> insertIds (cleanup mc) = []"
  by (simp add: cleanup_def clearResult_def Let_def)

text \<open>
  After \<open>Close\<close> a connection is closed whatever the write of \<open>COM_QUIT\<close> did, and on a
  buffer in its invariant neither closing nor reading panics.
\<close>

lemma Close_closed: "Close mc = Some (e, mc') \<Longrightarrow> closed mc'"
  by (auto simp: Close_def cleanup_closed split: if_splits)

lemma takeSmallBuffer_returns:
  "buf_inv b \<Longrightarrow> n \<le> defaultBufSize \<Longrightarrow> takeSmallBuffer n b \<noteq> None"
  using idle_room [of b] by (simp add: takeSmallBuffer_def)

lemma close_unmarked_returns: "buf_inv (cbuf mc) \<Longrightarrow> close_unmarked mc \<noteq> None"
  using takeSmallBuffer_returns [of "cbuf mc" 5]
  by (cases "takeSmallBuffer 5 (cbuf mc)")
    (auto simp: close_unmarked_def Let_def defaultBufSize_def case_prod_unfold split: sum.split)

lemma writePacket_returns:
  "buf_inv (cbuf mc) \<Longrightarrow> writePacket r mc \<noteq> None"
  using close_unmarked_returns [of "mc\<lparr>creset := False\<rparr>"]
  by (auto simp: writePacket_def Let_def split: option.splits)

lemma Close_returns:
  assumes "buf_inv (cbuf mc)"
  shows "Close mc \<noteq> None"
proof -
  let ?r = "(cur (cbuf mc), 0, 5)"
  have r: "room (mc\<lparr>sequence := 0\<rparr>) ?r"
    using idle_room [OF assms] by (auto simp: room_def defaultBufSize_def)
  have "buf_inv (cbuf (put ?r 4 [comQuit] (mc\<lparr>sequence := 0\<rparr>)))"
    by (rule put_inv [OF r]) (use assms in \<open>simp_all add: sref_len_def\<close>)
  from writePacket_returns [OF this, of ?r] takeSmallBuffer_returns [OF assms, of 5] show ?thesis
    by (auto simp: Close_def writeCommandPacket_def takeSmallBuffer_def Let_def defaultBufSize_def
        split: if_splits)
qed

lemma read_failed_returns: "buf_inv (cbuf mc) \<Longrightarrow> read_failed mc \<noteq> None"
  using Close_returns [of mc] by (auto simp: read_failed_def split: option.splits)

lemma read_loop_returns:
  assumes "buf_inv (cbuf mc)"
  shows "read_loop prev mc \<noteq> None"
  using assms
proof (induction "available (cbuf mc) (cnet mc)" arbitrary: mc prev rule: less_induct)
  case less
  obtain x mc1 where r1: "conn_read 4 mc = (x, mc1)" by (cases "conn_read 4 mc")
  note in1 = conn_read_in_order [OF less.prems r1]
  show ?case
  proof (cases x)
    case (Inl e)
    then show ?thesis using r1 read_failed_returns [OF in1(1)] by (simp add: read_loop.simps [of prev mc])
  next
    case (Inr ref)
    define h where "h = content mc1 ref"
    define mc2 where "mc2 = mc1\<lparr>sequence := sequence mc1 + 1\<rparr>"
    have b2: "buf_inv (cbuf mc2)" using in1(1) by (simp add: mc2_def)
    obtain y mc3 where r2: "conn_read (pkt_len h) mc2 = (y, mc3)" by (cases "conn_read (pkt_len h) mc2")
    note in2 = conn_read_in_order [OF b2 r2]
    have more: "read_loop prev' mc3 \<noteq> None" if "y = Inr ref2" for ref2 prev'
    proof -
      have "available (cbuf mc3) (cnet mc3) < available (cbuf mc) (cnet mc)"
        using conn_read_available [OF r1 [unfolded Inr]] conn_read_available [OF r2 [unfolded that]]
        by (simp add: mc2_def)
      from less.hyps [OF this in2(1)] show ?thesis .
    qed
    have "read_failed mc3 \<noteq> None" "Close mc2 \<noteq> None"
      using read_failed_returns [OF in2(1)] Close_returns [OF b2] .
    then show ?thesis using r1 r2 Inr more
      by (auto simp: read_loop.simps [of prev mc] h_def [symmetric] mc2_def [symmetric] Let_def
          split: option.splits sum.splits)
  qed
qed

lemma readPacket_returns:
  assumes "buf_inv (cbuf mc)"
  obtains r mc' where "readPacket mc = Some (r, mc')"
  using read_loop_returns [OF assms, of None] by (auto simp: readPacket_def)

lemma command_frames:
  assumes "writable mc" and "idle mc" and "\<not> creset mc"
    and "int (1 + length arg) \<le> maxAllowedPacket mc"
  shows "\<exists>b. writeCommandPacketStr command arg mc =
      Some (None, mc\<lparr>cbuf := b, sent := sent mc @ frames 0 (command # arg),
        sequence := of_nat (frame_count (command # arg))\<rparr>) \<and> blen b = 0 \<and> buf_inv b"
proof -
  let ?n = "1 + length arg + 4"
  obtain a b where t: "takeBuffer ?n (cbuf mc) = (Inr (a, 0, ?n), b)"
    "a < length (mem b)" "?n \<le> length (mem b ! a)" "blen b = 0" "buf_inv b"
  proof (cases "?n \<le> length (mem (cbuf mc) ! cur (cbuf mc))")
    case True
    then show thesis using assms(2)
      by (intro that [where a = "cur (cbuf mc)" and b = "cbuf mc"])
        (auto simp: takeBuffer_def idle_def buf_inv_def)
  next
    case False
    let ?b = "(cbuf mc)\<lparr>mem := mem (cbuf mc) @ [replicate ?n 0]\<rparr>"
    let ?b' = "if ?n < maxPacketSize then ?b\<lparr>cur := length (mem (cbuf mc))\<rparr> else ?b"
    have "defaultBufSize \<le> ?n"
      using idle_room [of "cbuf mc"] assms(2) False by (simp add: idle_def)
    then show thesis using assms(2) False
      by (intro that [where a = "length (mem (cbuf mc))" and b = ?b'])
        (auto simp: takeBuffer_def idle_def Let_def nth_append buf_inv_def roomy_def addr_ok_def
          split: option.splits)
  qed
  let ?mc1 = "mc\<lparr>sequence := 0, cbuf := b\<rparr>"
  have "writable ?mc1" using assms(1) by (simp add: writable_def)
  with write_args [of ?mc1 "command # arg" a] assms(3,4) t(2-5)
  obtain b' where "writePacket (a, 0, ?n) (put (a, 0, ?n) 4 (command # arg) ?mc1) =
      Some (None, ?mc1\<lparr>cbuf := b', sent := sent mc @ frames 0 (command # arg),
        sequence := of_nat (frame_count (command # arg))\<rparr>)" "blen b' = 0" "buf_inv b'"
    by (auto simp: add.commute)
  with t(1) show ?thesis
    by (intro exI [of _ b']) (simp add: writeCommandPacketStr_def Let_def)
qed

text \<open>Neither writing nor closing cancels a connection.\<close>

lemma keeps_canceled:
  "canceled (snd (net_write d mc)) = canceled mc" "canceled (put r k d mc) = canceled mc"
  "canceled (cleanup mc) = canceled mc"
  by (auto simp: net_write_def put_def cleanup_def clearResult_def Let_def split: list.split prod.split)

lemma write_loop_canceled: "canceled (snd (write_loop n r mc)) = canceled mc"
proof (induction n arbitrary: r mc rule: less_induct)
  case (less n)
  have "n - maxPacketSize < n" if "maxPacketSize \<le> n" using that by (simp add: maxPacketSize_def)
  moreover obtain a off len where "r = (a, off, len)" by (cases r)
  ultimately show ?case using less
    by (cases "maxPacketSize \<le> n"; hypsubst)
      (subst write_loop.simps, simp add: Let_def case_prod_unfold keeps_canceled)+
qed

lemma Close_canceled: "Close mc = Some (e, mc') \<Longrightarrow> canceled mc' = canceled mc"
proof -
  have c: "close_unmarked m = Some y \<Longrightarrow> canceled (snd y) = canceled m" for m y
    by (cases "takeSmallBuffer 5 (cbuf m)"; cases "the (takeSmallBuffer 5 (cbuf m))") (auto simp: close_unmarked_def write_unmarked_def keeps_canceled Let_def case_prod_unfold
        write_loop_canceled split: if_splits sum.splits)
  have p: "writePacket r m = Some y \<Longrightarrow> canceled (snd y) = canceled m" for r m y
    by (auto simp: writePacket_def Let_def case_prod_unfold write_loop_canceled dest!: c split: if_splits)
  have q: "writeCommandPacket comQuit m = Some y \<Longrightarrow> canceled (snd y) = canceled m" for m y
    by (cases "takeSmallBuffer 5 (cbuf m)"; cases "the (takeSmallBuffer 5 (cbuf m))") (auto simp: writeCommandPacket_def Let_def keeps_canceled dest!: p split: if_splits sum.splits)
  show "Close mc = Some (e, mc') \<Longrightarrow> canceled mc' = canceled mc"
    by (auto simp: Close_def keeps_canceled case_prod_unfold dest!: q split: if_splits)
qed

text \<open>A stream that ends inside the first frame of a packet.\<close>

lemma truncated_packet:
  assumes "readable mc" and "canceled mc = None" and "strict_prefix (incoming mc) (frames (sequence mc) p)"
    and "p \<noteq> []" and "length p < maxPacketSize"
  shows "\<exists>mc'. readPacket mc = Some (Inl ErrInvalidConn, mc') \<and> closed mc' \<and> canceled mc' = None"
proof -
  have bi: "buf_inv (cbuf mc)" and fine: "src_fine (cbuf mc, cnet mc)"
    using assms(1) by (simp_all add: readable_def)
  obtain x mc1 where r1: "conn_read 4 mc = (x, mc1)" by (cases "conn_read 4 mc")
  note in1 = conn_read_in_order [OF bi r1]
  have mc1: "canceled mc1 = None" "sequence mc1 = sequence mc" using assms(2) by (subst in1(3), simp)+
  have fail: "\<exists>m'. read_failed m = Some (Inl ErrInvalidConn, m') \<and> closed m' \<and> canceled m' = None"
    if "buf_inv (cbuf m)" "canceled m = None" for m
    using Close_returns [OF that(1)] that(2) Close_canceled [of m] Close_closed [of m] by (auto simp: read_failed_def)
  obtain u where u: "frames (sequence mc) p = incoming mc @ u" "u \<noteq> []"
    using assms(3) by (auto simp: strict_prefix_def prefix_def)
  note f = frames_short [OF assms(5), of "sequence mc"]
  have pl: "length p < 2 ^ 24" using assms(5) by (simp add: maxPacketSize_def)
  show ?thesis
  proof (cases x)
    case (Inl e)
    then show ?thesis using r1 fail [OF in1(1) mc1(1)]
      by (simp add: readPacket_def read_loop.simps [of None mc])
  next
    case (Inr ref)
    note hd = in1(2) [OF Inr]
    have "(le24 (length p) @ [sequence mc]) @ p = content mc1 ref @ incoming mc1 @ u"
      using u(1) f hd by simp
    then have h: "content mc1 ref = le24 (length p) @ [sequence mc]" "p = incoming mc1 @ u"
      using hd by (auto simp: append_eq_append_conv simp del: append_assoc)
    then have short: "length (incoming mc1) < length p" using u(2) by simp
    define mc2 where "mc2 = mc1\<lparr>sequence := sequence mc1 + 1\<rparr>"
    obtain y mc3 where r2: "conn_read (length p) mc2 = (y, mc3)" by (cases "conn_read (length p) mc2")
    have "buf_inv (cbuf mc2)" using in1(1) by (simp add: mc2_def)
    note in2 = conn_read_in_order [OF this r2]
    have inc: "incoming mc2 = incoming mc1" and "canceled mc3 = None"
      using mc1 by (simp add: mc2_def, subst in2(3), simp add: mc2_def)
    obtain e where y: "y = Inl e"
    proof (cases y)
      case (Inr ref2)
      then show thesis using in2(2) [OF Inr] inc short by simp
    qed
    have "readPacket mc = read_failed mc3"
      using h(1) r1 r2 Inr y pkt_len_header [OF pl, of "sequence mc"] assms(4) mc1(2)
      by (simp add: readPacket_def read_loop.simps [of None mc] Let_def mc2_def)
    then show ?thesis using fail [OF in2(1) \<open>canceled mc3 = None\<close>] by simp
  qed
qed

section \<open>Properties\<close>

text \<open>A connection as \<open>Connect\<close> leaves it, with the reads to come.\<close>

definition fresh_conn :: "read_event list \<Rightarrow> conn" where
  "fresh_conn evs =
     \<lparr>cbuf = newBuffer, cnet = \<lparr>script = evs, deadlineErr = None\<rparr>, sent = [], wresults = [],
      wdeadlineErr = None, checkErr = None, netConn = True, netClosed = False,
      cfg = \<lparr>checkConnLiveness = True, rejectReadOnly = False, columnsWithAlias = False,
        allowAllFiles = False, interpolates = False\<rparr>,
      affectedRows = [], insertIds = [], maxAllowedPacket = 67108864, maxWriteSize = 16777215,
      parseTime = False, floatErr = (\<lambda>_ _. None),
      locals = \<lparr>readerRegister = (\<lambda>_. None), fileRegister = (\<lambda>_. False), openFile = (\<lambda>_. Inl IoEOF)\<rparr>,
      writeTimeout = 0, cstatus = 2,
      sequence = 0, creset = False, canceled = None, closed = False\<rparr>"

lemma fresh_conn:
  "writable (fresh_conn evs)" "idle (fresh_conn evs)"
  "incoming (fresh_conn evs) = arriving evs" "clean evs \<Longrightarrow> readable (fresh_conn evs)"
  by (simp_all add: fresh_conn_def writable_def idle_def newBuffer_def incoming_def readable_def
      src_rest_def src_fine_def pending_def newBuffer_inv [unfolded newBuffer_def] buf_inv_def addr_ok_def
      roomy_def)

text \<open>C20: A command sent on an idle connection reaches the server as the frames of the command
  byte and its argument, cut at 2^24 - 1 bytes, numbered from 0, whatever the length up to
  \<open>maxAllowedPacket\<close>; no error is reported and the buffer is left empty for the reply.\<close>

theorem command_sends_frames:
  assumes "writable mc" and "idle mc" and "\<not> creset mc"
    and "int (1 + length arg) \<le> maxAllowedPacket mc"
  shows "\<exists>b. writeCommandPacketStr command arg mc =
      Some (None, mc\<lparr>cbuf := b, sent := sent mc @ frames 0 (command # arg),
        sequence := of_nat (frame_count (command # arg))\<rparr>) \<and> blen b = 0 \<and> buf_inv b"
  using assms by (rule command_frames)

theorem command_sends_frames_witness:
  "\<exists>b. writeCommandPacketStr comQuery (replicate 20000000 65) (fresh_conn []) =
     Some (None, (fresh_conn [])\<lparr>cbuf := b, sent := frames 0 (comQuery # replicate 20000000 65), sequence := 2\<rparr>) \<and>
     blen b = 0"
proof -
  have "int (1 + length (replicate 20000000 65)) \<le> maxAllowedPacket (fresh_conn [])"
    and "\<not> creset (fresh_conn [])" "sent (fresh_conn []) = []"
    by (simp_all add: fresh_conn_def)
  moreover have "frame_count (comQuery # replicate 20000000 65) = 2"
    by (simp add: frame_count_def maxPacketSize_def)
  ultimately show ?thesis
    using command_sends_frames [OF fresh_conn(1,2), of "[]" "replicate 20000000 65" comQuery] by auto
qed

text \<open>C19: Reading gives the payload back: on a stream that starts with the frames of a non-empty
  payload, \<open>readPacket\<close> returns the payload, leaves exactly the rest of the stream, and advances
  the sequence number by the number of frames, however the stream is cut into reads.\<close>

theorem readPacket_reads_frames:
  assumes "readable mc" and "incoming mc = frames (sequence mc) p @ tail" and "p \<noteq> []"
  shows "\<exists>v b nc. readPacket mc =
      Some (Inr v, mc\<lparr>cbuf := b, cnet := nc, sequence := sequence mc + of_nat (frame_count p)\<rparr>) \<and>
    fst v = p \<and> incoming (mc\<lparr>cbuf := b, cnet := nc\<rparr>) = tail \<and> readable (mc\<lparr>cbuf := b, cnet := nc\<rparr>)"
  using read_loop_frames [OF assms(1,2), of None] assms(3)
  by (simp add: readPacket_def collected_def)

theorem readPacket_reads_frames_witness:
  "\<exists>v b nc. readPacket (fresh_conn [([2, 0], None), ([0, 0, 10, 11, 1], None)]) =
     Some (Inr v, (fresh_conn [([2, 0], None), ([0, 0, 10, 11, 1], None)])\<lparr>cbuf := b, cnet := nc, sequence := 1\<rparr>) \<and>
     fst v = [10, 11]"
proof -
  let ?mc = "fresh_conn [([2, 0], None), ([0, 0, 10, 11, 1], None)]"
  have "frames (sequence ?mc) [10, 11] @ [1] = [2, 0, 0, 0, 10, 11, 1]" "sequence ?mc = 0"
    by (simp_all add: frames_short le24_def maxPacketSize_def fresh_conn_def)
  then show ?thesis
    using readPacket_reads_frames [of ?mc "[10, 11]" "[1]"] fresh_conn(3,4)
    by (auto simp: frame_count_def maxPacketSize_def)
qed

text \<open>C22: Whatever \<open>readPacket\<close> returns without an error was a well-formed sequence of frames on
  the stream: non-empty, with the sequence numbers the connection expected, and nothing but
  those frames has been consumed.\<close>

theorem readPacket_only_frames:
  assumes "buf_inv (cbuf mc)" and "readPacket mc = Some (Inr v, mc')"
  shows "fst v \<noteq> [] \<and> incoming mc = frames (sequence mc) (fst v) @ incoming mc'"
  using read_loop_sound [OF assms(1), of None] assms(2)
  by (auto simp: readPacket_def collected_def)

theorem readPacket_only_frames_witness:
  "\<exists>v mc'. readPacket (fresh_conn [([1, 0, 0, 0, 7, 9], None)]) = Some (Inr v, mc') \<and>
     [1, 0, 0, 0, 7, 9] = frames 0 (fst v) @ incoming mc'"
proof -
  let ?mc = "fresh_conn [([1, 0, 0, 0, 7, 9], None)]"
  have "frames (sequence ?mc) [7] @ [9] = [1, 0, 0, 0, 7, 9]" "sequence ?mc = 0"
    by (simp_all add: frames_short le24_def maxPacketSize_def fresh_conn_def)
  then obtain v mc' where r: "read_loop None ?mc = Some (Inr v, mc')"
    using read_loop_frames [of ?mc "[7]" "[9]" None] fresh_conn(3,4) by auto
  have "buf_inv (cbuf ?mc)" using fresh_conn(2) by (simp add: idle_def)
  from readPacket_only_frames [OF this, of v mc'] r fresh_conn(3) \<open>sequence ?mc = 0\<close> show ?thesis
    by (auto simp: readPacket_def)
qed

text \<open>C21: \<open>readPacket1\<close>, the variant the proxy adds, is \<open>readPacket\<close> plus forwarding: same result
  and same connection state, and on success the client has been written exactly the bytes taken
  from the replica's stream; on an error, a prefix of that stream.\<close>

theorem readPacket1_forwards:
  assumes "buf_inv (cbuf mc)"
  shows "\<exists>fwd. readPacket1 (mc, dst) = map_option (\<lambda>(r, mc'). (r, mc', dst @ fwd)) (readPacket mc) \<and>
    prefix fwd (incoming mc) \<and>
    (\<forall>v mc'. readPacket mc = Some (Inr v, mc') \<longrightarrow> incoming mc = fwd @ incoming mc')"
  using read_loop1_forwards [OF assms, of None] by (auto simp: readPacket_def readPacket1_def)

theorem readPacket1_forwards_witness:
  "\<exists>v mc'. readPacket1 (fresh_conn [([1, 0, 0, 0, 7, 9], None)], []) = Some (Inr v, mc', [1, 0, 0, 0, 7]) \<and>
     incoming mc' = [9]"
proof -
  let ?mc = "fresh_conn [([1, 0, 0, 0, 7, 9], None)]"
  have "frames (sequence ?mc) [7] @ [9] = [1, 0, 0, 0, 7, 9]" "sequence ?mc = 0"
    by (simp_all add: frames_short le24_def maxPacketSize_def fresh_conn_def)
  then obtain v b nc where r: "readPacket ?mc = Some (Inr v, ?mc\<lparr>cbuf := b, cnet := nc, sequence := 1\<rparr>)"
    "incoming (?mc\<lparr>cbuf := b, cnet := nc, sequence := 1\<rparr>) = [9]"
    using read_loop_frames [of ?mc "[7]" "[9]" None] fresh_conn(3,4)
    by (auto simp: readPacket_def frame_count_def maxPacketSize_def incoming_def)
  have "buf_inv (cbuf ?mc)" using fresh_conn(2) by (simp add: idle_def)
  from readPacket1_forwards [OF this, of "[]"] r fresh_conn(3) show ?thesis by fastforce
qed

text \<open>When a write of a later frame takes no byte, \<open>writePacket\<close> reports that nothing was
  written, although the first frame has been sent: the test meant for the first frame only,
  \<open>pktLen == len(data)-4\<close>, holds at every frame.  The connection stays open, and
  \<open>markBadConn\<close> turns the error into the one that makes \<open>database/sql\<close> run the statement again.\<close>

theorem split_write_reported_unwritten:
  assumes "room mc (a, off, len)" and "maxPacketSize \<le> len - 4" and "\<not> creset mc"
    and "int (len - 4) \<le> maxAllowedPacket mc" and "writeTimeout mc = 0" and "\<not> netClosed mc"
    and "canceled mc = None" and "wresults mc = [(4 + maxPacketSize, None), (0, Some e)]"
  shows "\<exists>mc'. writePacket (a, off, len) mc = Some (Some ErrBadConnNoWrite, mc') \<and>
    length (sent mc') = length (sent mc) + 4 + maxPacketSize \<and> closed mc' = closed mc \<and>
    markBadConn (Some ErrBadConnNoWrite) = Some DriverErrBadConn"
proof -
  define mc1 where "mc1 = put (a, off, len) 0 (le24 maxPacketSize @ [sequence mc]) mc"
  define d where "d = take (4 + maxPacketSize) (content mc1 (a, off, len))"
  define mc2 where "mc2 = mc1\<lparr>sent := sent mc @ d, wresults := [(0, Some e)], sequence := sequence mc + 1\<rparr>"
  have ld: "length d = 4 + maxPacketSize"
  proof -
    have "room mc1 (a, off, len)" unfolding mc1_def by (rule put_header(2) [OF assms(1)]) simp
    then show ?thesis using assms(2) unfolding d_def by (simp add: length_content) (simp add: maxPacketSize_def)
  qed
  have f1: "writeTimeout mc1 = 0" "sequence mc1 = sequence mc" "\<not> netClosed mc1" "sent mc1 = sent mc"
    "wresults mc1 = [(4 + maxPacketSize, None), (0, Some e)]"
    using assms by (simp_all add: mc1_def put_fields)
  have nw: "net_write d mc1 = ((4 + maxPacketSize, None), mc1\<lparr>sent := sent mc @ d, wresults := [(0, Some e)]\<rparr>)"
    using f1 ld by (simp add: net_write_def)
  have turn: "write_loop (len - 4) (a, off, len) mc =
      write_loop (len - 4 - maxPacketSize) (a, off + maxPacketSize, len - maxPacketSize) mc2"
    unfolding write_loop.simps [of "len - 4" a off len mc]
    using assms(2) nw f1
    by (simp add: le24_max mc1_def [symmetric, unfolded le24_max append_Cons append_Nil] d_def [symmetric] mc2_def)
  have f2: "writeTimeout mc2 = 0" "\<not> netClosed mc2" "wresults mc2 = [(0, Some e)]" "canceled mc2 = None"
    "closed mc2 = closed mc" "length (sent mc2) = length (sent mc) + 4 + maxPacketSize"
    using assms f1 ld by (simp_all add: mc2_def mc1_def put_def)
  define n where "n = len - 4 - maxPacketSize"
  have n: "int n = int (len - maxPacketSize) - 4" using assms(2) by (simp add: n_def maxPacketSize_def)
  have "\<exists>mc3. write_loop n (a, off + maxPacketSize, len - maxPacketSize) mc2 = (Some ErrBadConnNoWrite, mc3) \<and>
      sent mc3 = sent mc2 \<and> closed mc3 = closed mc2"
    using f2 n by (subst write_loop.simps) (auto simp: net_write_def put_def Let_def)
  then show ?thesis using turn assms(3,4) f2
    by (auto simp: writePacket_def sref_len_def n_def markBadConn_def)
qed

text \<open>A connection with a payload of 2^24 bytes in its buffer, the second write failing.\<close>

definition large_conn :: conn where
  "large_conn = (fresh_conn [])\<lparr>cbuf := newBuffer\<lparr>mem := [replicate (maxPacketSize + 5) 0]\<rparr>,
     wresults := [(4 + maxPacketSize, None), (0, Some (OsError 32))]\<rparr>"

theorem split_write_reported_unwritten_witness:
  "\<exists>mc'. writePacket (0, 0, maxPacketSize + 5) large_conn = Some (Some ErrBadConnNoWrite, mc') \<and>
     length (sent mc') = 4 + maxPacketSize \<and> \<not> closed mc'"
proof -
  have "room large_conn (0, 0, maxPacketSize + 5)"
    by (simp add: room_def large_conn_def newBuffer_def)
  moreover have "int (maxPacketSize + 5 - 4) \<le> maxAllowedPacket large_conn"
    "maxPacketSize \<le> maxPacketSize + 5 - 4"
    by (simp_all add: large_conn_def fresh_conn_def maxPacketSize_def)
  moreover have "\<not> creset large_conn" "writeTimeout large_conn = 0" "\<not> netClosed large_conn"
    "canceled large_conn = None" "sent large_conn = []" "\<not> closed large_conn"
    "wresults large_conn = [(4 + maxPacketSize, None), (0, Some (OsError 32))]"
    by (simp_all add: large_conn_def fresh_conn_def)
  ultimately show ?thesis
    using split_write_reported_unwritten [of large_conn 0 0 "maxPacketSize + 5" "OsError 32"] by auto
qed

text \<open>\<open>Close\<close> on an open idle connection sends exactly one \<open>COM_QUIT\<close> packet, closes the
  network connection and clears the results; closing again does nothing at all.\<close>

theorem Close_quits_once:
  assumes "writable mc" and "idle mc" and "\<not> creset mc" and "1 \<le> maxAllowedPacket mc"
    and "\<not> closed mc" and "netConn mc"
  shows "\<exists>mc'. Close mc = Some (None, mc') \<and> sent mc' = sent mc @ [1, 0, 0, 0, comQuit] \<and>
    closed mc' \<and> netClosed mc' \<and> affectedRows mc' = [] \<and> insertIds mc' = [] \<and>
    Close mc' = Some (None, mc')"
proof -
  obtain b where b: "writeCommandPacket comQuit mc =
      Some (None, mc\<lparr>cbuf := b, sent := sent mc @ [1, 0, 0, 0, comQuit], sequence := 1\<rparr>)"
    using writeCommandPacket_frames [OF assms(1-4), of comQuit] by auto
  let ?mc1 = "mc\<lparr>cbuf := b, sent := sent mc @ [1, 0, 0, 0, comQuit], sequence := 1\<rparr>"
  have "Close mc = Some (None, cleanup ?mc1)"
    using b assms(5) by (simp add: Close_def)
  moreover have "Close (cleanup ?mc1) = Some (None, cleanup ?mc1)"
    by (simp add: Close_def cleanup_closed)
  ultimately show ?thesis
    using cleanup_network [of ?mc1] assms(5,6) by (intro exI [of _ "cleanup ?mc1"]) (simp add: cleanup_closed)
qed

theorem Close_quits_once_witness:
  "\<exists>mc'. Close (fresh_conn []) = Some (None, mc') \<and> sent mc' = [1, 0, 0, 0, comQuit] \<and>
     Close mc' = Some (None, mc')"
proof -
  have "\<not> creset (fresh_conn [])" "1 \<le> maxAllowedPacket (fresh_conn [])" "\<not> closed (fresh_conn [])"
    "netConn (fresh_conn [])" "sent (fresh_conn []) = []" by (simp_all add: fresh_conn_def)
  then show ?thesis using Close_quits_once [OF fresh_conn(1,2), of "[]"] by auto
qed

text \<open>
  C39: A stream that ends inside a packet of one frame, in its header or its body, makes \<open>readPacket\<close> fail: unless
  the connection was cancelled it is closed and the caller gets \<open>ErrInvalidConn\<close>, never a shorter packet.
\<close>

theorem readPacket_truncated:
  assumes "readable mc" and "canceled mc = None" and "strict_prefix (incoming mc) (frames (sequence mc) p)"
    and "p \<noteq> []" and "length p < maxPacketSize"
  shows "\<exists>mc'. readPacket mc = Some (Inl ErrInvalidConn, mc') \<and> closed mc'"
  using truncated_packet [OF assms] by blast

theorem readPacket_truncated_witness:
  "\<exists>mc'. readPacket (fresh_conn [([3, 0, 0], None), ([0, 7], None)]) = Some (Inl ErrInvalidConn, mc') \<and> closed mc'"
proof -
  let ?mc = "fresh_conn [([3, 0, 0], None), ([0, 7], None)]"
  have "frames (sequence ?mc) [7, 8, 9] = [3, 0, 0, 0, 7, 8, 9]" "canceled ?mc = None"
    by (simp_all add: frames_short le24_def maxPacketSize_def fresh_conn_def)
  then show ?thesis
    using readPacket_truncated [of ?mc "[7, 8, 9]"] fresh_conn(3,4)
    by (simp add: strict_prefix_def maxPacketSize_def)
qed

end
