(* ===== verification/Results.thy ===== *)
theory Results
  imports Conn
begin

text \<open>
  Responses of the server (\<open>mysql/packets.go\<close>, \<open>mysql/rows.go\<close>, \<open>mysql/infile.go\<close>, the query
  functions of \<open>mysql/connection.go\<close>): OK and error packets, result-set headers, column
  definitions, rows, the end of a result set, several result sets, and the variants ending in
  \<open>1\<close>, which forward every packet to the client of the proxy.
\<close>

section \<open>OK and error packets\<close>

definition iOK :: byte where "iOK = 0"
definition iAuthMoreData :: byte where "iAuthMoreData = 1"
definition iLocalInFile :: byte where "iLocalInFile = 0xfb"
definition iEOF :: byte where "iEOF = 0xfe"
definition iERR :: byte where "iERR = 0xff"
definition statusMoreResultsExists :: u16 where "statusMoreResultsExists = 8"

lemmas packet_bytes = iOK_def iAuthMoreData_def iLocalInFile_def iEOF_def iERR_def

definition le16_at :: "gslice \<Rightarrow> int \<Rightarrow> u16 option" where
  "le16_at d i = do { s \<leftarrow> slice d i (i + 2); Some (getle (fst s)) }"

definition le32_at :: "gslice \<Rightarrow> int \<Rightarrow> u32 option" where
  "le32_at d i = do { s \<leftarrow> slice d i (i + 4); Some (getle (fst s)) }"

text \<open>Every branch of \<open>handleErrorPacket\<close> returns an error.\<close>

definition handleErrorPacket :: "gslice \<Rightarrow> conn \<Rightarrow> (error \<times> conn) option" where
  "handleErrorPacket data mc = do {
     d0 \<leftarrow> idx (fst data) 0;
     if d0 \<noteq> iERR then Some (ErrMalformPkt, mc)
     else do {
       errno \<leftarrow> le16_at data 1;
       if (errno = 1792 \<or> errno = 1290) \<and> rejectReadOnly (cfg mc)
       then do { (_, mc1) \<leftarrow> Close mc; Some (DriverErrBadConn, mc1) }
       else do {
         d3 \<leftarrow> idx (fst data) 3;
         if d3 = 0x23 then do {
           st \<leftarrow> slice data 4 9; msg \<leftarrow> slice_from data 9;
           Some (MySQLError errno (fst st) (fst msg), mc) }
         else do {
           msg \<leftarrow> slice_from data 3;
           Some (MySQLError errno (replicate 5 0) (fst msg), mc) } } } }"

definition set_last :: "'a \<Rightarrow> 'a list \<Rightarrow> 'a list" where
  "set_last x xs = (if xs = [] then [] else butlast xs @ [x])"

definition handleOkPacket :: "gslice \<Rightarrow> conn \<Rightarrow> (error option \<times> conn) option" where
  "handleOkPacket data mc = do {
     d1 \<leftarrow> slice_from data 1;
     (affected, _, n) \<leftarrow> readLengthEncodedInteger (fst d1);
     d2 \<leftarrow> slice_from data (1 + n);
     (insertId, _, m) \<leftarrow> readLengthEncodedInteger (fst d2);
     let mc1 = mc\<lparr>affectedRows := set_last (sint affected) (affectedRows mc),
                  insertIds := set_last (sint insertId) (insertIds mc)\<rparr>;
     st \<leftarrow> slice data (1 + n + m) (1 + n + m + 2);
     status \<leftarrow> readStatus (fst st);
     Some (None, mc1\<lparr>cstatus := status\<rparr>) }"

definition readResultOK :: "conn \<Rightarrow> (error option \<times> conn) option" where
  "readResultOK mc = do {
     (r, mc1) \<leftarrow> readPacket mc;
     case r of
       Inl e \<Rightarrow> Some (Some e, mc1)
     | Inr data \<Rightarrow> do {
         d0 \<leftarrow> idx (fst data) 0;
         if d0 = iOK then handleOkPacket data mc1
         else do { (e, mc2) \<leftarrow> handleErrorPacket data mc1; Some (Some e, mc2) } } }"

section \<open>LOAD DATA LOCAL INFILE\<close>

definition defaultPacketSize :: int where "defaultPacketSize = 16 * 1024"

text \<open>\<open>strings.Index\<close>: the first position of the pattern.\<close>

fun find_sub :: "bytes \<Rightarrow> bytes \<Rightarrow> nat option" where
  "find_sub p [] = (if p = [] then Some 0 else None)"
| "find_sub p (c # cs) = (if prefix p (c # cs) then Some 0 else map_option Suc (find_sub p cs))"

definition trim_quotes :: "bytes \<Rightarrow> bytes" where
  "trim_quotes s = (let p = (\<lambda>c. c = 0x22) in rev (dropWhile p (rev (dropWhile p s))))"

text \<open>A fresh array of the program, at an address of its own.\<close>

definition alloc :: "nat \<Rightarrow> conn \<Rightarrow> nat \<times> conn" where
  "alloc n mc = (length (mem (cbuf mc)),
     mc\<lparr>cbuf := (cbuf mc)\<lparr>mem := mem (cbuf mc) @ [replicate n 0]\<rparr>\<rparr>)"

text \<open>
  Reading the file into the array at \<open>a\<close>, at most \<open>ps\<close> bytes at a time, and sending what was
  read: \<open>Inl\<close> is an error of \<open>writePacket\<close>, \<open>Inr\<close> the error that ended the loop.
\<close>

function infile_loop :: "nat \<Rightarrow> nat \<Rightarrow> read_event list \<Rightarrow> conn \<Rightarrow> ((error + error) \<times> conn) option" where
  "infile_loop ps a [] mc = Some (Inr IoEOF, mc)"
| "infile_loop ps a ((d, e) # evs) mc =
     (let cut = ps < length d \<and> 0 < ps;
          d' = (if cut then take ps d else d);
          e' = (if cut then None else e);
          evs' = (if cut then (drop ps d, e) # evs else evs)
      in do {
           (werr, mc1) \<leftarrow> (if d' = [] then Some (None, mc)
                            else let r = (a, 0, 4 + length d') in writePacket r (put r 4 d' mc));
           case werr of
             Some err \<Rightarrow> Some (Inl err, mc1)
           | None \<Rightarrow> (case e' of Some err \<Rightarrow> Some (Inr err, mc1) | None \<Rightarrow> infile_loop ps a evs' mc1) })"
  by pat_completeness auto
termination
  by (relation "measure (\<lambda>(ps, a, evs, mc). length (arriving evs) + length evs)") (auto split: if_splits)

text \<open>The source named: its packet size, its reads and what \<open>Close\<close> gives, or the error.\<close>

definition infile_source :: "bytes \<Rightarrow> int \<Rightarrow> conn \<Rightarrow> (error + int \<times> read_event list) \<times> error option" where
  "infile_source name ps mc =
     (let file = (\<lambda>name. let name = trim_quotes name in
            if allowAllFiles (cfg mc) \<or> fileRegister (locals mc) name
            then case openFile (locals mc) name of
                   Inl e \<Rightarrow> (Inl e, None)
                 | Inr (st, rdr) \<Rightarrow> (case st of
                     Inl e \<Rightarrow> (Inl e, rclose rdr)
                   | Inr sz \<Rightarrow> (Inr (if sz < ps then sz else ps, rscript rdr), rclose rdr))
            else (Inl (FmtError ''local file is not registered''), None))
      in case find_sub (str ''Reader::'') name of
           None \<Rightarrow> file name
         | Some i \<Rightarrow>
             if i = 0 \<or> name ! (i - 1) = 0x2f
             then case readerRegister (locals mc) (drop (i + 8) name) of
                    None \<Rightarrow> (Inl (FmtError ''reader is not registered''), None)
                  | Some None \<Rightarrow> (Inl (FmtError ''reader is <nil>''), None)
                  | Some (Some rdr) \<Rightarrow> (Inr (ps, rscript rdr), rclose rdr)
             else file name)"

definition deferredClose :: "error option \<Rightarrow> error option \<Rightarrow> error option" where
  "deferredClose closeErr err = (if err = None then closeErr else err)"

text \<open>
  The content packets: \<open>Inl\<close> when \<open>writePacket\<close> failed, otherwise the error of the source, with
  \<open>io.EOF\<close> no error.  A packet size of 0 is a source without data.
\<close>

definition send_content :: "error + int \<times> read_event list \<Rightarrow> conn \<Rightarrow> ((error + error option) \<times> conn) option" where
  "send_content src mc = (case src of
     Inl e \<Rightarrow> Some (Inr (Some e), mc)
   | Inr (ps, evs) \<Rightarrow>
       if ps \<le> 0 then Some (Inr None, mc)
       else do {
         let (a, mc0) = alloc (4 + nat ps) mc;
         (r, mc1) \<leftarrow> infile_loop (nat ps) a evs mc0;
         Some (case r of
             Inl ioErr \<Rightarrow> Inl ioErr
           | Inr e \<Rightarrow> Inr (if e = IoEOF then None else Some e), mc1) })"

text \<open>The empty packet that ends the file, and the reply.\<close>

definition finish_content :: "error option \<Rightarrow> conn \<Rightarrow> (error option \<times> conn) option" where
  "finish_content err mc = do {
     let (a, mc1) = alloc 4 mc;
     (ioErr, mc2) \<leftarrow> writePacket (a, 0, 4) mc1;
     case ioErr of
       Some e \<Rightarrow> Some (Some e, mc2)
     | None \<Rightarrow> (case err of
         None \<Rightarrow> readResultOK mc2
       | Some e \<Rightarrow> do { (_, mc3) \<leftarrow> readPacket mc2; Some (Some e, mc3) }) }"

definition handleInFileRequest :: "bytes \<Rightarrow> conn \<Rightarrow> (error option \<times> conn) option" where
  "handleInFileRequest name mc =
     (let ps = (if maxWriteSize mc < defaultPacketSize then maxWriteSize mc else defaultPacketSize)
      in case infile_source name ps mc of
           (src, closeErr) \<Rightarrow> do {
             (r, mc1) \<leftarrow> send_content src mc;
             (err, mc2) \<leftarrow> (case r of
                 Inl ioErr \<Rightarrow> Some (Some ioErr, mc1)
               | Inr err \<Rightarrow> finish_content err mc1);
             Some (deferredClose closeErr err, mc2) })"

section \<open>Result-set headers\<close>

text \<open>The packet after a query: the number of columns, 0 for an OK packet.\<close>

definition header_packet :: "gslice \<Rightarrow> conn \<Rightarrow> ((error + int) \<times> conn) option" where
  "header_packet data mc = do {
     d0 \<leftarrow> idx (fst data) 0;
     if d0 = iOK then do {
       (e, mc1) \<leftarrow> handleOkPacket data mc;
       Some (case e of None \<Rightarrow> Inr 0 | Some err \<Rightarrow> Inl err, mc1) }
     else if d0 = iERR then do { (e, mc1) \<leftarrow> handleErrorPacket data mc; Some (Inl e, mc1) }
     else if d0 = iLocalInFile then do {
       name \<leftarrow> slice_from data 1;
       (e, mc1) \<leftarrow> handleInFileRequest (fst name) mc;
       Some (case e of None \<Rightarrow> Inr 0 | Some err \<Rightarrow> Inl err, mc1) }
     else do {
       (num, _, n) \<leftarrow> readLengthEncodedInteger (fst data);
       Some (if n - int (length (fst data)) = 0 then Inr (sint num) else Inl ErrMalformPkt, mc) } }"

definition grow_result :: "conn \<Rightarrow> conn" where
  "grow_result mc = mc\<lparr>affectedRows := affectedRows mc @ [0], insertIds := insertIds mc @ [0]\<rparr>"

definition readResultSetHeaderPacket :: "conn \<Rightarrow> ((error + int) \<times> conn) option" where
  "readResultSetHeaderPacket mc = thenDo readPacket header_packet (grow_result mc)"

definition readResultSetHeaderPacket1 :: "conn \<times> bytes \<Rightarrow> ((error + int) \<times> conn \<times> bytes) option" where
  "readResultSetHeaderPacket1 s = (case s of (mc, dst) \<Rightarrow> do {
     (r, mc1, dst1) \<leftarrow> readPacket1 (grow_result mc, dst);
     case r of
       Inl e \<Rightarrow> Some (Inl e, mc1, dst1)
     | Inr data \<Rightarrow> do { (r', mc2) \<leftarrow> header_packet data mc1; Some (r', mc2, dst1) } })"

section \<open>Progress\<close>

lemma left_over_handleErrorPacket [progress]:
  "handleErrorPacket d mc = Some (e, mc') \<Longrightarrow> left_over mc' \<le> left_over mc"
  by (auto simp: handleErrorPacket_def Let_def split: if_split_asm dest!: left_over_Close)

lemma left_over_handleOkPacket [progress]:
  "handleOkPacket d mc = Some (e, mc') \<Longrightarrow> left_over mc' \<le> left_over mc"
  by (auto simp: handleOkPacket_def Let_def)

lemma left_over_readResultOK [progress]:
  assumes "readResultOK mc = Some (e, mc')"
  shows "left_over mc' \<le> left_over mc"
proof -
  obtain r mc1 where r: "readPacket mc = Some (r, mc1)" using assms by (auto simp: readResultOK_def)
  have "left_over mc' \<le> left_over mc1"
    using assms r
    by (cases r) (auto simp: readResultOK_def split: if_split_asm
        dest: left_over_handleOkPacket left_over_handleErrorPacket)
  then show ?thesis using left_over_readPacket [OF r] by simp
qed

lemma left_over_alloc: "alloc n mc = (a, mc') \<Longrightarrow> left_over mc' = left_over mc"
  by (auto simp: alloc_def)

lemma left_over_infile_loop [progress]:
  "infile_loop ps a evs mc = Some (r, mc') \<Longrightarrow> left_over mc' \<le> left_over mc"
proof (induction ps a evs mc arbitrary: r mc' rule: infile_loop.induct)
  case (2 ps a d e evs mc)
  define cut where "cut = (ps < length d \<and> 0 < ps)"
  define d' where "d' = (if cut then take ps d else d)"
  define e' where "e' = (if cut then None else e)"
  define evs' where "evs' = (if cut then (drop ps d, e) # evs else evs)"
  define m where "m = (if d' = [] then Some (None, mc)
    else let r = (a, 0, 4 + length d') in writePacket r (put r 4 d' mc))"
  note eq = 2(2) [unfolded infile_loop.simps(2) Let_def [of "ps < length d \<and> 0 < ps"], folded cut_def,
      unfolded Let_def [of "if cut then take ps d else d"], folded d'_def,
      unfolded Let_def [of "if cut then None else e"], folded e'_def,
      unfolded Let_def [of "if cut then (drop ps d, e) # evs else evs"], folded evs'_def m_def]
  from eq obtain werr mc1 where w: "m = Some (werr, mc1)" by auto
  then have l1: "left_over mc1 \<le> left_over mc"
    by (auto simp: m_def Let_def split: if_split_asm dest!: left_over_writePacket)
  note ih = 2(1) [OF cut_def d'_def e'_def evs'_def w [unfolded m_def] refl]
  show ?case
  proof (cases werr)
    case (Some err)
    then show ?thesis using eq w l1 by auto
  next
    case None
    then show ?thesis using eq w l1 ih by (cases e') (auto intro: order_trans)
  qed
qed auto

lemma left_over_send_content [progress]:
  "send_content src mc = Some (r, mc') \<Longrightarrow> left_over mc' \<le> left_over mc"
  by (cases src) (auto simp: send_content_def alloc_def split: if_split_asm dest!: left_over_infile_loop)

lemma left_over_finish_content [progress]:
  assumes "finish_content err mc = Some (r, mc')"
  shows "left_over mc' \<le> left_over mc"
proof -
  obtain a mc1 where a: "alloc 4 mc = (a, mc1)" by (cases "alloc 4 mc")
  obtain e mc2 where w: "writePacket (a, 0, 4) mc1 = Some (e, mc2)"
    using assms a by (auto simp: finish_content_def)
  have "left_over mc' \<le> left_over mc2"
    using assms a w by (cases e; cases err)
      (auto simp: finish_content_def dest: left_over_readResultOK left_over_readPacket)
  then show ?thesis using left_over_writePacket [OF w] left_over_alloc [OF a] by simp
qed

lemma left_over_handleInFileRequest [progress]:
  assumes "handleInFileRequest name mc = Some (e, mc')"
  shows "left_over mc' \<le> left_over mc"
proof -
  define ps where "ps = (if maxWriteSize mc < defaultPacketSize then maxWriteSize mc else defaultPacketSize)"
  obtain src closeErr where src: "infile_source name ps mc = (src, closeErr)"
    by (cases "infile_source name ps mc")
  obtain r mc1 where s: "send_content src mc = Some (r, mc1)"
    using assms src by (auto simp: handleInFileRequest_def ps_def [symmetric])
  have "left_over mc' \<le> left_over mc1"
    using assms src s
    by (cases r) (auto simp: handleInFileRequest_def ps_def [symmetric] dest: left_over_finish_content)
  then show ?thesis using left_over_send_content [OF s] by simp
qed

lemma left_over_header_packet [progress]:
  "header_packet d mc = Some (r, mc') \<Longrightarrow> left_over mc' \<le> left_over mc"
  by (auto simp: header_packet_def split: if_split_asm option.split_asm
      dest!: left_over_handleOkPacket left_over_handleErrorPacket left_over_handleInFileRequest)

lemma left_over_grow_result [simp]: "left_over (grow_result mc) = left_over mc"
  by (simp add: grow_result_def left_over_def)

text \<open>A header that is read uses up bytes.\<close>

lemma readResultSetHeaderPacket_available:
  assumes "readResultSetHeaderPacket mc = Some (Inr n, mc')"
  shows "left_over mc' < left_over mc"
proof -
  obtain r mc1 where r: "readPacket (grow_result mc) = Some (r, mc1)"
    using assms by (auto simp: readResultSetHeaderPacket_def thenDo_def)
  with assms obtain data where d: "r = Inr data" and h: "header_packet data mc1 = Some (Inr n, mc')"
    by (cases r) (auto simp: readResultSetHeaderPacket_def thenDo_def)
  from readPacket_available [OF r [unfolded d]] left_over_header_packet [OF h] show ?thesis by simp
qed

lemma readResultSetHeaderPacket1_available:
  assumes "readResultSetHeaderPacket1 (mc, dst) = Some (Inr n, mc', dst')"
  shows "left_over mc' < left_over mc"
proof -
  obtain r mc1 dst1 where r: "readPacket1 (grow_result mc, dst) = Some (r, mc1, dst1)"
    using assms by (auto simp: readResultSetHeaderPacket1_def)
  with assms obtain data where d: "r = Inr data" and h: "header_packet data mc1 = Some (Inr n, mc')"
    by (cases r) (auto simp: readResultSetHeaderPacket1_def)
  from readPacket1_available [OF r [unfolded d]] left_over_header_packet [OF h] show ?thesis by simp
qed

end
