(* ===== verification/Rows.thy ===== *)
theory Rows
  imports Results
begin

text \<open>
  Column definitions and text rows (\<open>mysql/packets.go\<close>), the result sets of a query
  (\<open>mysql/rows.go\<close>) and the query functions (\<open>mysql/connection.go\<close>).
\<close>

section \<open>Columns\<close>

definition fieldTypeTiny :: byte where "fieldTypeTiny = 1"
definition fieldTypeShort :: byte where "fieldTypeShort = 2"
definition fieldTypeLong :: byte where "fieldTypeLong = 3"
definition fieldTypeFloat :: byte where "fieldTypeFloat = 4"
definition fieldTypeDouble :: byte where "fieldTypeDouble = 5"
definition fieldTypeTimestamp :: byte where "fieldTypeTimestamp = 7"
definition fieldTypeLongLong :: byte where "fieldTypeLongLong = 8"
definition fieldTypeInt24 :: byte where "fieldTypeInt24 = 9"
definition fieldTypeDate :: byte where "fieldTypeDate = 10"
definition fieldTypeDateTime :: byte where "fieldTypeDateTime = 12"
definition fieldTypeYear :: byte where "fieldTypeYear = 13"
definition fieldTypeNewDate :: byte where "fieldTypeNewDate = 14"
definition flagUnsigned :: u16 where "flagUnsigned = 32"

lemmas field_types = fieldTypeTiny_def fieldTypeShort_def fieldTypeLong_def fieldTypeFloat_def
  fieldTypeDouble_def fieldTypeTimestamp_def fieldTypeLongLong_def fieldTypeInt24_def fieldTypeDate_def
  fieldTypeDateTime_def fieldTypeYear_def fieldTypeNewDate_def

record mysqlField =
  tableName :: bytes
  fieldName :: bytes
  fieldLength :: u32
  fieldFlags :: u16
  fieldType :: byte
  fieldDecimals :: byte
  charSet :: byte

definition noField :: mysqlField where
  "noField = \<lparr>tableName = [], fieldName = [], fieldLength = 0, fieldFlags = 0, fieldType = 0,
     fieldDecimals = 0, charSet = 0\<rparr>"

text \<open>\<open>n, err := skipLengthEncodedString(data[pos:]); pos += n\<close>, and the same for a string read.\<close>

definition skip_at :: "gslice \<Rightarrow> int \<Rightarrow> (error + int) option" where
  "skip_at data pos = do {
     d \<leftarrow> slice_from data pos;
     (n, e) \<leftarrow> skipLengthEncodedString (fst d);
     Some (case e of Some err \<Rightarrow> Inl err | None \<Rightarrow> Inr (pos + n)) }"

definition string_at :: "gslice \<Rightarrow> int \<Rightarrow> (error + bytes \<times> int) option" where
  "string_at data pos = do {
     d \<leftarrow> slice_from data pos;
     (s, _, n, e) \<leftarrow> readLengthEncodedString d;
     Some (case e of Some err \<Rightarrow> Inl err | None \<Rightarrow> Inr (s, pos + n)) }"

text \<open>\<open>columns[i].f = x\<close>: an index past the columns announced panics.\<close>

definition set_col :: "nat \<Rightarrow> (mysqlField \<Rightarrow> mysqlField) \<Rightarrow> mysqlField list \<Rightarrow> (error + mysqlField list) option" where
  "set_col i f cols = (if i < length cols then Some (Inr (cols[i := f (cols ! i)])) else None)"

text \<open>The body of the loop of \<open>readColumns\<close>: the fields of column \<open>i\<close> from its packet.\<close>

definition parse_column :: "bool \<Rightarrow> gslice \<Rightarrow> nat \<Rightarrow> mysqlField list \<Rightarrow> (error + mysqlField list) option" where
  "parse_column withAlias data i cols =
     andThen (skip_at data 0) (\<lambda>pos.
     andThen (skip_at data pos) (\<lambda>pos.
     andThen (if withAlias
              then andThen (string_at data pos) (\<lambda>(tn, pos).
                   andThen (set_col i (\<lambda>c. c\<lparr>tableName := tn\<rparr>) cols) (\<lambda>cols. Some (Inr (cols, pos))))
              else andThen (skip_at data pos) (\<lambda>pos. Some (Inr (cols, pos)))) (\<lambda>(cols, pos).
     andThen (skip_at data pos) (\<lambda>pos.
     andThen (string_at data pos) (\<lambda>(nm, pos).
     andThen (set_col i (\<lambda>c. c\<lparr>fieldName := nm\<rparr>) cols) (\<lambda>cols.
     andThen (skip_at data pos) (\<lambda>pos. do {
       let pos = pos + 1;
       cs \<leftarrow> idx (fst data) pos;
       len \<leftarrow> le32_at data (pos + 2);
       ft \<leftarrow> idx (fst data) (pos + 6);
       fl \<leftarrow> le16_at data (pos + 7);
       dec \<leftarrow> idx (fst data) (pos + 9);
       set_col i (\<lambda>c. c\<lparr>charSet := cs, fieldLength := len, fieldType := ft, fieldFlags := fl,
         fieldDecimals := dec\<rparr>) cols })))))))"

definition columns_end :: "gslice \<Rightarrow> bool" where
  "columns_end data \<longleftrightarrow> fst data ! 0 = iEOF \<and> (length (fst data) = 5 \<or> length (fst data) = 1)"

definition column_count_mismatch :: error where
  "column_count_mismatch = FmtError ''column count mismatch''"

function columns_loop :: "nat \<Rightarrow> nat \<Rightarrow> mysqlField list \<Rightarrow> conn \<Rightarrow> ((error + mysqlField list) \<times> conn) option" where
  "columns_loop count i cols mc =
     (case readPacket mc of
        None \<Rightarrow> None
      | Some (Inl e, mc1) \<Rightarrow> Some (Inl e, mc1)
      | Some (Inr data, mc1) \<Rightarrow>
          if columns_end data then Some (if i = count then Inr cols else Inl column_count_mismatch, mc1)
          else case parse_column (columnsWithAlias (cfg mc1)) data i cols of
                 None \<Rightarrow> None
               | Some (Inl e) \<Rightarrow> Some (Inl e, mc1)
               | Some (Inr cols') \<Rightarrow> columns_loop count (i + 1) cols' mc1)"
  by pat_completeness auto
termination
  by (relation "measure (\<lambda>(count, i, cols, mc). left_over mc)") (auto intro: readPacket_available)

declare columns_loop.simps [simp del]

function columns_loop1 :: "nat \<Rightarrow> nat \<Rightarrow> mysqlField list \<Rightarrow> conn \<times> bytes \<Rightarrow>
    ((error + mysqlField list) \<times> conn \<times> bytes) option" where
  "columns_loop1 count i cols (mc, dst) =
     (case readPacket1 (mc, dst) of
        None \<Rightarrow> None
      | Some (Inl e, mc1, dst1) \<Rightarrow> Some (Inl e, mc1, dst1)
      | Some (Inr data, mc1, dst1) \<Rightarrow>
          if columns_end data then Some (if i = count then Inr cols else Inl column_count_mismatch, mc1, dst1)
          else case parse_column (columnsWithAlias (cfg mc1)) data i cols of
                 None \<Rightarrow> None
               | Some (Inl e) \<Rightarrow> Some (Inl e, mc1, dst1)
               | Some (Inr cols') \<Rightarrow> columns_loop1 count (i + 1) cols' (mc1, dst1))"
  by pat_completeness auto
termination
  by (relation "measure (\<lambda>(count, i, cols, mc, dst). left_over mc)") (auto intro: readPacket1_available)

declare columns_loop1.simps [simp del]

text \<open>\<open>make([]mysqlField, count)\<close> panics on a negative length.\<close>

definition readColumns :: "int \<Rightarrow> conn \<Rightarrow> ((error + mysqlField list) \<times> conn) option" where
  "readColumns count mc =
     (if count < 0 then None else columns_loop (nat count) 0 (replicate (nat count) noField) mc)"

definition readColumns1 :: "int \<Rightarrow> conn \<times> bytes \<Rightarrow> ((error + mysqlField list) \<times> conn \<times> bytes) option" where
  "readColumns1 count s =
     (if count < 0 then None else columns_loop1 (nat count) 0 (replicate (nat count) noField) s)"

section \<open>Values\<close>

text \<open>
  A float stands for the text it was parsed from and its bit size; a float of the binary protocol
  is given by its bits.
\<close>

datatype dvalue = VNil | VBytes bytes | VInt int | VUint int | VFloat nat bytes | VTime gotime | VBits nat u64

definition errSyntax :: error where "errSyntax = FmtError ''invalid syntax''"
definition errRange :: error where "errRange = FmtError ''value out of range''"

text \<open>\<open>strconv.ParseUint(s, 10, bits)\<close> and \<open>strconv.ParseInt\<close>.\<close>

fun uint_loop :: "int \<Rightarrow> int \<Rightarrow> bytes \<Rightarrow> error + int" where
  "uint_loop lim n [] = Inr n"
| "uint_loop lim n (c # cs) =
     (if c < 0x30 \<or> 0x39 < c then Inl errSyntax
      else let n' = n * 10 + uint (c - 0x30) in if lim < n' then Inl errRange else uint_loop lim n' cs)"

definition parseUint :: "nat \<Rightarrow> bytes \<Rightarrow> error + int" where
  "parseUint bits s = (if s = [] then Inl errSyntax else uint_loop (2 ^ bits - 1) 0 s)"

definition parseInt :: "nat \<Rightarrow> bytes \<Rightarrow> error + int" where
  "parseInt bits s =
     (if s = [] then Inl errSyntax
      else let neg = hd s = 0x2d; digits = (if hd s = 0x2b \<or> hd s = 0x2d then tl s else s)
           in onOk (parseUint bits digits) (\<lambda>un.
                if \<not> neg \<and> 2 ^ (bits - 1) \<le> un then Inl errRange
                else if neg \<and> 2 ^ (bits - 1) < un then Inl errRange
                else Inr (if neg then - un else un)))"

definition convert_cell :: "conn \<Rightarrow> mysqlField \<Rightarrow> bytes \<Rightarrow> error + dvalue" where
  "convert_cell mc col buf =
     (let t = fieldType col
      in if t = fieldTypeTimestamp \<or> t = fieldTypeDateTime \<or> t = fieldTypeDate \<or> t = fieldTypeNewDate
         then if parseTime mc then onOk (parseDateTime buf) (\<lambda>x. Inr (VTime x)) else Inr (VBytes buf)
         else if t = fieldTypeTiny \<or> t = fieldTypeShort \<or> t = fieldTypeInt24 \<or> t = fieldTypeYear \<or> t = fieldTypeLong
         then onOk (parseInt 32 buf) (\<lambda>x. Inr (VInt x))
         else if t = fieldTypeLongLong
         then if fieldFlags col AND flagUnsigned \<noteq> 0
              then onOk (parseUint 64 buf) (\<lambda>x. Inr (VUint x)) else onOk (parseInt 64 buf) (\<lambda>x. Inr (VInt x))
         else if t = fieldTypeFloat
         then (case floatErr mc 32 buf of Some e \<Rightarrow> Inl e | None \<Rightarrow> Inr (VFloat 32 buf))
         else if t = fieldTypeDouble
         then (case floatErr mc 64 buf of Some e \<Rightarrow> Inl e | None \<Rightarrow> Inr (VFloat 64 buf))
         else Inr (VBytes buf))"

section \<open>Rows\<close>

text \<open>
  A \<open>MysqlRows\<close>: whether it still has its connection, the columns, their names once asked
  for, and whether the result set has ended.
\<close>

record rows =
  hasMc :: bool
  columns :: "mysqlField list"
  columnNames :: "bytes list option"
  rdone :: bool

definition newRows :: rows where
  "newRows = \<lparr>hasMc = True, columns = [], columnNames = None, rdone = False\<rparr>"

definition Columns :: "rows \<Rightarrow> conn \<Rightarrow> bytes list \<times> rows" where
  "Columns rows mc = (case columnNames rows of
     Some names \<Rightarrow> (names, rows)
   | None \<Rightarrow>
       let names = (if hasMc rows \<and> columnsWithAlias (cfg mc)
             then map (\<lambda>c. if tableName c \<noteq> [] then tableName c @ [0x2e] @ fieldName c else fieldName c) (columns rows)
             else map fieldName (columns rows))
       in (names, rows\<lparr>columnNames := Some names\<rparr>))"

text \<open>
  The cells of a row packet, \<open>n\<close> of them from column \<open>i\<close> on.  After an error the cells read
  before it are dropped; the program does not use them.
\<close>

fun row_cells :: "conn \<Rightarrow> mysqlField list \<Rightarrow> gslice \<Rightarrow> int \<Rightarrow> nat \<Rightarrow> nat \<Rightarrow> (error + dvalue list) option" where
  "row_cells mc cols data pos i 0 = Some (Inr [])"
| "row_cells mc cols data pos i (Suc n) = do {
     d \<leftarrow> slice_from data pos;
     (buf, isNull, k, err) \<leftarrow> readLengthEncodedString d;
     case err of
       Some e \<Rightarrow> Some (Inl e)
     | None \<Rightarrow>
         andThen (if isNull then Some (Inr VNil)
                  else do { col \<leftarrow> idx cols (int i); Some (convert_cell mc col buf) }) (\<lambda>v.
         andThen (row_cells mc cols data (pos + k) (i + 1) n) (\<lambda>vs. Some (Inr (v # vs)))) }"

definition hasNextResultSet :: "rows \<Rightarrow> conn \<Rightarrow> bool" where
  "hasNextResultSet rows mc \<longleftrightarrow> hasMc rows \<and> cstatus mc AND statusMoreResultsExists \<noteq> 0"

text \<open>What \<open>readRow\<close> does with its packet: the end of the result set, an error, or a row.\<close>

definition row_packet :: "nat \<Rightarrow> gslice \<Rightarrow> rows \<Rightarrow> conn \<Rightarrow> ((error + dvalue list) \<times> rows \<times> conn) option" where
  "row_packet n data rows mc = do {
     d0 \<leftarrow> idx (fst data) 0;
     if d0 = iEOF \<and> length (fst data) = 5 then do {
       st \<leftarrow> readStatus (drop 3 (fst data));
       let mc1 = mc\<lparr>cstatus := st\<rparr>;
       let rows1 = rows\<lparr>rdone := True\<rparr>;
       Some (Inl IoEOF, if hasNextResultSet rows1 mc1 then rows1 else rows1\<lparr>hasMc := False\<rparr>, mc1) }
     else if d0 = iERR then do {
       (e, mc1) \<leftarrow> handleErrorPacket data mc;
       Some (Inl e, rows\<lparr>hasMc := False\<rparr>, mc1) }
     else do {
       r \<leftarrow> row_cells mc (columns rows) data 0 0 n;
       Some (r, rows, mc) } }"

definition readRow :: "nat \<Rightarrow> rows \<Rightarrow> conn \<Rightarrow> ((error + dvalue list) \<times> rows \<times> conn) option" where
  "readRow n rows mc =
     (if rdone rows then Some (Inl IoEOF, rows, mc)
      else do {
        (r, mc1) \<leftarrow> readPacket mc;
        case r of Inl e \<Rightarrow> Some (Inl e, rows, mc1) | Inr data \<Rightarrow> row_packet n data rows mc1 })"

definition readRow1 :: "nat \<Rightarrow> rows \<Rightarrow> conn \<times> bytes \<Rightarrow>
    ((error + dvalue list) \<times> rows \<times> conn \<times> bytes) option" where
  "readRow1 n rows s = (case s of (mc, dst) \<Rightarrow>
     if rdone rows then Some (Inl IoEOF, rows, mc, dst)
     else do {
       (r, mc1, dst1) \<leftarrow> readPacket1 (mc, dst);
       case r of
         Inl e \<Rightarrow> Some (Inl e, rows, mc1, dst1)
       | Inr data \<Rightarrow> do { (r', rows', mc2) \<leftarrow> row_packet n data rows mc1; Some (r', rows', mc2, dst1) } })"

definition Next :: "nat \<Rightarrow> rows \<Rightarrow> conn \<Rightarrow> ((error + dvalue list) \<times> rows \<times> conn) option" where
  "Next n rows mc =
     (if hasMc rows
      then case conn_error mc of Some e \<Rightarrow> Some (Inl e, rows, mc) | None \<Rightarrow> readRow n rows mc
      else Some (Inl IoEOF, rows, mc))"

definition Next1 :: "nat \<Rightarrow> rows \<Rightarrow> conn \<times> bytes \<Rightarrow>
    ((error + dvalue list) \<times> rows \<times> conn \<times> bytes) option" where
  "Next1 n rows s =
     (if hasMc rows
      then case conn_error (fst s) of Some e \<Rightarrow> Some (Inl e, rows, s) | None \<Rightarrow> readRow1 n rows s
      else Some (Inl IoEOF, rows, s))"

end
