(* ===== verification/Query.thy ===== *)
theory Query
  imports Rows
begin

text \<open>
  Queries (\<open>mysql/connection.go\<close>) and their result sets (\<open>mysql/rows.go\<close>): sending the query,
  reading the header and the columns, moving to the next result set, draining what is left.
\<close>

section \<open>Draining\<close>

text \<open>A packet of \<open>readUntilEOF\<close>: \<open>None\<close> to go on, or the error to return.\<close>

definition drain_packet :: "gslice \<Rightarrow> conn \<Rightarrow> (error option option \<times> conn) option" where
  "drain_packet data mc = do {
     d0 \<leftarrow> idx (fst data) 0;
     if d0 = iERR then do { (e, mc1) \<leftarrow> handleErrorPacket data mc; Some (Some (Some e), mc1) }
     else if d0 = iEOF then
       if length (fst data) = 5
       then do { st \<leftarrow> readStatus (drop 3 (fst data)); Some (Some None, mc\<lparr>cstatus := st\<rparr>) }
       else Some (Some None, mc)
     else Some (None, mc) }"

lemma drain_packet_more: "drain_packet data mc = Some (None, mc') \<Longrightarrow> mc' = mc"
  by (auto simp: drain_packet_def split: if_split_asm)

function readUntilEOF :: "conn \<Rightarrow> (error option \<times> conn) option" where
  "readUntilEOF mc =
     (case readPacket mc of
        None \<Rightarrow> None
      | Some (Inl e, mc1) \<Rightarrow> Some (Some e, mc1)
      | Some (Inr data, mc1) \<Rightarrow>
          (case drain_packet data mc1 of
             None \<Rightarrow> None
           | Some (Some r, mc2) \<Rightarrow> Some (r, mc2)
           | Some (None, mc2) \<Rightarrow> readUntilEOF mc2))"
  by pat_completeness auto
termination
  by (relation "measure left_over") (auto dest!: drain_packet_more intro: readPacket_available)

declare readUntilEOF.simps [simp del]

function readUntilEOF1 :: "conn \<times> bytes \<Rightarrow> (error option \<times> conn \<times> bytes) option" where
  "readUntilEOF1 (mc, dst) =
     (case readPacket1 (mc, dst) of
        None \<Rightarrow> None
      | Some (Inl e, mc1, dst1) \<Rightarrow> Some (Some e, mc1, dst1)
      | Some (Inr data, mc1, dst1) \<Rightarrow>
          (case drain_packet data mc1 of
             None \<Rightarrow> None
           | Some (Some r, mc2) \<Rightarrow> Some (r, mc2, dst1)
           | Some (None, mc2) \<Rightarrow> readUntilEOF1 (mc2, dst1)))"
  by pat_completeness auto
termination
  by (relation "measure (left_over \<circ> fst)") (auto dest!: drain_packet_more intro: readPacket1_available)

declare readUntilEOF1.simps [simp del]

lemma left_over_drain_packet [progress]:
  "drain_packet d mc = Some (r, mc') \<Longrightarrow> left_over mc' \<le> left_over mc"
  by (auto simp: drain_packet_def split: if_split_asm dest!: left_over_handleErrorPacket)

lemma left_over_readUntilEOF [progress]:
  "readUntilEOF mc = Some (e, mc') \<Longrightarrow> left_over mc' \<le> left_over mc"
proof (induction "left_over mc" arbitrary: mc rule: less_induct)
  case less
  then obtain r mc1 where r: "readPacket mc = Some (r, mc1)"
    by (cases "readPacket mc") (auto simp: readUntilEOF.simps [of mc])
  show ?case
  proof (cases r)
    case (Inl x)
    then show ?thesis using less.prems r left_over_readPacket [OF r] by (simp add: readUntilEOF.simps [of mc])
  next
    case (Inr data)
    note lt = readPacket_available [OF r [unfolded Inr]]
    obtain q mc2 where q: "drain_packet data mc1 = Some (q, mc2)"
      using less.prems r Inr by (cases "drain_packet data mc1") (auto simp: readUntilEOF.simps [of mc])
    show ?thesis
      using less.prems less.hyps [of mc2] lt left_over_drain_packet [OF q] r Inr q
      by (cases q) (auto simp: readUntilEOF.simps [of mc])
  qed
qed

section \<open>Several result sets\<close>

text \<open>Columns and rows of a result set nobody reads.\<close>

definition skip_result :: "conn \<Rightarrow> (error option \<times> conn) option" where
  "skip_result mc = do {
     (e, mc1) \<leftarrow> readUntilEOF mc;
     case e of Some err \<Rightarrow> Some (Some err, mc1) | None \<Rightarrow> readUntilEOF mc1 }"

lemma left_over_skip_result [progress]:
  assumes "skip_result mc = Some (e, mc')"
  shows "left_over mc' \<le> left_over mc"
proof -
  obtain r mc1 where r: "readUntilEOF mc = Some (r, mc1)" using assms by (auto simp: skip_result_def)
  then show ?thesis using assms left_over_readUntilEOF [OF r]
    by (cases r) (auto simp: skip_result_def dest!: left_over_readUntilEOF)
qed

function discardResults :: "conn \<Rightarrow> (error option \<times> conn) option" where
  "discardResults mc =
     (if cstatus mc AND statusMoreResultsExists = 0 then Some (None, mc)
      else case readResultSetHeaderPacket mc of
             None \<Rightarrow> None
           | Some (Inl e, mc1) \<Rightarrow> Some (Some e, mc1)
           | Some (Inr resLen, mc1) \<Rightarrow>
               if 0 < resLen
               then (case skip_result mc1 of
                       None \<Rightarrow> None
                     | Some (Some e, mc2) \<Rightarrow> Some (Some e, mc2)
                     | Some (None, mc2) \<Rightarrow> discardResults mc2)
               else discardResults mc1)"
  by pat_completeness auto
termination
proof (relation "measure left_over", goal_cases)
  case (2 mc x a b n x2 a2 b2)
  then show ?case
    using readResultSetHeaderPacket_available [of mc] left_over_skip_result by fastforce
qed (auto intro: readResultSetHeaderPacket_available)

declare discardResults.simps [simp del]

text \<open>
  Moving on: the rest of the present result set is drained, and when the server has announced
  another one its header is read.
\<close>

definition nextResultSet :: "rows \<Rightarrow> conn \<Rightarrow> ((error + int) \<times> rows \<times> conn) option" where
  "nextResultSet rows mc =
     (if \<not> hasMc rows then Some (Inl IoEOF, rows, mc)
      else case conn_error mc of
        Some e \<Rightarrow> Some (Inl e, rows, mc)
      | None \<Rightarrow> do {
          (err, mc1) \<leftarrow> (if rdone rows then Some (None, mc) else readUntilEOF mc);
          case err of
            Some e \<Rightarrow> Some (Inl e, rows, mc1)
          | None \<Rightarrow>
              let rows1 = rows\<lparr>rdone := True\<rparr>
              in if \<not> hasNextResultSet rows1 mc1 then Some (Inl IoEOF, rows1\<lparr>hasMc := False\<rparr>, mc1)
                 else do {
                   (r, mc2) \<leftarrow> readResultSetHeaderPacket mc1;
                   Some (r, rows1\<lparr>columns := [], columnNames := None, rdone := False\<rparr>, mc2) } })"

definition nextResultSet1 :: "rows \<Rightarrow> conn \<times> bytes \<Rightarrow> ((error + int) \<times> rows \<times> conn \<times> bytes) option" where
  "nextResultSet1 rows s =
     (if \<not> hasMc rows then Some (Inl IoEOF, rows, s)
      else case conn_error (fst s) of
        Some e \<Rightarrow> Some (Inl e, rows, s)
      | None \<Rightarrow> do {
          (err, mc1, dst1) \<leftarrow> (if rdone rows then Some (None, s) else readUntilEOF1 s);
          case err of
            Some e \<Rightarrow> Some (Inl e, rows, mc1, dst1)
          | None \<Rightarrow>
              let rows1 = rows\<lparr>rdone := True\<rparr>
              in if \<not> hasNextResultSet rows1 mc1 then Some (Inl IoEOF, rows1\<lparr>hasMc := False\<rparr>, mc1, dst1)
                 else do {
                   (r, s2) \<leftarrow> readResultSetHeaderPacket1 (mc1, dst1);
                   Some (r, rows1\<lparr>columns := [], columnNames := None, rdone := False\<rparr>, s2) } })"

lemma nextResultSet_available:
  assumes "nextResultSet rows mc = Some (Inr n, rows', mc')"
  shows "left_over mc' < left_over mc"
proof -
  have h: "hasMc rows" "conn_error mc = None"
    using assms by (auto simp: nextResultSet_def split: if_split_asm option.split_asm)
  obtain err mc1 where r: "(if rdone rows then Some (None, mc) else readUntilEOF mc) = Some (err, mc1)"
    using assms h by (auto simp: nextResultSet_def split del: if_split)
  have l: "left_over mc1 \<le> left_over mc"
    using r left_over_readUntilEOF by (auto split: if_split_asm)
  have "readResultSetHeaderPacket mc1 = Some (Inr n, mc')"
    using assms h r by (cases err) (auto simp: nextResultSet_def Let_def split: if_split_asm split del: if_split)
  then show ?thesis using readResultSetHeaderPacket_available l by fastforce
qed

lemma left_over_readUntilEOF1:
  "readUntilEOF1 (mc, dst) = Some (None, mc', dst') \<Longrightarrow> left_over mc' \<le> left_over mc"
proof (induction "left_over mc" arbitrary: mc dst rule: less_induct)
  case less
  then obtain r mc1 dst1 where r: "readPacket1 (mc, dst) = Some (r, mc1, dst1)"
    by (cases "readPacket1 (mc, dst)") (auto simp: readUntilEOF1.simps [of mc])
  with less.prems obtain data where d: "r = Inr data"
    by (cases r) (auto simp: readUntilEOF1.simps [of mc])
  note lt = readPacket1_available [OF r [unfolded d]]
  obtain q mc2 where q: "drain_packet data mc1 = Some (q, mc2)"
    using less.prems r d by (cases "drain_packet data mc1") (auto simp: readUntilEOF1.simps [of mc])
  show ?case
    using less.prems less.hyps [of mc2 dst1] lt left_over_drain_packet [OF q] r d q
    by (cases q) (auto simp: readUntilEOF1.simps [of mc])
qed

lemma nextResultSet1_available:
  assumes "nextResultSet1 rows (mc, dst) = Some (Inr n, rows', mc', dst')"
  shows "left_over mc' < left_over mc"
proof -
  have h: "hasMc rows" "conn_error mc = None"
    using assms by (auto simp: nextResultSet1_def split: if_split_asm option.split_asm)
  obtain err mc1 dst1 where r: "(if rdone rows then Some (None, mc, dst) else readUntilEOF1 (mc, dst)) = Some (err, mc1, dst1)"
    using assms h by (auto simp: nextResultSet1_def split del: if_split)
  have e: "err = None" using assms h r by (cases err) (auto simp: nextResultSet1_def)
  have l: "left_over mc1 \<le> left_over mc"
    using r e left_over_readUntilEOF1 by (auto split: if_split_asm)
  have "readResultSetHeaderPacket1 (mc1, dst1) = Some (Inr n, mc', dst')"
    using assms h r e by (auto simp: nextResultSet1_def Let_def split: if_split_asm split del: if_split)
  then show ?thesis using readResultSetHeaderPacket1_available l by fastforce
qed

function nextNotEmptyResultSet :: "rows \<Rightarrow> conn \<Rightarrow> ((error + int) \<times> rows \<times> conn) option" where
  "nextNotEmptyResultSet rows mc =
     (case nextResultSet rows mc of
        None \<Rightarrow> None
      | Some (Inl e, rows1, mc1) \<Rightarrow> Some (Inl e, rows1, mc1)
      | Some (Inr resLen, rows1, mc1) \<Rightarrow>
          if 0 < resLen then Some (Inr resLen, rows1, mc1)
          else nextNotEmptyResultSet (rows1\<lparr>rdone := True\<rparr>) mc1)"
  by pat_completeness auto
termination
  by (relation "measure (\<lambda>(rows, mc). left_over mc)") (auto intro: nextResultSet_available)

declare nextNotEmptyResultSet.simps [simp del]

function nextNotEmptyResultSet1 :: "rows \<Rightarrow> conn \<times> bytes \<Rightarrow> ((error + int) \<times> rows \<times> conn \<times> bytes) option" where
  "nextNotEmptyResultSet1 rows (mc, dst) =
     (case nextResultSet1 rows (mc, dst) of
        None \<Rightarrow> None
      | Some (Inl e, rows1, s1) \<Rightarrow> Some (Inl e, rows1, s1)
      | Some (Inr resLen, rows1, s1) \<Rightarrow>
          if 0 < resLen then Some (Inr resLen, rows1, s1)
          else nextNotEmptyResultSet1 (rows1\<lparr>rdone := True\<rparr>) s1)"
  by pat_completeness auto
termination
  by (relation "measure (\<lambda>(rows, mc, dst). left_over mc)") (auto intro: nextResultSet1_available)

declare nextNotEmptyResultSet1.simps [simp del]

text \<open>\<open>TextRows.NextResultSet\<close>: the columns are assigned before the error is returned.\<close>

definition NextResultSet :: "rows \<Rightarrow> conn \<Rightarrow> (error option \<times> rows \<times> conn) option" where
  "NextResultSet rows mc = do {
     (r, rows1, mc1) \<leftarrow> nextNotEmptyResultSet rows mc;
     case r of
       Inl e \<Rightarrow> Some (Some e, rows1, mc1)
     | Inr resLen \<Rightarrow> do {
         (c, mc2) \<leftarrow> readColumns resLen mc1;
         Some (case c of
             Inl e \<Rightarrow> (Some e, rows1\<lparr>columns := []\<rparr>, mc2)
           | Inr cols \<Rightarrow> (None, rows1\<lparr>columns := cols\<rparr>, mc2)) } }"

definition NextResultSet1 :: "rows \<Rightarrow> conn \<times> bytes \<Rightarrow> (error option \<times> rows \<times> conn \<times> bytes) option" where
  "NextResultSet1 rows s = do {
     (r, rows1, s1) \<leftarrow> nextNotEmptyResultSet1 rows s;
     case r of
       Inl e \<Rightarrow> Some (Some e, rows1, s1)
     | Inr resLen \<Rightarrow> do {
         (c, s2) \<leftarrow> readColumns1 resLen s1;
         Some (case c of
             Inl e \<Rightarrow> (Some e, rows1\<lparr>columns := []\<rparr>, s2)
           | Inr cols \<Rightarrow> (None, rows1\<lparr>columns := cols\<rparr>, s2)) } }"

section \<open>Queries\<close>

text \<open>After the header: the rows, positioned on the first result set that has columns.\<close>

definition start_rows :: "int \<Rightarrow> conn \<Rightarrow> ((error + rows) \<times> conn) option" where
  "start_rows resLen mc =
     (if resLen = 0 then do {
        (e, rows, mc1) \<leftarrow> NextResultSet (newRows\<lparr>rdone := True\<rparr>) mc;
        Some (if e = None \<or> e = Some IoEOF then Inr rows else Inl (the e), mc1) }
      else do {
        (c, mc1) \<leftarrow> readColumns resLen mc;
        Some (case c of Inl e \<Rightarrow> Inl e | Inr cols \<Rightarrow> Inr (newRows\<lparr>columns := cols\<rparr>), mc1) })"

definition start_rows1 :: "int \<Rightarrow> conn \<times> bytes \<Rightarrow> ((error + rows) \<times> conn \<times> bytes) option" where
  "start_rows1 resLen s =
     (if resLen = 0 then do {
        (e, rows, s1) \<leftarrow> NextResultSet1 (newRows\<lparr>rdone := True\<rparr>) s;
        Some (if e = None \<or> e = Some IoEOF then Inr rows else Inl (the e), s1) }
      else do {
        (c, s1) \<leftarrow> readColumns1 resLen s;
        Some (case c of Inl e \<Rightarrow> Inl e | Inr cols \<Rightarrow> Inr (newRows\<lparr>columns := cols\<rparr>), s1) })"

definition bad_conn :: "error \<Rightarrow> error" where
  "bad_conn e = the (markBadConn (Some e))"

text \<open>\<open>query\<close> and \<open>query1\<close> without arguments, as the proxy calls them.\<close>

definition query :: "bytes \<Rightarrow> conn \<Rightarrow> ((error + rows) \<times> conn) option" where
  "query q mc =
     (let mc1 = clearResult mc
      in if closed mc1 then Some (Inl DriverErrBadConn, mc1)
         else do {
           (err, mc2) \<leftarrow> writeCommandPacketStr comQuery q mc1;
           case err of
             Some e \<Rightarrow> Some (Inl (bad_conn e), mc2)
           | None \<Rightarrow> do {
               (r, mc3) \<leftarrow> readResultSetHeaderPacket mc2;
               case r of
                 Inl e \<Rightarrow> Some (Inl (bad_conn e), mc3)
               | Inr resLen \<Rightarrow> start_rows resLen mc3 } })"

definition query1 :: "bytes \<Rightarrow> conn \<times> bytes \<Rightarrow> ((error + rows) \<times> conn \<times> bytes) option" where
  "query1 q s = (case s of (mc, dst) \<Rightarrow>
     let mc1 = clearResult mc
     in if closed mc1 then Some (Inl DriverErrBadConn, mc1, dst)
        else do {
          (err, mc2) \<leftarrow> writeCommandPacketStr comQuery q mc1;
          case err of
            Some e \<Rightarrow> Some (Inl (bad_conn e), mc2, dst)
          | None \<Rightarrow> do {
              (r, s3) \<leftarrow> readResultSetHeaderPacket1 (mc2, dst);
              case r of
                Inl e \<Rightarrow> Some (Inl (bad_conn e), s3)
              | Inr resLen \<Rightarrow> start_rows1 resLen s3 } })"

definition exec :: "bytes \<Rightarrow> conn \<Rightarrow> (error option \<times> conn) option" where
  "exec q mc = do {
     (err, mc1) \<leftarrow> writeCommandPacketStr comQuery q (clearResult mc);
     case err of
       Some e \<Rightarrow> Some (markBadConn (Some e), mc1)
     | None \<Rightarrow> do {
         (r, mc2) \<leftarrow> readResultSetHeaderPacket mc1;
         case r of
           Inl e \<Rightarrow> Some (Some e, mc2)
         | Inr resLen \<Rightarrow> do {
             (e, mc3) \<leftarrow> (if 0 < resLen then skip_result mc2 else Some (None, mc2));
             case e of Some err \<Rightarrow> Some (Some err, mc3) | None \<Rightarrow> discardResults mc3 } } }"

definition Exec :: "bytes \<Rightarrow> conn \<Rightarrow> ((error + int list \<times> int list) \<times> conn) option" where
  "Exec q mc =
     (if closed mc then Some (Inl DriverErrBadConn, mc)
      else do {
        (e, mc1) \<leftarrow> exec q mc;
        Some (case e of None \<Rightarrow> Inr (affectedRows mc1, insertIds mc1)
              | Some err \<Rightarrow> Inl (bad_conn err), mc1) })"

definition begin_tx :: "bool \<Rightarrow> conn \<Rightarrow> (error option \<times> conn) option" where
  "begin_tx readOnly mc =
     (if closed mc then Some (Some DriverErrBadConn, mc)
      else do {
        (e, mc1) \<leftarrow> exec (str (if readOnly then ''START TRANSACTION READ ONLY'' else ''START TRANSACTION'')) mc;
        Some (markBadConn e, mc1) })"

text \<open>\<open>MysqlRows.Close\<close>, \<open>finish\<close> being nil: the buffer is flipped before it is drained.\<close>

definition rows_close :: "rows \<Rightarrow> conn \<Rightarrow> (error option \<times> rows \<times> conn) option" where
  "rows_close rows mc =
     (if \<not> hasMc rows then Some (None, rows, mc)
      else case conn_error mc of
        Some e \<Rightarrow> Some (Some e, rows, mc)
      | None \<Rightarrow> do {
          (e, mc1) \<leftarrow> (let mc0 = mc\<lparr>cbuf := flip (cbuf mc)\<rparr>
                       in if rdone rows then Some (None, mc0) else readUntilEOF mc0);
          case e of
            Some err \<Rightarrow> Some (Some err, rows\<lparr>hasMc := False\<rparr>, mc1)
          | None \<Rightarrow> do {
              (e2, mc2) \<leftarrow> discardResults (clearResult mc1);
              case e2 of
                Some err \<Rightarrow> Some (Some err, rows, mc2)
              | None \<Rightarrow> Some (None, rows\<lparr>hasMc := False\<rparr>, mc2) } })"

end
