(* ===== verification/MysqlProxy.thy ===== *)
theory MysqlProxy
  imports Query Route Weights Pool
begin

text \<open>
  The MySQL proxy (\<open>proxy/mysql.go\<close>): its set-up, the handling of a client's messages, and the
  forwarding of a replica's result.  A call that may loop for ever gives \<open>None\<close> when it does;
  inside, \<open>Some None\<close> is a panic.
\<close>

section \<open>Forwarding a result\<close>

text \<open>The loop of \<open>writeDataRow\<close>: only \<open>io.EOF\<close> ends it.\<close>

partial_function (option) row_loop :: "nat \<Rightarrow> rows \<Rightarrow> conn \<times> bytes \<Rightarrow> (conn \<times> bytes) option option" where
  [code]: "row_loop n rows s =
     (case Next1 n rows s of
        None \<Rightarrow> Some None
      | Some r \<Rightarrow> if fst r = Inl IoEOF then Some (Some (snd (snd r)))
                  else row_loop n (fst (snd r)) (snd (snd r)))"

definition writeDataRow :: "bytes \<Rightarrow> conn \<times> bytes \<Rightarrow> (error option \<times> conn \<times> bytes) option option" where
  "writeDataRow q s =
     (case query1 q s of
        None \<Rightarrow> Some None
      | Some (Inl e, s1) \<Rightarrow> Some (Some (Some e, s1))
      | Some (Inr rows, s1) \<Rightarrow>
          (case Columns rows (fst s1) of (names, rows1) \<Rightarrow>
             map_option (map_option (Pair None)) (row_loop (length names) rows1 s1)))"

section \<open>Set-up\<close>

definition dsn :: "secondary \<Rightarrow> bytes" where
  "dsn s = sUser s @ str '':'' @ sPassword s @ str ''@('' @ sHost s @ str '':'' @ itoa (sPort s) @
     str '')/'' @ sDbName s"

definition nanoseconds :: "int \<Rightarrow> int" where
  "nanoseconds secs = wrap64 (secs * 1000000000)"

text \<open>
  \<open>initMysqlDB\<close>: \<open>createConnector\<close> is the driver's \<open>CreateConnector\<close>.  A replica with a weight
  that is not positive, or with a DSN the driver refuses, is left out; the pool of the others
  panics on an impossible capacity.
\<close>

fun initMysqlDB :: "(bytes \<Rightarrow> error + 'k) \<Rightarrow> secondary list \<Rightarrow> ('k \<times> 'c pool) weighted list \<Rightarrow> int \<Rightarrow>
    (('k \<times> 'c pool) weighted list \<times> int) option" where
  "initMysqlDB createConnector [] dbs tot = Some (dbs, tot)"
| "initMysqlDB createConnector (s # ss) dbs tot =
     (if sWeight s \<le> 0 then initMysqlDB createConnector ss dbs tot
      else case createConnector (dsn s) of
             Inl e \<Rightarrow> initMysqlDB createConnector ss dbs tot
           | Inr k \<Rightarrow> do {
               let mn = (if 0 < sMaxIdleConnCount s then sMaxIdleConnCount s else 1);
               let mx = (if 0 < sMaxOpenConnsCount s then sMaxOpenConnsCount s else 10);
               let lt = (if 0 < sConnMaxLifetime s then nanoseconds (sConnMaxLifetime s) else nanoseconds 60);
               p \<leftarrow> NewConnectionPool mn mx lt;
               initMysqlDB createConnector ss
                 (dbs @ [\<lparr>wName = sName s, wDb = (k, p), wWeight = sWeight s\<rparr>])
                 (wrap64 (tot + sWeight s)) })"

section \<open>A client's session\<close>

text \<open>
  The replicas are handles into a list of pools, as the code shares them by pointer.  The
  world gives the results of the coming connects, and records the connections a pool closed.
\<close>

record mworld =
  connects :: "(error + conn) list"
  shutConns :: "conn list"

definition mconnect :: "mworld \<Rightarrow> (error + conn) \<times> mworld" where
  "mconnect w = (case connects w of
     [] \<Rightarrow> (Inl DriverErrBadConn, w) | r # rs \<Rightarrow> (r, w\<lparr>connects := rs\<rparr>))"

definition mshut :: "conn \<Rightarrow> mworld \<Rightarrow> mworld" where
  "mshut c w = w\<lparr>shutConns := c # shutConns w\<rparr>"

text \<open>
  \<open>MysqlProxy\<close> with what its two connections have been written: \<open>toClient\<close> on the client's,
  \<open>toMain\<close> on the main database's; \<open>mainErr\<close> is the error of the next write to the latter.
\<close>

record session =
  pools :: "conn pool list"
  dbs :: "nat weighted list"
  totalWeight :: int
  inTrans :: bool
  toClient :: bytes
  toMain :: bytes
  mainErr :: "error option"
  mworld :: mworld

text \<open>
  \<open>delegateSelect\<close>: whether the message has been dealt with, and the error of \<open>Get\<close>; the
  error of \<open>writeDataRow\<close> is dropped.  \<open>Put\<close> is deferred until the rows have been written.
\<close>

definition delegateSelect :: "(int \<Rightarrow> int) \<Rightarrow> bytes \<Rightarrow> session \<Rightarrow> ((bool \<times> error option) \<times> session) option option" where
  "delegateSelect intn buffer p =
     (case mysql_route (inTrans p) (int (length buffer)) buffer of
        None \<Rightarrow> Some None
      | Some (ToMain, tx) \<Rightarrow> Some (Some ((False, None), p\<lparr>inTrans := tx\<rparr>))
      | Some (ToReplica sql, tx) \<Rightarrow>
          (case chooseByWeight intn (totalWeight p) (dbs p) of
             None \<Rightarrow> Some None
           | Some db \<Rightarrow>
               (case poolGet mconnect (pools p ! db) (mworld p) of
                  (Inl e, cp, w) \<Rightarrow>
                    Some (Some ((True, Some e), p\<lparr>pools := (pools p)[db := cp], mworld := w\<rparr>))
                | (Inr c, cp, w) \<Rightarrow>
                    map_option (map_option (\<lambda>(_, c', out).
                      case poolPut mshut c' cp w of (cp', w') \<Rightarrow>
                        ((True, None),
                         p\<lparr>pools := (pools p)[db := cp'], mworld := w', toClient := out\<rparr>)))
                      (writeDataRow sql (c, toClient p)))))"

text \<open>
  \<open>handleInbound\<close>: one message per read of the client's connection, until its end.  A message
  not dealt with goes to the main database unchanged.
\<close>

fun handleInbound :: "(int \<Rightarrow> int) \<Rightarrow> bytes list \<Rightarrow> session \<Rightarrow> session option option" where
  "handleInbound intn [] p = Some (Some p)"
| "handleInbound intn (buff # rest) p =
     (case delegateSelect intn buff p of
        None \<Rightarrow> None
      | Some None \<Rightarrow> Some None
      | Some (Some ((flag, err), p1)) \<Rightarrow>
          if flag then handleInbound intn rest p1
          else case err of
            Some e \<Rightarrow> Some (Some p1)
          | None \<Rightarrow> (case mainErr p1 of
              Some e \<Rightarrow> Some (Some p1)
            | None \<Rightarrow> handleInbound intn rest (p1\<lparr>toMain := toMain p1 @ buff\<rparr>)))"

text \<open>\<open>handleOutbound\<close> copies what the main database sends to the client, read by read.\<close>

fun handleOutbound :: "bytes list \<Rightarrow> session \<Rightarrow> session" where
  "handleOutbound [] p = p"
| "handleOutbound (buff # rest) p =
     (if length buff < 1 then handleOutbound rest p
      else handleOutbound rest (p\<lparr>toClient := toClient p @ buff\<rparr>))"

end
