(* ===== verification/Forward.thy ===== *)
theory Forward
  imports Frames MysqlProxy
begin

text \<open>
  The way of a replica's result to the client: column definitions, rows and whole text result
  sets as a server writes them, and the proof that the proxy forwards them byte by byte, stops
  when they end, and does not stop when the replica's connection breaks.
\<close>

section \<open>Column definitions\<close>

record column_def =
  cdCatalog :: bytes
  cdSchema :: bytes
  cdTable :: bytes
  cdOrgTable :: bytes
  cdName :: bytes
  cdOrgName :: bytes
  cdCharset :: byte
  cdCollation :: byte
  cdLength :: u32
  cdType :: byte
  cdFlags :: u16
  cdDecimals :: byte

definition column_packet :: "column_def \<Rightarrow> bytes" where
  "column_packet c = les (cdCatalog c) @ les (cdSchema c) @ les (cdTable c) @ les (cdOrgTable c) @
     les (cdName c) @ les (cdOrgName c) @ [0x0c, cdCharset c, cdCollation c] @ putle 4 (cdLength c) @
     [cdType c] @ putle 2 (cdFlags c) @ [cdDecimals c, 0, 0]"

text \<open>The field a client keeps of it; the table only when the columns get qualified names.\<close>

definition column_field :: "bool \<Rightarrow> column_def \<Rightarrow> mysqlField" where
  "column_field withAlias c =
     \<lparr>tableName = (if withAlias then cdTable c else []), fieldName = cdName c, fieldLength = cdLength c,
      fieldFlags = cdFlags c, fieldType = cdType c, fieldDecimals = cdDecimals c, charSet = cdCharset c\<rparr>"

definition column_ok :: "column_def \<Rightarrow> bool" where
  "column_ok c \<longleftrightarrow> list_all (\<lambda>s. length s < 2 ^ 62)
     [cdCatalog c, cdSchema c, cdTable c, cdOrgTable c, cdName c, cdOrgName c]"

lemma skipLES_les:
  assumes "length s < 2 ^ 62"
  shows "skipLengthEncodedString (les s @ r) = Some (int (length (les s)), None)"
proof -
  define L where "L = int (length (lei (of_nat (length s))))"
  have L: "0 \<le> L" "L \<le> 9" using length_lei by (auto simp: L_def)
  have "readLengthEncodedInteger (les s @ r) = Some (of_nat (length s), False, L)"
    using readLEI_lei [of "of_nat (length s)" "s @ r"] by (simp add: les_def L_def)
  moreover have "wrap64 (L + int (length s)) = L + int (length s)"
    using assms L by simp
  ultimately show ?thesis
    using assms L
    by (simp add: skipLengthEncodedString_def sint_of_nat_len of_nat_less_1 of_nat_eq_0 Let_def les_def L_def)
qed

lemma skip_at_les:
  assumes "\<exists>r. D = pre @ les s @ r" and "length s < 2 ^ 62" and "pre' = pre @ les s"
  shows "skip_at (D, sp) (int (length pre)) = Some (Inr (int (length pre')))"
  using skipLES_les [OF assms(2)] assms(1) by (auto simp: skip_at_def assms(3))

lemma string_at_les:
  assumes "\<exists>r. D = pre @ les s @ r" and "length s < 2 ^ 62" and "pre' = pre @ les s"
  shows "string_at (D, sp) (int (length pre)) = Some (Inr (s, int (length pre')))"
  using readLES_les [OF assms(2)] assms(1) by (auto simp: string_at_def assms(3))

lemma le_at:
  assumes "\<exists>r. D = pre @ putle k n @ r"
  shows "k = 4 \<Longrightarrow> le32_at (D, sp) (int (length pre)) = Some (getle (putle 4 n))"
    and "k = 2 \<Longrightarrow> le16_at (D, sp) (int (length pre)) = Some (getle (putle 2 n))"
  using assms by (auto simp: le32_at_def le16_at_def slice_def Let_def nat_add_distrib)

lemma idx_at: "\<exists>r. D = pre @ [x] @ r \<Longrightarrow> idx D (int (length pre)) = Some x"
  by (auto simp: idx_def)

lemma parse_column_packet:
  assumes "column_ok c" and "i < length cols" and "cols ! i = noField"
  shows "parse_column withAlias (column_packet c, sp) i cols = Some (Inr (cols[i := column_field withAlias c]))"
proof -
  define D where "D = column_packet c"
  define p1 where "p1 = les (cdCatalog c)"
  define p2 where "p2 = p1 @ les (cdSchema c)"
  define p3 where "p3 = p2 @ les (cdTable c)"
  define p4 where "p4 = p3 @ les (cdOrgTable c)"
  define p5 where "p5 = p4 @ les (cdName c)"
  define p6 where "p6 = p5 @ les (cdOrgName c)"
  define p7 where "p7 = p6 @ [0x0c]"
  define p8 where "p8 = p7 @ [cdCharset c, cdCollation c]"
  define p9 where "p9 = p8 @ putle 4 (cdLength c)"
  define p10 where "p10 = p9 @ [cdType c]"
  define p11 where "p11 = p10 @ putle 2 (cdFlags c)"
  note ps = p1_def p2_def p3_def p4_def p5_def p6_def p7_def p8_def p9_def p10_def p11_def
  have D: "\<exists>r. D = [] @ les (cdCatalog c) @ r" "\<exists>r. D = p1 @ les (cdSchema c) @ r"
    "\<exists>r. D = p2 @ les (cdTable c) @ r" "\<exists>r. D = p3 @ les (cdOrgTable c) @ r" "\<exists>r. D = p4 @ les (cdName c) @ r"
    "\<exists>r. D = p5 @ les (cdOrgName c) @ r" "\<exists>r. D = p7 @ [cdCharset c] @ r"
    "\<exists>r. D = p8 @ putle 4 (cdLength c) @ r" "\<exists>r. D = p9 @ [cdType c] @ r"
    "\<exists>r. D = p10 @ putle 2 (cdFlags c) @ r" "\<exists>r. D = p11 @ [cdDecimals c] @ r"
    by (simp_all add: D_def column_packet_def ps)
  have ok: "length (cdCatalog c) < 2 ^ 62" "length (cdSchema c) < 2 ^ 62" "length (cdTable c) < 2 ^ 62"
    "length (cdOrgTable c) < 2 ^ 62" "length (cdName c) < 2 ^ 62" "length (cdOrgName c) < 2 ^ 62"
    using assms(1) by (simp_all add: column_ok_def)
  have s: "skip_at (D, sp) 0 = Some (Inr (int (length p1)))"
    "skip_at (D, sp) (int (length p1)) = Some (Inr (int (length p2)))"
    "skip_at (D, sp) (int (length p2)) = Some (Inr (int (length p3)))"
    "string_at (D, sp) (int (length p2)) = Some (Inr (cdTable c, int (length p3)))"
    "skip_at (D, sp) (int (length p3)) = Some (Inr (int (length p4)))"
    "string_at (D, sp) (int (length p4)) = Some (Inr (cdName c, int (length p5)))"
    "skip_at (D, sp) (int (length p5)) = Some (Inr (int (length p6)))"
    using skip_at_les [OF D(1) ok(1), of p1 sp] skip_at_les [OF D(2) ok(2) p2_def]
      skip_at_les [OF D(3) ok(3) p3_def] string_at_les [OF D(3) ok(3) p3_def]
      skip_at_les [OF D(4) ok(4) p4_def] string_at_les [OF D(5) ok(5) p5_def]
      skip_at_les [OF D(6) ok(6) p6_def] by (simp_all add: p1_def)
  have pos: "int (length p6) + 1 = int (length p7)" "3 + int (length p6) = int (length p8)"
    "7 + int (length p6) = int (length p9)" "8 + int (length p6) = int (length p10)"
    "10 + int (length p6) = int (length p11)"
    by (simp_all add: p7_def p8_def p9_def p10_def p11_def)
  have t: "idx D (int (length p7)) = Some (cdCharset c)" "le32_at (D, sp) (int (length p8)) = Some (cdLength c)"
    "idx D (int (length p9)) = Some (cdType c)" "le16_at (D, sp) (int (length p10)) = Some (cdFlags c)"
    "idx D (int (length p11)) = Some (cdDecimals c)"
    using idx_at [OF D(7)] le_at(1) [OF D(8) refl, of sp] idx_at [OF D(9)] le_at(2) [OF D(10) refl, of sp]
      idx_at [OF D(11)] by (simp_all add: getle_putle_id)
  show ?thesis
    unfolding parse_column_def D_def [symmetric]
    using assms(2,3)
    by (cases withAlias) (simp_all add: s t pos set_col_def column_field_def noField_def Let_def)
qed

section \<open>Rows\<close>

definition row_bytes :: "bytes option list \<Rightarrow> bytes" where
  "row_bytes vs = concat (map enc_value vs)"

text \<open>
  A connection as the proxy opens it, without parameters in the DSN: dates stay text.  A
  number that does not parse gives an error of \<open>strconv\<close>, never \<open>io.EOF\<close>.
\<close>

definition plain_values :: "conn \<Rightarrow> bool" where
  "plain_values mc \<longleftrightarrow> \<not> parseTime mc \<and> (\<forall>n s. floatErr mc n s \<noteq> Some IoEOF)"

lemma uint_loop_no_eof: "uint_loop lim n s \<noteq> Inl IoEOF"
  by (induction lim n s rule: uint_loop.induct) (auto simp: errSyntax_def errRange_def Let_def)

lemma onOk_no_eof: "m \<noteq> Inl IoEOF \<Longrightarrow> (\<And>x. f x \<noteq> Inl IoEOF) \<Longrightarrow> onOk m f \<noteq> Inl IoEOF"
  by (cases m) auto

lemma parseUint_no_eof: "parseUint n s \<noteq> Inl IoEOF"
  using uint_loop_no_eof by (simp add: parseUint_def errSyntax_def)

lemma parseInt_no_eof: "parseInt n s \<noteq> Inl IoEOF"
  by (simp add: parseInt_def Let_def errSyntax_def errRange_def onOk_no_eof parseUint_no_eof)

lemma convert_cell_no_eof:
  assumes "plain_values mc"
  shows "convert_cell mc col buf \<noteq> Inl IoEOF"
proof -
  have "(case floatErr mc n buf of Some e \<Rightarrow> Inl e | None \<Rightarrow> Inr (VFloat n buf)) \<noteq> Inl IoEOF" for n
    using assms by (auto simp: plain_values_def split: option.split)
  then show ?thesis
    using assms by (simp add: convert_cell_def Let_def plain_values_def onOk_no_eof parseUint_no_eof parseInt_no_eof)
qed

lemma read_value:
  assumes "value_ok v"
  shows "\<exists>s. readLengthEncodedString (enc_value v @ r, sp) = Some (s, v = None, int (length (enc_value v)), None)"
proof (cases v)
  case None
  then show ?thesis using readLES_null [of r sp] by (simp add: enc_value_def)
next
  case (Some s)
  then show ?thesis using readLES_les [of s r sp] assms by (simp add: enc_value_def value_ok_def)
qed

lemma row_cells_values:
  assumes "\<And>col s. convert_cell mc col s \<noteq> Inl IoEOF" and "list_all value_ok vs" and "i + length vs \<le> length cols"
    and "D = pre @ row_bytes vs"
  shows "\<exists>x. row_cells mc cols (D, sp) (int (length pre)) i (length vs) = Some x \<and> x \<noteq> Inl IoEOF"
  using assms(2-4)
proof (induction vs arbitrary: pre i)
  case (Cons v vs)
  have d: "slice_from (D, sp) (int (length pre)) = Some (enc_value v @ row_bytes vs, sp)"
    using Cons.prems(3) by (simp add: row_bytes_def)
  obtain s where r: "readLengthEncodedString (enc_value v @ row_bytes vs, sp) =
      Some (s, v = None, int (length (enc_value v)), None)"
    using read_value [of v "row_bytes vs" sp] Cons.prems(1) by auto
  have "int (length (pre @ enc_value v)) = int (length pre) + int (length (enc_value v))" by simp
  moreover obtain x where "row_cells mc cols (D, sp) (int (length (pre @ enc_value v))) (i + 1) (length vs) = Some x"
    "x \<noteq> Inl IoEOF"
    using Cons.IH [of "i + 1" "pre @ enc_value v"] Cons.prems by (auto simp: row_bytes_def)
  ultimately have rest: "row_cells mc cols (D, sp) (int (length pre) + int (length (enc_value v))) (i + 1) (length vs) = Some x"
    "x \<noteq> Inl IoEOF" by simp_all
  have col: "idx cols (int i) = Some (cols ! i)" using Cons.prems(2) by simp
  show ?case
    using assms(1) [of "cols ! i" s] rest
    by (cases "convert_cell mc (cols ! i) s"; cases x) (auto simp: d r col)
qed simp

text \<open>The first byte of a row is never the error marker, and the end marker only in a longer packet.\<close>

lemma les_hd: "hd (les s) \<noteq> iERR" "les s \<noteq> []" "hd (les s) = iEOF \<Longrightarrow> 9 \<le> length (les s)"
proof -
  have b: "n \<le> 250 \<Longrightarrow> ucast n \<noteq> (0xff :: byte) \<and> ucast n \<noteq> (0xfe :: byte)" for n :: u64
  proof -
    assume n: "n \<le> 250"
    then have "unat n \<le> 250" by (simp add: word_le_nat_alt)
    then have "unat (ucast n :: byte) \<le> 250" by (simp add: unsigned_ucast_eq take_bit_eq_mod)
    then show ?thesis by (auto simp: word_le_nat_alt)
  qed
  show "hd (les s) \<noteq> iERR" "les s \<noteq> []" "hd (les s) = iEOF \<Longrightarrow> 9 \<le> length (les s)"
    using b by (auto simp: les_def lei_cases putle_bytes byte_at_def iERR_def iEOF_def split: if_splits)
qed

lemma row_bytes_marks:
  assumes "vs \<noteq> []"
  shows "row_bytes vs \<noteq> []" "row_bytes vs ! 0 \<noteq> iERR" "row_bytes vs ! 0 = iEOF \<Longrightarrow> length (row_bytes vs) \<noteq> 5"
proof -
  obtain v us where vs: "vs = v # us" using assms by (cases vs) auto
  have e: "enc_value v \<noteq> []" "hd (enc_value v) \<noteq> iERR" "hd (enc_value v) = iEOF \<Longrightarrow> 9 \<le> length (enc_value v)"
    using les_hd by (cases v; simp add: enc_value_def packet_bytes)+
  then show "row_bytes vs \<noteq> []" "row_bytes vs ! 0 \<noteq> iERR"
    "row_bytes vs ! 0 = iEOF \<Longrightarrow> length (row_bytes vs) \<noteq> 5"
    by (auto simp: row_bytes_def vs nth_append hd_conv_nth)
qed

section \<open>A reply as the server sends it\<close>

text \<open>Packets with consecutive sequence numbers, and the number after them.\<close>

fun packets :: "byte \<Rightarrow> bytes list \<Rightarrow> bytes" where
  "packets s [] = []"
| "packets s (p # ps) = frames s p @ packets (s + of_nat (frame_count p)) ps"

fun seq_after :: "byte \<Rightarrow> bytes list \<Rightarrow> byte" where
  "seq_after s [] = s"
| "seq_after s (p # ps) = seq_after (s + of_nat (frame_count p)) ps"

lemma packets_append: "packets s (ps @ qs) = packets s ps @ packets (seq_after s ps) qs"
  by (induction ps arbitrary: s) auto

lemma seq_after_append: "seq_after s (ps @ qs) = seq_after (seq_after s ps) qs"
  by (induction ps arbitrary: s) auto

text \<open>A connection that has only read on, at most taking over a status.\<close>

definition moved :: "conn \<Rightarrow> conn \<Rightarrow> bool" where
  "moved mc mc' \<longleftrightarrow> mc' = mc\<lparr>cbuf := cbuf mc', cnet := cnet mc', sequence := sequence mc', cstatus := cstatus mc'\<rparr>"

lemma moved_trans: "moved a b \<Longrightarrow> moved b c \<Longrightarrow> moved a c"
  by (cases a; cases b; cases c) (simp add: moved_def)

lemma moved_refl [simp]: "moved a a"
  by (simp add: moved_def)

lemma moved_status [simp]: "moved a (b\<lparr>cstatus := st\<rparr>) \<longleftrightarrow> moved a b"
  by (cases a; cases b) (simp add: moved_def)

lemma moved_keeps:
  assumes "moved a b"
  shows "cfg b = cfg a" "Conn.closed b = Conn.closed a" "parseTime b = parseTime a" "floatErr b = floatErr a"
    "sent b = sent a" "wresults b = wresults a" "netClosed b = netClosed a" "canceled b = canceled a"
proof -
  define b' where "b' = b"
  have b: "b = a\<lparr>cbuf := cbuf b', cnet := cnet b', sequence := sequence b', cstatus := cstatus b'\<rparr>"
    using assms by (simp add: moved_def b'_def)
  show "cfg b = cfg a" "Conn.closed b = Conn.closed a" "parseTime b = parseTime a" "floatErr b = floatErr a"
    "sent b = sent a" "wresults b = wresults a" "netClosed b = netClosed a" "canceled b = canceled a"
    by (subst b, simp)+
qed

text \<open>Waiting for the packets \<open>ps\<close>, then \<open>tail\<close>.\<close>

definition awaiting :: "bytes list \<Rightarrow> bytes \<Rightarrow> conn \<Rightarrow> bool" where
  "awaiting ps tail mc \<longleftrightarrow> readable mc \<and> incoming mc = packets (sequence mc) ps @ tail"

lemma awaiting_status [simp]: "awaiting ps tail (mc\<lparr>cstatus := st\<rparr>) = awaiting ps tail mc"
  by (simp add: awaiting_def readable_def incoming_def)

lemma read1_step:
  assumes "awaiting (p # ps) tail mc" and "p \<noteq> []"
  obtains v mc' where "readPacket1 (mc, dst) = Some (Inr v, mc', dst @ frames (sequence mc) p)" "fst v = p"
    "awaiting ps tail mc'" "moved mc mc'" "sequence mc' = sequence mc + of_nat (frame_count p)"
    "cstatus mc' = cstatus mc"
proof -
  let ?rest = "packets (sequence mc + of_nat (frame_count p)) ps @ tail"
  have a: "readable mc" "incoming mc = frames (sequence mc) p @ ?rest"
    using assms(1) by (simp_all add: awaiting_def)
  obtain v b nc where r: "readPacket mc = Some (Inr v, mc\<lparr>cbuf := b, cnet := nc, sequence := sequence mc + of_nat (frame_count p)\<rparr>)"
    "fst v = p" "incoming (mc\<lparr>cbuf := b, cnet := nc\<rparr>) = ?rest" "readable (mc\<lparr>cbuf := b, cnet := nc\<rparr>)"
    using read_loop_frames [OF a, of None] assms(2) by (auto simp: readPacket_def collected_def)
  define mc' where "mc' = mc\<lparr>cbuf := b, cnet := nc, sequence := sequence mc + of_nat (frame_count p)\<rparr>"
  have mc': "readPacket mc = Some (Inr v, mc')" "incoming mc' = ?rest" "readable mc'"
    "sequence mc' = sequence mc + of_nat (frame_count p)" "cstatus mc' = cstatus mc" "moved mc mc'"
    using r by (simp_all add: mc'_def incoming_def readable_def moved_def)
  obtain fwd where f: "\<And>dst. read_loop1 None (mc, dst) = map_option (\<lambda>(r, mc'). (r, mc', dst @ fwd)) (read_loop None mc)"
    "\<And>v mc'. read_loop None mc = Some (Inr v, mc') \<Longrightarrow> incoming mc = fwd @ incoming mc'"
    using read_loop1_forwards [of mc None] a(1) unfolding readable_def by blast
  have "fwd = frames (sequence mc) p"
    using f(2) mc'(1,2) a(2) by (simp add: readPacket_def)
  then have "readPacket1 (mc, dst) = Some (Inr v, mc', dst @ frames (sequence mc) p)"
    using f(1) mc'(1) by (simp add: readPacket_def readPacket1_def)
  with mc' r(2) show thesis by (intro that [of v mc']) (simp_all add: awaiting_def)
qed

definition eof_packet :: "bytes \<Rightarrow> bytes" where
  "eof_packet st = [iEOF, 0, 0] @ st"

lemma columns_end_eof: "length st = 2 \<Longrightarrow> columns_end (eof_packet st, sp)"
  by (simp add: columns_end_def eof_packet_def)

lemma column_packet_more: "\<not> columns_end (column_packet c, sp)" "column_packet c \<noteq> []"
  using les_hd(2) [of "cdCatalog c"] by (auto simp: columns_end_def column_packet_def)

lemma columns_loop1_reads:
  assumes "awaiting (map column_packet ds @ eof_packet st # ps) tail mc" and "length st = 2"
    and "list_all column_ok ds" and "cnt = length dn + length ds"
  shows "\<exists>mc'. columns_loop1 cnt (length dn) (dn @ replicate (length ds) noField) (mc, dst) =
      Some (Inr (dn @ map (column_field (columnsWithAlias (cfg mc))) ds), mc',
        dst @ packets (sequence mc) (map column_packet ds @ [eof_packet st])) \<and>
    awaiting ps tail mc' \<and> moved mc mc' \<and>
    sequence mc' = seq_after (sequence mc) (map column_packet ds @ [eof_packet st]) \<and> cstatus mc' = cstatus mc"
  using assms
proof (induction ds arbitrary: dn mc dst)
  case Nil
  have "eof_packet st \<noteq> []" by (simp add: eof_packet_def)
  with Nil.prems(1) obtain v mc' where r: "readPacket1 (mc, dst) = Some (Inr v, mc', dst @ frames (sequence mc) (eof_packet st))"
    "fst v = eof_packet st" "awaiting ps tail mc'" "moved mc mc'"
    "sequence mc' = sequence mc + of_nat (frame_count (eof_packet st))" "cstatus mc' = cstatus mc"
    using read1_step [of "eof_packet st" ps tail mc dst] by auto
  have "columns_end v" using columns_end_eof [OF Nil.prems(2), of "snd v"] r(2) by (cases v) simp
  then show ?case using r Nil.prems(4)
    by (intro exI [of _ mc']) (subst columns_loop1.simps, simp)
next
  case (Cons d ds)
  obtain v mc1 where r: "readPacket1 (mc, dst) = Some (Inr v, mc1, dst @ frames (sequence mc) (column_packet d))"
    "fst v = column_packet d" "awaiting (map column_packet ds @ eof_packet st # ps) tail mc1" "moved mc mc1"
    "sequence mc1 = sequence mc + of_nat (frame_count (column_packet d))" "cstatus mc1 = cstatus mc"
    by (rule read1_step [of "column_packet d" "map column_packet ds @ eof_packet st # ps" tail mc dst])
      (use Cons.prems(1) column_packet_more(2) in simp_all)
  have v: "v = (column_packet d, snd v)" using r(2) by (cases v) simp
  define dn' where "dn' = dn @ [column_field (columnsWithAlias (cfg mc)) d]"
  have pc: "parse_column (columnsWithAlias (cfg mc1)) v (length dn) (dn @ replicate (length (d # ds)) noField) =
      Some (Inr (dn' @ replicate (length ds) noField))"
    using parse_column_packet [of d "length dn" "dn @ replicate (length (d # ds)) noField"] Cons.prems(3)
      moved_keeps(1) [OF r(4)] by (subst v) (simp add: dn'_def nth_append list_update_append)
  obtain mc' where ih: "columns_loop1 cnt (length dn') (dn' @ replicate (length ds) noField) (mc1, dst @ frames (sequence mc) (column_packet d)) =
      Some (Inr (dn' @ map (column_field (columnsWithAlias (cfg mc1))) ds), mc',
        (dst @ frames (sequence mc) (column_packet d)) @ packets (sequence mc1) (map column_packet ds @ [eof_packet st]))"
    "awaiting ps tail mc'" "moved mc1 mc'"
    "sequence mc' = seq_after (sequence mc1) (map column_packet ds @ [eof_packet st])" "cstatus mc' = cstatus mc1"
    using Cons.IH [of mc1 dn' "dst @ frames (sequence mc) (column_packet d)"] r(3) Cons.prems(2-4)
    by (auto simp: dn'_def)
  have "\<not> columns_end v" using column_packet_more(1) v by metis
  then show ?case
    using r ih pc moved_trans [OF r(4) ih(3)] moved_keeps(1) [OF r(4)]
    by (intro exI [of _ mc']) (subst columns_loop1.simps, simp add: dn'_def)
qed

text \<open>The loop of \<open>writeDataRow\<close> on the rows of one result set.\<close>

definition row_ok :: "nat \<Rightarrow> bytes option list \<Rightarrow> bool" where
  "row_ok n vs \<longleftrightarrow> length vs = n \<and> list_all value_ok vs"

lemma Next1_open:
  assumes "hasMc r" and "\<not> rdone r" and "\<not> Conn.closed mc"
    and "readPacket1 (mc, dst) = Some (Inr v, mc1, dst1)"
  shows "Next1 n r (mc, dst) =
    map_option (\<lambda>(x, r', mc'). (x, r', mc', dst1)) (row_packet n v r mc1)"
  using assms
  by (cases "row_packet n v r mc1") (auto simp: Next1_def conn_error_def readRow1_def)

lemma row_packet_row:
  assumes "plain_values mc" and "row_ok n vs" and "0 < n" and "length (columns r) = n"
  shows "\<exists>x. row_packet n (row_bytes vs, sp) r mc = Some (x, r, mc) \<and> x \<noteq> Inl IoEOF"
proof -
  have vs: "vs \<noteq> []" "length vs = n" "list_all value_ok vs" using assms(2,3) by (auto simp: row_ok_def)
  note m = row_bytes_marks [OF vs(1)]
  obtain x where "row_cells mc (columns r) (row_bytes vs, sp) 0 0 n = Some x" "x \<noteq> Inl IoEOF"
    using row_cells_values [of mc vs 0 "columns r" "row_bytes vs" "[]" sp]
      convert_cell_no_eof [OF assms(1)] vs assms(4) by auto
  then show ?thesis using m
    by (auto simp: row_packet_def)
qed

lemma row_packet_eof:
  assumes "readStatus st = Some w" and "length st = 2"
  shows "\<exists>r'. row_packet n (eof_packet st, sp) r mc = Some (Inl IoEOF, r', mc\<lparr>cstatus := w\<rparr>)"
  using assms by (simp add: row_packet_def eof_packet_def Let_def)

lemma row_loop_rows:
  assumes "awaiting (map row_bytes rws @ ps) tail mc" and "list_all (row_ok n) rws" and "0 < n"
    and "hasMc r" and "\<not> rdone r" and "length (columns r) = n"
    and "plain_values mc" and "\<not> Conn.closed mc"
  shows "\<exists>mc'. row_loop n r (mc, dst) = row_loop n r (mc', dst @ packets (sequence mc) (map row_bytes rws)) \<and>
    awaiting ps tail mc' \<and> moved mc mc' \<and> sequence mc' = seq_after (sequence mc) (map row_bytes rws)"
  using assms(1,2,7,8)
proof (induction rws arbitrary: mc dst)
  case Nil
  then show ?case by auto
next
  case (Cons vs rws)
  have ok: "row_ok n vs" "list_all (row_ok n) rws" using Cons.prems(2) by auto
  have ne: "row_bytes vs \<noteq> []" using row_bytes_marks(1) [of vs] ok(1) assms(3) by (auto simp: row_ok_def)
  obtain v mc1 where v: "readPacket1 (mc, dst) = Some (Inr v, mc1, dst @ frames (sequence mc) (row_bytes vs))"
    "fst v = row_bytes vs" "awaiting (map row_bytes rws @ ps) tail mc1" "moved mc mc1"
    "sequence mc1 = sequence mc + of_nat (frame_count (row_bytes vs))"
    by (rule read1_step [of "row_bytes vs" "map row_bytes rws @ ps" tail mc dst])
      (use Cons.prems(1) ne in simp_all)
  have p1: "plain_values mc1" "\<not> Conn.closed mc1"
    using moved_keeps [OF v(4)] Cons.prems(3,4) by (simp_all add: plain_values_def)
  obtain x where x: "row_packet n v r mc1 = Some (x, r, mc1)" "x \<noteq> Inl IoEOF"
    using row_packet_row [OF p1(1) ok(1) assms(3,6), of "snd v"] v(2) by (cases v) auto
  have "Next1 n r (mc, dst) = Some (x, r, mc1, dst @ frames (sequence mc) (row_bytes vs))"
    using Next1_open [OF assms(4,5) Cons.prems(4) v(1)] x(1) by simp
  then have step: "row_loop n r (mc, dst) = row_loop n r (mc1, dst @ frames (sequence mc) (row_bytes vs))"
    using x(2) by (subst row_loop.simps) simp
  from Cons.IH [OF v(3) ok(2) p1, of "dst @ frames (sequence mc) (row_bytes vs)"] show ?case
    using step v(5) moved_trans [OF v(4)] by auto
qed

lemma row_loop_reads:
  assumes "awaiting (map row_bytes rws @ eof_packet st # ps) tail mc"
    and "readStatus st = Some w" and "length st = 2" and "list_all (row_ok n) rws" and "0 < n"
    and "hasMc r" and "\<not> rdone r" and "length (columns r) = n"
    and "plain_values mc" and "\<not> Conn.closed mc"
  shows "\<exists>mc'. row_loop n r (mc, dst) =
      Some (Some (mc', dst @ packets (sequence mc) (map row_bytes rws @ [eof_packet st]))) \<and>
    awaiting ps tail mc' \<and> moved mc mc' \<and> cstatus mc' = w"
proof -
  define d where "d = dst @ packets (sequence mc) (map row_bytes rws)"
  obtain mc1 where r: "row_loop n r (mc, dst) = row_loop n r (mc1, d)" "awaiting (eof_packet st # ps) tail mc1"
    "moved mc mc1" "sequence mc1 = seq_after (sequence mc) (map row_bytes rws)"
    using row_loop_rows [OF assms(1,4-10), of dst] by (auto simp: d_def)
  have "eof_packet st \<noteq> []" by (simp add: eof_packet_def)
  then obtain v mc2 where v: "readPacket1 (mc1, d) = Some (Inr v, mc2, d @ frames (sequence mc1) (eof_packet st))"
    "fst v = eof_packet st" "awaiting ps tail mc2" "moved mc1 mc2"
    using read1_step [OF r(2), of d] by metis
  obtain r' where "row_packet n v r mc2 = Some (Inl IoEOF, r', mc2\<lparr>cstatus := w\<rparr>)"
    using row_packet_eof [OF assms(2,3), of n "snd v" r mc2] v(2) by (cases v) auto
  then have "Next1 n r (mc1, d) =
      Some (Inl IoEOF, r', mc2\<lparr>cstatus := w\<rparr>, d @ frames (sequence mc1) (eof_packet st))"
    using Next1_open [OF assms(6,7) _ v(1)] moved_keeps(2) [OF r(3)] assms(10) by simp
  then have "row_loop n r (mc1, d) = Some (Some (mc2\<lparr>cstatus := w\<rparr>, d @ frames (sequence mc1) (eof_packet st)))"
    by (subst row_loop.simps) simp
  with v(3,4) r show ?thesis
    by (intro exI [of _ "mc2\<lparr>cstatus := w\<rparr>"]) (auto simp: d_def packets_append intro: moved_trans)
qed

section \<open>The header\<close>

lemma lei_marks:
  assumes "0 < n" and "n < 2 ^ 62"
  shows "lei (of_nat n) ! 0 \<notin> {iOK, iERR, iLocalInFile}"
proof -
  let ?w = "of_nat n :: u64"
  have w: "unat ?w = n" using assms by (simp only: unsigned_of_nat) (simp add: take_bit_nat_eq_self)
  show ?thesis
  proof (cases "?w \<le> 250")
    case True
    then have "n \<le> 250" using w by (simp add: word_le_nat_alt)
    then have "unat (ucast ?w :: byte) = n"
      using w by (simp add: unsigned_ucast_eq take_bit_nat_eq_self)
    then have "ucast ?w \<notin> {iOK, iERR, iLocalInFile}"
      using assms(1) \<open>n \<le> 250\<close> by (auto simp: packet_bytes)
    then show ?thesis using True by (simp add: lei_cases putle_bytes byte_at_def)
  next
    case False
    then show ?thesis by (simp add: lei_cases packet_bytes)
  qed
qed

lemma header_packet_columns:
  assumes "0 < n" and "n < 2 ^ 62"
  shows "header_packet (lei (of_nat n), sp) mc = Some (Inr (int n), mc)"
  using lei_marks [OF assms] readLEI_lei [of "of_nat n" "[]"] sint_of_nat_len [OF assms(2)]
  by (auto simp: header_packet_def)

section \<open>The whole reply\<close>

text \<open>
  A text result set: the number of columns, their definitions and an end mark; then the rows
  and another end mark.
\<close>

definition head_packets :: "column_def list \<Rightarrow> bytes \<Rightarrow> bytes list" where
  "head_packets cds st = lei (of_nat (length cds)) # map column_packet cds @ [eof_packet st]"

definition result_packets :: "column_def list \<Rightarrow> bytes \<Rightarrow> bytes option list list \<Rightarrow> bytes \<Rightarrow> bytes list" where
  "result_packets cds st1 rws st2 = head_packets cds st1 @ map row_bytes rws @ [eof_packet st2]"

definition head_ok :: "column_def list \<Rightarrow> bytes \<Rightarrow> bool" where
  "head_ok cds st \<longleftrightarrow> cds \<noteq> [] \<and> length cds < 2 ^ 62 \<and> list_all column_ok cds \<and> length st = 2"

definition result_ok :: "column_def list \<Rightarrow> bytes \<Rightarrow> bytes option list list \<Rightarrow> bytes \<Rightarrow> bool" where
  "result_ok cds st1 rws st2 \<longleftrightarrow>
     head_ok cds st1 \<and> list_all (row_ok (length cds)) rws \<and> length st2 = 2"

text \<open>What a query does not change: all that decides whether the connection can take the next one.\<close>

definition steady :: "conn \<Rightarrow> conn \<Rightarrow> bool" where
  "steady a b \<longleftrightarrow> writable b = writable a \<and> creset b = creset a \<and> maxAllowedPacket b = maxAllowedPacket a \<and>
     Conn.closed b = Conn.closed a \<and> plain_values b = plain_values a \<and> canceled b = canceled a \<and> cfg b = cfg a"

lemma steady_trans: "steady a b \<Longrightarrow> steady b c \<Longrightarrow> steady a c"
  by (simp add: steady_def)

lemma moved_steady:
  assumes "moved a b"
  shows "steady a b"
proof -
  define b' where "b' = b"
  have b: "b = a\<lparr>cbuf := cbuf b', cnet := cnet b', sequence := sequence b', cstatus := cstatus b'\<rparr>"
    using assms by (simp add: moved_def b'_def)
  show ?thesis by (subst b) (simp add: steady_def writable_def plain_values_def)
qed

text \<open>A connection in the state in which the pool hands it out for a query \<open>q\<close>.\<close>

definition query_ready :: "bytes \<Rightarrow> conn \<Rightarrow> bool" where
  "query_ready q mc \<longleftrightarrow> idle mc \<and> writable mc \<and> readable mc \<and> \<not> creset mc \<and> \<not> Conn.closed mc \<and>
     plain_values mc \<and> int (1 + length q) \<le> maxAllowedPacket mc"

definition reply_seq :: "bytes \<Rightarrow> byte" where
  "reply_seq q = of_nat (frame_count (comQuery # q))"

lemma send_query:
  assumes "query_ready q mc"
  obtains mc2 where "writeCommandPacketStr comQuery q (clearResult mc) = Some (None, mc2)"
    "readable (grow_result mc2)" "incoming (grow_result mc2) = incoming mc" "sequence mc2 = reply_seq q"
    "sent mc2 = sent mc @ frames 0 (comQuery # q)" "\<not> Conn.closed mc2" "plain_values mc2"
    "canceled mc2 = canceled mc" "steady mc (grow_result mc2)"
proof -
  let ?mc1 = "clearResult mc"
  have a: "writable ?mc1" "idle ?mc1" "\<not> creset ?mc1" "int (1 + length q) \<le> maxAllowedPacket ?mc1"
    using assms by (simp_all add: query_ready_def clearResult_def writable_def idle_def)
  obtain b where w: "writeCommandPacketStr comQuery q ?mc1 =
      Some (None, ?mc1\<lparr>cbuf := b, sent := sent ?mc1 @ frames 0 (comQuery # q), sequence := reply_seq q\<rparr>)"
    "blen b = 0" "buf_inv b"
    using command_frames [OF a, of comQuery] by (auto simp: reply_seq_def)
  have r: "blen (cbuf mc) = 0" "src_fine (cbuf mc, cnet mc)" "plain_values mc"
    using assms by (simp_all add: query_ready_def idle_def readable_def)
  show thesis
    by (rule that [OF w(1)])
      (use w(2,3) r assms in \<open>simp_all add: readable_def incoming_def src_fine_def src_rest_def pending_def
        grow_result_def clearResult_def plain_values_def query_ready_def steady_def writable_def\<close>)
qed

text \<open>The rows object in the hands of \<open>writeDataRow\<close>.\<close>

definition rows_ready :: "nat \<Rightarrow> rows \<Rightarrow> bool" where
  "rows_ready n r \<longleftrightarrow> hasMc r \<and> \<not> rdone r \<and> length (columns r) = n"

lemma query1_reads:
  assumes "query_ready q mc" and "head_ok cds st"
    and "incoming mc = packets (reply_seq q) (head_packets cds st @ ps) @ tail"
  obtains rows mc' where
    "query1 q (mc, dst) = Some (Inr rows, mc', dst @ packets (reply_seq q) (head_packets cds st))"
    "awaiting ps tail mc'" "sequence mc' = seq_after (reply_seq q) (head_packets cds st)"
    "rows_ready (length cds) (snd (Columns rows mc'))" "length (fst (Columns rows mc')) = length cds"
    "plain_values mc'" "\<not> Conn.closed mc'" "sent mc' = sent mc @ frames 0 (comQuery # q)"
    "canceled mc' = canceled mc" "steady mc mc'"
proof -
  note ok = assms(2) [unfolded head_ok_def]
  obtain mc2 where q: "writeCommandPacketStr comQuery q (clearResult mc) = Some (None, mc2)"
    "readable (grow_result mc2)" "incoming (grow_result mc2) = incoming mc" "sequence mc2 = reply_seq q"
    "sent mc2 = sent mc @ frames 0 (comQuery # q)" "\<not> Conn.closed mc2" "plain_values mc2"
    "canceled mc2 = canceled mc" "steady mc (grow_result mc2)"
    by (rule send_query [OF assms(1)])
  define mg where "mg = grow_result mc2"
  have mg: "sequence mg = reply_seq q" "sent mg = sent mc2" "Conn.closed mg = Conn.closed mc2"
    "plain_values mg = plain_values mc2" "canceled mg = canceled mc2"
    using q(4) by (simp_all add: mg_def grow_result_def plain_values_def)
  let ?hd = "lei (of_nat (length cds)) :: bytes"
  let ?cs = "map column_packet cds @ [eof_packet st]"
  have aw: "awaiting (?hd # ?cs @ ps) tail mg"
    using q(2,3) mg(1) assms(3) by (simp add: awaiting_def mg_def [symmetric] head_packets_def)
  obtain v mc3 where h: "readPacket1 (mg, dst) = Some (Inr v, mc3, dst @ frames (sequence mg) ?hd)" "fst v = ?hd"
    "awaiting (?cs @ ps) tail mc3" "moved mg mc3" "sequence mc3 = sequence mg + of_nat (frame_count ?hd)"
    by (rule read1_step [OF aw]) simp
  have n: "0 < length cds" "length cds < 2 ^ 62" using ok by auto
  have hp: "header_packet v mc3 = Some (Inr (int (length cds)), mc3)"
    using header_packet_columns [OF n, of "snd v" mc3] h(2) by (cases v) simp
  let ?d1 = "dst @ frames (sequence mg) ?hd"
  have hdr: "readResultSetHeaderPacket1 (mc2, dst) = Some (Inr (int (length cds)), mc3, ?d1)"
    using h(1) hp by (simp add: readResultSetHeaderPacket1_def mg_def)
  have aw3: "awaiting (map column_packet cds @ eof_packet st # ps) tail mc3" using h(3) by simp
  obtain mc4 where c: "columns_loop1 (length cds) 0 (replicate (length cds) noField) (mc3, ?d1) =
      Some (Inr (map (column_field (columnsWithAlias (cfg mc3))) cds), mc4, ?d1 @ packets (sequence mc3) ?cs)"
    "awaiting ps tail mc4" "moved mc3 mc4" "sequence mc4 = seq_after (sequence mc3) ?cs"
    using columns_loop1_reads [OF aw3, of "length cds" "[]" ?d1] ok by auto
  define rows where "rows = newRows\<lparr>columns := map (column_field (columnsWithAlias (cfg mc3))) cds\<rparr>"
  have "query1 q (mc, dst) = Some (Inr rows, mc4, ?d1 @ packets (sequence mc3) ?cs)"
    using assms(1) q(1) hdr c(1) n
    by (simp add: query1_def query_ready_def clearResult_def Let_def start_rows1_def readColumns1_def rows_def)
  moreover have "steady mc mc4"
    using steady_trans [OF q(9)] moved_steady [OF moved_trans [OF h(4) c(3)]] by (simp add: mg_def)
  ultimately show thesis
    using moved_keeps [OF moved_trans [OF h(4) c(3)]] q(5-8) mg c(2,4) h(5)
    by (intro that [where rows = rows and mc' = mc4])
      (simp_all add: head_packets_def rows_def Columns_def newRows_def Let_def rows_ready_def plain_values_def)
qed

lemma result_forwarded:
  assumes "query_ready q mc" and "result_ok cds st1 rws st2"
    and "incoming mc = packets (reply_seq q) (result_packets cds st1 rws st2) @ tail"
  shows "\<exists>mc'. writeDataRow q (mc, dst) =
      Some (Some (None, mc', dst @ packets (reply_seq q) (result_packets cds st1 rws st2))) \<and>
    incoming mc' = tail \<and> sent mc' = sent mc @ frames 0 (comQuery # q) \<and>
    readStatus st2 = Some (cstatus mc') \<and> readable mc' \<and> steady mc mc'"
proof -
  let ?rs = "map row_bytes rws @ [eof_packet st2]"
  have ok: "head_ok cds st1" "list_all (row_ok (length cds)) rws" "length st2 = 2" "0 < length cds"
    using assms(2) by (auto simp: result_ok_def head_ok_def)
  have inc: "incoming mc = packets (reply_seq q) (head_packets cds st1 @ ?rs) @ tail"
    using assms(3) by (simp add: result_packets_def)
  obtain rows mc4 where q: "query1 q (mc, dst) = Some (Inr rows, mc4, dst @ packets (reply_seq q) (head_packets cds st1))"
    "awaiting ?rs tail mc4" "sequence mc4 = seq_after (reply_seq q) (head_packets cds st1)"
    "rows_ready (length cds) (snd (Columns rows mc4))" "length (fst (Columns rows mc4)) = length cds"
    "plain_values mc4" "\<not> Conn.closed mc4" "sent mc4 = sent mc @ frames 0 (comQuery # q)"
    "canceled mc4 = canceled mc" "steady mc mc4"
    by (rule query1_reads [OF assms(1) ok(1) inc])
  obtain w where w: "readStatus st2 = Some w"
    using ok(3) by (cases "readStatus st2") (auto simp: readStatus_def idx_def bind_eq_None_conv split: if_splits)
  define d where "d = dst @ packets (reply_seq q) (head_packets cds st1)"
  have aw: "awaiting (map row_bytes rws @ eof_packet st2 # []) tail mc4" using q(2) by simp
  obtain mc5 where l: "row_loop (length cds) (snd (Columns rows mc4)) (mc4, d) =
      Some (Some (mc5, d @ packets (sequence mc4) ?rs))"
    "awaiting [] tail mc5" "moved mc4 mc5" "cstatus mc5 = w"
    using row_loop_reads [OF aw w, of "length cds" "snd (Columns rows mc4)" d] ok q(4,6,7)
    by (auto simp: rows_ready_def)
  have "writeDataRow q (mc, dst) = Some (Some (None, mc5, d @ packets (sequence mc4) ?rs))"
    using q(1,5) l(1) by (simp add: writeDataRow_def case_prod_unfold d_def)
  then show ?thesis
    using l(2,4) w moved_keeps(5) [OF l(3)] q(3,8) steady_trans [OF q(10) moved_steady [OF l(3)]]
    by (intro exI [of _ mc5]) (simp add: awaiting_def d_def result_packets_def packets_append)
qed

text \<open>When the reply is all the replica has sent, the connection can take the next query.\<close>

lemma drained_idle:
  assumes "readable mc" and "incoming mc = []"
  shows "idle mc"
proof -
  have b: "buf_inv (cbuf mc)" "pending (cbuf mc) = []"
    using assms by (auto simp: readable_def incoming_def src_rest_def)
  then have "length (pending (cbuf mc)) = blen (cbuf mc)" unfolding pending_def buf_inv_def by auto
  with b show ?thesis by (simp add: idle_def)
qed

lemma ready_again:
  assumes "query_ready q mc" and "steady mc mc'" and "readable mc'" and "incoming mc' = []"
    and "int (1 + length q') \<le> maxAllowedPacket mc"
  shows "query_ready q' mc'"
  using assms drained_idle [OF assms(3,4)] by (simp add: query_ready_def steady_def)

section \<open>A replica that dies\<close>

text \<open>On a closed connection with rows to come every turn of the loop is the same error.\<close>

lemma row_loop_closed:
  assumes "hasMc r" and "Conn.closed mc" and "canceled mc \<noteq> Some IoEOF"
  shows "row_loop n r (mc, dst) = None"
proof (rule ccontr)
  assume "row_loop n r (mc, dst) \<noteq> None"
  then obtain y where y: "row_loop n r (mc, dst) = Some y" by auto
  let ?dead = "\<lambda>r s. hasMc r \<and> Conn.closed (fst s) \<and> canceled (fst s) \<noteq> Some IoEOF"
  have "\<not> ?dead r (mc, dst)"
  proof (rule row_loop.raw_induct [where P = "\<lambda>n r s y. \<not> ?dead r s", OF _ y])
    fix f and n :: nat and r :: rows and s :: "conn \<times> bytes" and y
    assume ih: "\<And>n r s y. f n r s = Some y \<Longrightarrow> \<not> ?dead r s"
      and turn: "(case Next1 n r s of None \<Rightarrow> Some None
        | Some x \<Rightarrow> if fst x = Inl IoEOF then Some (Some (snd (snd x))) else f n (fst (snd x)) (snd (snd x))) = Some y"
    show "\<not> ?dead r s"
    proof
      assume c: "?dead r s"
      then obtain e where "conn_error (fst s) = Some e" "e \<noteq> IoEOF"
        by (cases "canceled (fst s)") (auto simp: conn_error_def)
      then have "Next1 n r s = Some (Inl e, r, s)" "e \<noteq> IoEOF" using c by (simp_all add: Next1_def)
      with turn have "f n r s = Some y" by simp
      from ih [OF this] c show False by simp
    qed
  qed
  with assms show False by simp
qed

text \<open>A stream that ends within a packet closes the connection and reports \<open>ErrInvalidConn\<close>.\<close>

lemma read1_dies:
  assumes "awaiting [] rest mc" and "canceled mc = None" and "strict_prefix rest (frames (sequence mc) p)"
    and "p \<noteq> []" and "length p < maxPacketSize"
  shows "\<exists>mc' fwd. readPacket1 (mc, dst) = Some (Inl ErrInvalidConn, mc', dst @ fwd) \<and> Conn.closed mc' \<and>
    canceled mc' = None \<and> prefix fwd rest"
proof -
  have mc: "readable mc" "incoming mc = rest" using assms(1) by (simp_all add: awaiting_def)
  obtain mc' where "readPacket mc = Some (Inl ErrInvalidConn, mc')" "Conn.closed mc'" "canceled mc' = None"
    using truncated_packet [OF mc(1) assms(2) _ assms(4,5)] assms(3) mc(2) by auto
  moreover obtain fwd where "read_loop1 None (mc, dst) = map_option (\<lambda>(r, mc'). (r, mc', dst @ fwd)) (read_loop None mc)"
    "prefix fwd rest"
    using read_loop1_forwards [of mc None] mc unfolding readable_def by blast
  ultimately show ?thesis by (auto simp: readPacket_def readPacket1_def)
qed

lemma writeDataRow_dies:
  assumes "query_ready q mc" and "canceled mc = None" and "head_ok cds st" and "list_all (row_ok (length cds)) rws"
    and "incoming mc = packets (reply_seq q) (head_packets cds st @ map row_bytes rws) @ rest"
    and "strict_prefix rest (frames (seq_after (reply_seq q) (head_packets cds st @ map row_bytes rws)) p)"
    and "p \<noteq> []" and "length p < maxPacketSize"
  shows "writeDataRow q (mc, dst) = None"
proof -
  obtain rows mc1 where q: "query1 q (mc, dst) = Some (Inr rows, mc1, dst @ packets (reply_seq q) (head_packets cds st))"
    "awaiting (map row_bytes rws) rest mc1" "sequence mc1 = seq_after (reply_seq q) (head_packets cds st)"
    "rows_ready (length cds) (snd (Columns rows mc1))" "length (fst (Columns rows mc1)) = length cds"
    "plain_values mc1" "\<not> Conn.closed mc1" "canceled mc1 = canceled mc"
    by (rule query1_reads [OF assms(1,3,5)]) blast
  define r where "r = snd (Columns rows mc1)"
  have r: "hasMc r" "\<not> rdone r" "length (columns r) = length cds" "0 < length cds"
    using q(4) assms(3) by (auto simp: rows_ready_def r_def head_ok_def)
  have aw: "awaiting (map row_bytes rws @ []) rest mc1" using q(2) by simp
  obtain mc2 d2 where l: "row_loop (length cds) r (mc1, dst @ packets (reply_seq q) (head_packets cds st)) =
      row_loop (length cds) r (mc2, d2)" "awaiting [] rest mc2" "moved mc1 mc2"
    "sequence mc2 = seq_after (sequence mc1) (map row_bytes rws)"
    using row_loop_rows [OF aw assms(4) r(4,1-3) q(6,7)] by blast
  note m2 = moved_keeps [OF l(3)]
  have seq: "seq_after (reply_seq q) (head_packets cds st @ map row_bytes rws) = sequence mc2"
    using l(4) q(3) by (simp add: seq_after_append)
  obtain mc3 d3 where d: "readPacket1 (mc2, d2) = Some (Inl ErrInvalidConn, mc3, d3)" "Conn.closed mc3"
    "canceled mc3 = None"
    using read1_dies [OF l(2) _ _ assms(7,8), of d2] assms(2,6) m2(8) q(8) seq by metis
  have "Next1 (length cds) r (mc2, d2) = Some (Inl ErrInvalidConn, r, mc3, d3)"
    using d(1) r(1,2) m2(2) q(7) by (simp add: Next1_def conn_error_def readRow1_def)
  moreover have "row_loop (length cds) r (mc3, d3) = None"
    by (rule row_loop_closed) (use r(1) d in simp_all)
  ultimately have "row_loop (length cds) r (mc2, d2) = None" by (subst row_loop.simps) simp
  then show ?thesis using q(1,5) l(1) by (simp add: writeDataRow_def case_prod_unfold r_def)
qed

section \<open>Properties\<close>

text \<open>A query, a reply with one column and two rows, and a connection on which it arrives.\<close>

definition demo_column :: column_def where
  "demo_column = \<lparr>cdCatalog = str ''def'', cdSchema = [], cdTable = [], cdOrgTable = [], cdName = str ''a'',
     cdOrgName = [], cdCharset = 0x21, cdCollation = 0, cdLength = 4, cdType = 0xfd, cdFlags = 0, cdDecimals = 0\<rparr>"

definition demo_rows :: "bytes option list list" where
  "demo_rows = [[Some (str ''x'')], [None]]"

lemma demo_query_ready:
  "clean evs \<Longrightarrow> query_ready (str ''select 1'') (fresh_conn evs)"
  by (simp add: query_ready_def fresh_conn fresh_conn(2-4)) (simp add: fresh_conn_def plain_values_def str_def)

lemma demo_result: "result_ok [demo_column] [2, 0] demo_rows [2, 0]" "head_ok [demo_column] [2, 0]"
  by (simp_all add: result_ok_def head_ok_def column_ok_def demo_column_def demo_rows_def row_ok_def value_ok_def str_def)

lemma fresh_conn_fields: "sent (fresh_conn evs) = []" "canceled (fresh_conn evs) = None"
  "Conn.closed (fresh_conn evs) = False"
  by (simp_all add: fresh_conn_def)

text \<open>
  C8: A replica that dies in the middle of a result hangs the session for ever: when the stream ends inside a row
  of less than 2^24-1 bytes, after any number of complete rows, \<open>writeDataRow\<close> does not return, because its loop waits
  for \<open>io.EOF\<close> while the closed connection reports \<open>ErrInvalidConn\<close> at every turn.
\<close>

theorem writeDataRow_hangs:
  assumes "query_ready q mc" and "canceled mc = None" and "head_ok cds st" and "list_all (row_ok (length cds)) rws"
    and "incoming mc = packets (reply_seq q) (head_packets cds st @ map row_bytes rws) @ rest"
    and "strict_prefix rest (frames (seq_after (reply_seq q) (head_packets cds st @ map row_bytes rws)) p)"
    and "p \<noteq> []" and "length p < maxPacketSize"
  shows "writeDataRow q (mc, dst) = None"
  using assms by (rule writeDataRow_dies)

theorem writeDataRow_hangs_witness:
  "writeDataRow (str ''select 1'')
     (fresh_conn [(packets (reply_seq (str ''select 1'')) (head_packets [demo_column] [2, 0] @ map row_bytes demo_rows), None),
        ([2], None)], []) = None"
proof -
  let ?q = "str ''select 1''"
  let ?ps = "head_packets [demo_column] [2, 0] @ map row_bytes demo_rows"
  let ?mc = "fresh_conn [(packets (reply_seq ?q) ?ps, None), ([2], None)]"
  have "query_ready ?q ?mc" "incoming ?mc = packets (reply_seq ?q) ?ps @ [2]"
    by (rule demo_query_ready) (simp_all add: fresh_conn(3))
  moreover have "list_all (row_ok (length [demo_column])) demo_rows"
    using demo_result(1) by (simp add: result_ok_def)
  moreover have "strict_prefix [2] (frames (seq_after (reply_seq ?q) ?ps) [1, 0x78])"
    by (simp add: frames_short le24_def maxPacketSize_def strict_prefix_def)
  ultimately show ?thesis
    by (intro writeDataRow_hangs [where p = "[1, 0x78]", OF _ fresh_conn_fields(2) demo_result(2)])
      (simp_all add: maxPacketSize_def)
qed

end
