(* ===== verification/Replies.thy ===== *)
theory Replies
  imports Forward
begin

text \<open>
  The replies a server may give to a SELECT: rows, an acknowledgement without rows, an error at once, or rows and then
  an error.  \<open>writeDataRow\<close> of \<open>proxy/mysql.go\<close> forwards each of them and leaves the connection usable.
\<close>

section \<open>Error and OK packets\<close>

text \<open>An error has a number, a state of five characters and a text.\<close>

datatype server_error = ServerError u16 bytes bytes

fun error_packet :: "server_error \<Rightarrow> bytes" where
  "error_packet (ServerError n state msg) = [iERR] @ putle 2 n @ [0x23] @ state @ msg"

fun as_error :: "server_error \<Rightarrow> error" where
  "as_error (ServerError n state msg) = MySQLError n state msg"

text \<open>Two errors make the driver drop the connection, if it is configured so.\<close>

fun error_ok :: "bool \<Rightarrow> server_error \<Rightarrow> bool" where
  "error_ok reject (ServerError n state msg) \<longleftrightarrow> length state = 5 \<and> (reject \<longrightarrow> n \<noteq> 1792 \<and> n \<noteq> 1290)"

definition ok_packet :: "u64 \<Rightarrow> u64 \<Rightarrow> bytes \<Rightarrow> bytes \<Rightarrow> bytes" where
  "ok_packet affected insertId st info = [iOK] @ lei affected @ lei insertId @ st @ info"

lemma error_packet_hd: "error_packet e \<noteq> []" "idx (error_packet e) 0 = Some iERR"
  by (cases e; simp add: idx_def)+

lemma error_handled:
  assumes "error_ok (rejectReadOnly (cfg mc)) e"
  shows "handleErrorPacket (error_packet e, sp) mc = Some (as_error e, mc)"
proof (cases e)
  case (ServerError n state msg)
  have st: "length state = 5" "rejectReadOnly (cfg mc) \<longrightarrow> n \<noteq> 1792 \<and> n \<noteq> 1290" using assms ServerError by simp_all
  have p: "putle 2 n = [ucast n, ucast (drop_bit 8 n)]" by (simp add: putle_bytes byte_at_def numeral_2_eq_2)
  have "le16_at (error_packet e, sp) 1 = Some n"
    by (simp add: ServerError le16_at_def slice_def getle_putle_id)
  then show ?thesis using st ServerError
    by (auto simp: handleErrorPacket_def idx_def slice_def slice_from_def p)
qed

lemma no_mark: "bad_conn (as_error e) = as_error e"
  by (cases e) (simp add: bad_conn_def markBadConn_def)

lemma readStatus_two: "length st = 2 \<Longrightarrow> \<exists>w. readStatus st = Some w"
  by (cases "readStatus st") (auto simp: readStatus_def idx_def bind_eq_None_conv split: if_splits)

lemma slice_middle:
  "slice (pre @ x @ r, sp) (int (length pre)) (int (length pre) + int (length x)) = Some (x, r @ sp)"
  by (simp add: slice_def Let_def nat_add_distrib)

lemma ok_handled:
  assumes "readStatus st = Some w" and "length st = 2"
  shows "handleOkPacket (ok_packet a i st info, sp) mc =
    Some (None, mc\<lparr>affectedRows := set_last (sint a) (affectedRows mc), insertIds := set_last (sint i) (insertIds mc), cstatus := w\<rparr>)"
proof -
  let ?A = "int (length (lei a))" and ?I = "int (length (lei i))"
  have "slice_from (ok_packet a i st info, sp) 1 = Some (lei a @ lei i @ st @ info, sp)"
    by (simp add: slice_from_def ok_packet_def)
  moreover have "slice_from (ok_packet a i st info, sp) (1 + ?A) = Some (lei i @ st @ info, sp)"
    by (simp add: slice_from_def ok_packet_def nat_add_distrib)
  moreover have "slice (ok_packet a i st info, sp) (1 + ?A + ?I) (1 + ?A + ?I + 2) = Some (st, info @ sp)"
    using slice_middle [of "[iOK] @ lei a @ lei i" st info sp] assms(2) by (simp add: ok_packet_def add.assoc)
  ultimately show ?thesis
    using assms(1) readLEI_lei [of a "lei i @ st @ info"] readLEI_lei [of i "st @ info"]
    by (simp add: handleOkPacket_def)
qed

section \<open>Replies\<close>

datatype reply =
    Table "column_def list" bytes "bytes option list list" bytes
  | Done u64 u64 bytes bytes
  | Refusal server_error
  | BrokenOff "column_def list" bytes "bytes option list list" server_error

fun reply_packets :: "reply \<Rightarrow> bytes list" where
  "reply_packets (Table cds st1 rws st2) = result_packets cds st1 rws st2"
| "reply_packets (Done a i st info) = [ok_packet a i st info]"
| "reply_packets (Refusal e) = [error_packet e]"
| "reply_packets (BrokenOff cds st1 rws e) = head_packets cds st1 @ map row_bytes rws @ [error_packet e]"

text \<open>\<open>Done\<close> must not announce a further result: the proxy's connections are for one statement at a time.\<close>

fun reply_ok :: "bool \<Rightarrow> reply \<Rightarrow> bool" where
  "reply_ok reject (Table cds st1 rws st2) \<longleftrightarrow> result_ok cds st1 rws st2"
| "reply_ok reject (Done a i st info) \<longleftrightarrow>
     length st = 2 \<and> (\<exists>w. readStatus st = Some w \<and> w AND statusMoreResultsExists = 0)"
| "reply_ok reject (Refusal e) \<longleftrightarrow> error_ok reject e"
| "reply_ok reject (BrokenOff cds st1 rws e) \<longleftrightarrow>
     head_ok cds st1 \<and> list_all (row_ok (length cds)) rws \<and> error_ok reject e"

text \<open>What \<open>writeDataRow\<close> returns: it reports an error only when it is the whole reply.\<close>

fun reported :: "reply \<Rightarrow> error option" where
  "reported (Refusal e) = Some (as_error e)"
| "reported r = None"

section \<open>A reply of one packet\<close>

lemma query1_first_packet:
  assumes "query_ready q mc" and "incoming mc = frames (reply_seq q) p @ tail" and "p \<noteq> []"
  obtains mc2 v mc3 where "writeCommandPacketStr comQuery q (clearResult mc) = Some (None, mc2)"
    "readPacket1 (grow_result mc2, dst) = Some (Inr v, mc3, dst @ frames (reply_seq q) p)" "fst v = p"
    "readable mc3" "incoming mc3 = tail" "sent mc3 = sent mc @ frames 0 (comQuery # q)" "\<not> Conn.closed mc3" "steady mc mc3"
proof -
  obtain mc2 where q: "writeCommandPacketStr comQuery q (clearResult mc) = Some (None, mc2)"
    "readable (grow_result mc2)" "incoming (grow_result mc2) = incoming mc" "sequence mc2 = reply_seq q"
    "sent mc2 = sent mc @ frames 0 (comQuery # q)" "\<not> Conn.closed mc2" "steady mc (grow_result mc2)"
    by (rule send_query [OF assms(1)]) blast
  have g: "sequence (grow_result mc2) = reply_seq q" "sent (grow_result mc2) = sent mc2"
    "Conn.closed (grow_result mc2) = Conn.closed mc2" using q(4) by (simp_all add: grow_result_def)
  have "awaiting [p] tail (grow_result mc2)" using q(2,3) g(1) assms(2) by (simp add: awaiting_def)
  then obtain v mc3 where r: "readPacket1 (grow_result mc2, dst) = Some (Inr v, mc3, dst @ frames (reply_seq q) p)"
    "fst v = p" "awaiting [] tail mc3" "moved (grow_result mc2) mc3"
    using read1_step [of p "[]" tail "grow_result mc2" dst] assms(3) g(1) by metis
  show thesis
    using q(1) r moved_keeps [OF r(4)] g q(5,6) steady_trans [OF q(7) moved_steady [OF r(4)]]
    by (intro that [of mc2 v mc3]) (simp_all add: awaiting_def)
qed

lemma refusal_forwarded:
  assumes "query_ready q mc" and "error_ok (rejectReadOnly (cfg mc)) e"
    and "incoming mc = frames (reply_seq q) (error_packet e) @ tail"
  shows "\<exists>mc'. writeDataRow q (mc, dst) = Some (Some (Some (as_error e), mc', dst @ frames (reply_seq q) (error_packet e))) \<and>
    incoming mc' = tail \<and> sent mc' = sent mc @ frames 0 (comQuery # q) \<and> readable mc' \<and> steady mc mc'"
proof -
  obtain mc2 v mc3 where r: "writeCommandPacketStr comQuery q (clearResult mc) = Some (None, mc2)"
    "readPacket1 (grow_result mc2, dst) = Some (Inr v, mc3, dst @ frames (reply_seq q) (error_packet e))" "fst v = error_packet e"
    "readable mc3" "incoming mc3 = tail" "sent mc3 = sent mc @ frames 0 (comQuery # q)" "steady mc mc3"
    by (rule query1_first_packet [OF assms(1,3) error_packet_hd(1)]) blast
  have "handleErrorPacket v mc3 = Some (as_error e, mc3)"
    using error_handled [of mc3 e "snd v"] r(3,7) assms(2) by (cases v) (simp add: steady_def)
  then have "header_packet v mc3 = Some (Inl (as_error e), mc3)"
    using r(3) error_packet_hd(2) [of e] by (simp add: header_packet_def packet_bytes)
  then have "query1 q (mc, dst) = Some (Inl (as_error e), mc3, dst @ frames (reply_seq q) (error_packet e))"
    using assms(1) r(1,2) no_mark
    by (simp add: query1_def query_ready_def clearResult_def Let_def readResultSetHeaderPacket1_def)
  then show ?thesis using r(4-7) by (simp add: writeDataRow_def)
qed

lemma row_loop_ends: "\<not> hasMc r \<Longrightarrow> row_loop n r s = Some (Some s)"
  by (subst row_loop.simps) (simp add: Next1_def)

lemma done_forwarded:
  assumes "query_ready q mc" and "readStatus st = Some w" and "length st = 2" and "w AND statusMoreResultsExists = 0"
    and "incoming mc = frames (reply_seq q) (ok_packet a i st info) @ tail"
  shows "\<exists>mc'. writeDataRow q (mc, dst) = Some (Some (None, mc', dst @ frames (reply_seq q) (ok_packet a i st info))) \<and>
    incoming mc' = tail \<and> sent mc' = sent mc @ frames 0 (comQuery # q) \<and> readable mc' \<and> steady mc mc'"
proof -
  let ?p = "ok_packet a i st info"
  let ?d = "dst @ frames (reply_seq q) ?p"
  have ne: "?p \<noteq> []" "idx ?p 0 = Some iOK" by (simp_all add: ok_packet_def idx_def)
  obtain mc2 v mc3 where r: "writeCommandPacketStr comQuery q (clearResult mc) = Some (None, mc2)"
    "readPacket1 (grow_result mc2, dst) = Some (Inr v, mc3, ?d)" "fst v = ?p"
    "readable mc3" "incoming mc3 = tail" "sent mc3 = sent mc @ frames 0 (comQuery # q)" "\<not> Conn.closed mc3" "steady mc mc3"
    by (rule query1_first_packet [OF assms(1,5) ne(1)]) blast
  define mc4 where "mc4 = mc3\<lparr>affectedRows := set_last (sint a) (affectedRows mc3),
    insertIds := set_last (sint i) (insertIds mc3), cstatus := w\<rparr>"
  have m4: "readable mc4" "incoming mc4 = tail" "sent mc4 = sent mc3" "Conn.closed mc4 = Conn.closed mc3" "cstatus mc4 = w"
    "steady mc mc4"
    using r(4,5,8) by (simp_all add: mc4_def readable_def incoming_def steady_def writable_def plain_values_def)
  have "handleOkPacket v mc3 = Some (None, mc4)"
    using ok_handled [OF assms(2,3), of a i info "snd v" mc3] r(3) by (cases v) (simp add: mc4_def)
  then have h: "header_packet v mc3 = Some (Inr 0, mc4)" using r(3) ne(2) by (simp add: header_packet_def)
  define rows where "rows = newRows\<lparr>rdone := True, hasMc := False\<rparr>"
  have "nextResultSet1 (newRows\<lparr>rdone := True\<rparr>) (mc4, ?d) = Some (Inl IoEOF, rows, mc4, ?d)"
    using m4(4,5) r(7) assms(4)
    by (simp add: nextResultSet1_def newRows_def rows_def conn_error_def hasNextResultSet_def)
  then have "start_rows1 0 (mc4, ?d) = Some (Inr rows, mc4, ?d)"
    by (simp add: start_rows1_def NextResultSet1_def nextNotEmptyResultSet1.simps)
  then have "query1 q (mc, dst) = Some (Inr rows, mc4, ?d)"
    using assms(1) r(1,2) h
    by (simp add: query1_def query_ready_def clearResult_def Let_def readResultSetHeaderPacket1_def)
  moreover have "\<not> hasMc (snd (Columns rows mc4))" by (simp add: Columns_def rows_def newRows_def Let_def)
  ultimately have "writeDataRow q (mc, dst) = Some (Some (None, mc4, ?d))"
    by (simp add: writeDataRow_def case_prod_unfold row_loop_ends)
  then show ?thesis using m4 r(6) by auto
qed

section \<open>Rows and then an error\<close>

lemma broken_off_forwarded:
  assumes "query_ready q mc" and "head_ok cds st" and "list_all (row_ok (length cds)) rws"
    and "error_ok (rejectReadOnly (cfg mc)) e"
    and "incoming mc = packets (reply_seq q) (head_packets cds st @ map row_bytes rws @ [error_packet e]) @ tail"
  shows "\<exists>mc'. writeDataRow q (mc, dst) =
      Some (Some (None, mc', dst @ packets (reply_seq q) (head_packets cds st @ map row_bytes rws @ [error_packet e]))) \<and>
    incoming mc' = tail \<and> sent mc' = sent mc @ frames 0 (comQuery # q) \<and> readable mc' \<and> steady mc mc'"
proof -
  let ?rs = "map row_bytes rws @ [error_packet e]"
  have n: "0 < length cds" using assms(2) by (auto simp: head_ok_def)
  obtain rows mc1 where q: "query1 q (mc, dst) = Some (Inr rows, mc1, dst @ packets (reply_seq q) (head_packets cds st))"
    "awaiting ?rs tail mc1" "sequence mc1 = seq_after (reply_seq q) (head_packets cds st)"
    "rows_ready (length cds) (snd (Columns rows mc1))" "length (fst (Columns rows mc1)) = length cds"
    "plain_values mc1" "\<not> Conn.closed mc1" "sent mc1 = sent mc @ frames 0 (comQuery # q)" "steady mc mc1"
    by (rule query1_reads [OF assms(1,2,5)]) blast
  define r d0 where "r = snd (Columns rows mc1)" and "d0 = dst @ packets (reply_seq q) (head_packets cds st)"
  have rr: "hasMc r" "\<not> rdone r" "length (columns r) = length cds" using q(4) by (simp_all add: rows_ready_def r_def)
  define d where "d = d0 @ packets (sequence mc1) (map row_bytes rws)"
  obtain mc2 where l: "row_loop (length cds) r (mc1, d0) = row_loop (length cds) r (mc2, d)"
    "awaiting [error_packet e] tail mc2" "moved mc1 mc2" "sequence mc2 = seq_after (sequence mc1) (map row_bytes rws)"
    using row_loop_rows [OF q(2) assms(3) n rr q(6,7), of d0] unfolding d_def by blast
  obtain v mc3 where v: "readPacket1 (mc2, d) = Some (Inr v, mc3, d @ frames (sequence mc2) (error_packet e))"
    "fst v = error_packet e" "awaiting [] tail mc3" "moved mc2 mc3"
    using read1_step [OF l(2) error_packet_hd(1), of d] by metis
  have mv: "moved mc1 mc3" using moved_trans [OF l(3) v(4)] .
  have st3: "steady mc mc3" using steady_trans [OF q(9) moved_steady [OF mv]] .
  have "handleErrorPacket v mc3 = Some (as_error e, mc3)"
    using error_handled [of mc3 e "snd v"] v(2) st3 assms(4) by (cases v) (simp add: steady_def)
  then have rp: "row_packet (length cds) v r mc3 = Some (Inl (as_error e), r\<lparr>hasMc := False\<rparr>, mc3)"
    using v(2) error_packet_hd(2) [of e] by (simp add: row_packet_def packet_bytes)
  have cl: "\<not> Conn.closed mc2" using moved_keeps(2) [OF l(3)] q(7) by simp
  have "Next1 (length cds) r (mc2, d) =
      Some (Inl (as_error e), r\<lparr>hasMc := False\<rparr>, mc3, d @ frames (sequence mc2) (error_packet e))"
    using Next1_open [OF rr(1,2) cl v(1)] rp by simp
  moreover have "as_error e \<noteq> IoEOF" by (cases e) simp
  ultimately have "row_loop (length cds) r (mc2, d) =
      row_loop (length cds) (r\<lparr>hasMc := False\<rparr>) (mc3, d @ frames (sequence mc2) (error_packet e))"
    by (subst row_loop.simps) simp
  then have "row_loop (length cds) r (mc1, d0) = Some (Some (mc3, d0 @ packets (sequence mc1) ?rs))"
    using l(1,4) by (simp add: row_loop_ends d_def packets_append)
  then have "writeDataRow q (mc, dst) = Some (Some (None, mc3, d0 @ packets (sequence mc1) ?rs))"
    using q(1,5) by (simp add: writeDataRow_def case_prod_unfold r_def d0_def)
  then show ?thesis
    using v(3) moved_keeps(5) [OF mv] q(3,8) st3
    by (intro exI [of _ mc3]) (simp add: awaiting_def d0_def packets_append)
qed

lemma reply_forwarded:
  assumes "query_ready q mc" and "reply_ok (rejectReadOnly (cfg mc)) rep"
    and "incoming mc = packets (reply_seq q) (reply_packets rep) @ tail"
  shows "\<exists>mc'. writeDataRow q (mc, dst) = Some (Some (reported rep, mc', dst @ packets (reply_seq q) (reply_packets rep))) \<and>
    incoming mc' = tail \<and> sent mc' = sent mc @ frames 0 (comQuery # q) \<and> readable mc' \<and> steady mc mc'"
proof (cases rep)
  case (Table cds st1 rws st2)
  then show ?thesis using result_forwarded [OF assms(1), of cds st1 rws st2 tail dst] assms(2,3) by auto
next
  case (Done a i st info)
  then obtain w where "readStatus st = Some w" "w AND statusMoreResultsExists = 0" "length st = 2" using assms(2) by auto
  then show ?thesis using done_forwarded [OF assms(1), of st w a i info tail dst] assms(3) Done by simp
next
  case (Refusal e)
  then show ?thesis using refusal_forwarded [OF assms(1), of e tail dst] assms(2,3) by simp
next
  case (BrokenOff cds st1 rws e)
  then show ?thesis using broken_off_forwarded [OF assms(1), of cds st1 rws e tail dst] assms(2,3) by simp
qed

section \<open>Properties\<close>

text \<open>
  C3: A SELECT is answered exactly as the replica answered it: on a connection ready for a query, \<open>writeDataRow\<close> sends
  the replica one \<open>COM_QUERY\<close> with the statement, and whatever legal reply it gets (rows of any number and length, an
  acknowledgement, an error, or rows broken off by an error) the client is written precisely the reply's frames and the
  connection is left at the first byte after it.  An error is returned only if it is the whole reply, and if the
  replica has sent nothing further, the connection can take any query of the permitted length next.
\<close>

theorem writeDataRow_forwards:
  assumes "query_ready q mc" and "reply_ok (rejectReadOnly (cfg mc)) rep"
    and "incoming mc = packets (reply_seq q) (reply_packets rep) @ tail"
  shows "\<exists>mc'. writeDataRow q (mc, dst) = Some (Some (reported rep, mc', dst @ packets (reply_seq q) (reply_packets rep))) \<and>
    incoming mc' = tail \<and> sent mc' = sent mc @ frames 0 (comQuery # q) \<and>
    (tail = [] \<longrightarrow> (\<forall>q'. int (1 + length q') \<le> maxAllowedPacket mc \<longrightarrow> query_ready q' mc'))"
  using reply_forwarded [OF assms] ready_again [OF assms(1)] by blast

text \<open>Two rows, and then the server is shut down (1053).\<close>

definition demo_reply :: reply where
  "demo_reply = BrokenOff [demo_column] [2, 0] demo_rows (ServerError 1053 (str ''08S01'') (str ''shutdown''))"

lemma demo_reply: "reply_ok reject demo_reply"
  using demo_result by (simp add: demo_reply_def result_ok_def str_def)

theorem writeDataRow_forwards_witness:
  "\<exists>mc'. writeDataRow (str ''select 1'')
       (fresh_conn [(packets (reply_seq (str ''select 1'')) (reply_packets demo_reply), None), ([7], None)], []) =
     Some (Some (None, mc', packets (reply_seq (str ''select 1'')) (reply_packets demo_reply))) \<and>
     incoming mc' = [7] \<and> sent mc' = frames 0 (comQuery # str ''select 1'')"
proof -
  let ?q = "str ''select 1''"
  let ?mc = "fresh_conn [(packets (reply_seq ?q) (reply_packets demo_reply), None), ([7], None)]"
  have "query_ready ?q ?mc" "incoming ?mc = packets (reply_seq ?q) (reply_packets demo_reply) @ [7]"
    by (rule demo_query_ready) (simp_all add: fresh_conn(3))
  from writeDataRow_forwards [OF this(1) demo_reply this(2), of "[]"] show ?thesis
    by (auto simp: fresh_conn_fields demo_reply_def)
qed

end
