(* ===== verification/Session.thy ===== *)
theory Session
  imports Replies
begin

text \<open>
  Sessions of the MySQL proxy: the handlers agree with the router on what goes to the main
  database, a SELECT is answered from the replica's connection, and what happens when there is
  none or the pooled one is dead.
\<close>

section \<open>Set-up\<close>

lemma make_pool: "0 < mx \<Longrightarrow> \<exists>p. NewConnectionPool mn mx t = Some p"
  by (simp add: NewConnectionPool_def make_chan_def)

definition active :: "(bytes \<Rightarrow> error + 'k) \<Rightarrow> secondary \<Rightarrow> bool" where
  "active createConnector s \<longleftrightarrow> 0 < sWeight s \<and> (\<exists>k. createConnector (dsn s) = Inr k)"

lemma initMysqlDB_step:
  fixes ds :: "('k \<times> 'c pool) weighted list"
  assumes "active cc s"
  obtains k p where "initMysqlDB cc (s # ss) ds tot =
    initMysqlDB cc ss (ds @ [\<lparr>wName = sName s, wDb = (k, p), wWeight = sWeight s\<rparr>]) (wrap64 (tot + sWeight s))"
proof -
  obtain k where k: "createConnector (dsn s) = Inr k \<Longrightarrow> True" "cc (dsn s) = Inr k" "0 < sWeight s"
    using assms by (auto simp: active_def)
  let ?mx = "if 0 < sMaxOpenConnsCount s then sMaxOpenConnsCount s else 10"
  obtain p where "NewConnectionPool (if 0 < sMaxIdleConnCount s then sMaxIdleConnCount s else 1) ?mx
      (if 0 < sConnMaxLifetime s then nanoseconds (sConnMaxLifetime s) else nanoseconds 60) = Some (p :: 'c pool)"
    using make_pool [of ?mx] by fastforce
  with k(2,3) show thesis by (intro that [of k p]) (simp add: Let_def)
qed

lemma initMysqlDB_skip: "\<not> active cc s \<Longrightarrow> initMysqlDB cc (s # ss) ds tot = initMysqlDB cc ss ds tot"
  by (cases "cc (dsn s)") (auto simp: active_def)

lemma initMysqlDB_result:
  assumes "0 \<le> tot" and "tot + sum_list (map sWeight (filter (active cc) ss)) < 2 ^ 63"
  shows "\<exists>new. initMysqlDB cc ss ds tot =
      Some (ds @ new, tot + sum_list (map sWeight (filter (active cc) ss))) \<and>
    map wName new = map sName (filter (active cc) ss) \<and> map wWeight new = map sWeight (filter (active cc) ss)"
  using assms
proof (induction ss arbitrary: ds tot)
  case (Cons s ss)
  show ?case
  proof (cases "active cc s")
    case True
    have pos: "0 < sWeight s" "0 \<le> sum_list (map sWeight (filter (active cc) ss))"
      using True by (auto simp: active_def intro!: sum_list_nonneg)
    then have w: "wrap64 (tot + sWeight s) = tot + sWeight s" using Cons.prems True by simp
    obtain k p where step: "initMysqlDB cc (s # ss) ds tot =
        initMysqlDB cc ss (ds @ [\<lparr>wName = sName s, wDb = (k, p), wWeight = sWeight s\<rparr>]) (tot + sWeight s)"
      using initMysqlDB_step [OF True, of ss ds tot] w by metis
    show ?thesis
      using Cons.IH [of "tot + sWeight s" "ds @ [\<lparr>wName = sName s, wDb = (k, p), wWeight = sWeight s\<rparr>]"]
        Cons.prems pos True
      by (auto simp: step algebra_simps simp del: initMysqlDB.simps)
  next
    case False
    then show ?thesis using Cons by (simp add: initMysqlDB_skip del: initMysqlDB.simps)
  qed
qed simp

section \<open>One message\<close>

lemma route_message: "mysql_route tx (int (length m)) m = mysql_message tx m"
  by (simp add: mysql_message_def)

lemma delegate_main:
  "mysql_message (inTrans p) m = Some (ToMain, tx) \<Longrightarrow>
     delegateSelect intn m p = Some (Some ((False, None), p\<lparr>inTrans := tx\<rparr>))"
  by (simp add: delegateSelect_def route_message)

lemma replica_keeps_trans: "mysql_message tx m = Some (ToReplica q, tx') \<Longrightarrow> tx' = tx"
  using my.replica_cases [OF TrueI, of tx m q tx'] by auto

text \<open>What a SELECT may change: the pools, the world and what the client has been sent.\<close>

lemma delegate_select:
  assumes "mysql_message (inTrans p) m = Some (ToReplica q, tx)"
    and "delegateSelect intn m p = Some (Some (r, p'))"
  shows "fst r" and "toMain p' = toMain p" and "mainErr p' = mainErr p" and "inTrans p' = inTrans p"
proof -
  obtain db where db: "chooseByWeight intn (totalWeight p) (dbs p) = Some db"
    using assms by (auto simp: delegateSelect_def route_message split: option.splits)
  obtain g cp w where g: "poolGet mconnect (pools p ! db) (mworld p) = (g, cp, w)" by (metis prod_cases3)
  have "fst r \<and> toMain p' = toMain p \<and> mainErr p' = mainErr p \<and> inTrans p' = inTrans p"
    using assms db g by (cases g) (auto simp: delegateSelect_def route_message case_prod_unfold split: option.splits)
  then show "fst r" "toMain p' = toMain p" "mainErr p' = mainErr p" "inTrans p' = inTrans p" by simp_all
qed

lemma inbound_main:
  assumes "handleInbound intn ms p = Some (Some p')" and "mainErr p = None"
  shows "\<exists>rs. run_routes mysql_message (inTrans p) ms = Some (rs, inTrans p') \<and>
    toMain p' = toMain p @ main_traffic ms rs"
  using assms
proof (induction ms arbitrary: p)
  case (Cons m ms)
  have "mysql_message (inTrans p) m \<noteq> None"
    using my.no_statement [OF TrueI, of m "inTrans p"] my.with_statement [OF TrueI, of m _ "inTrans p"]
    by (cases "mysql_statement m") auto
  then obtain r tx where route: "mysql_message (inTrans p) m = Some (r, tx)" by auto
  show ?case
  proof (cases r)
    case ToMain
    with Cons.prems have "handleInbound intn ms (p\<lparr>inTrans := tx, toMain := toMain p @ m\<rparr>) = Some (Some p')"
      by (simp add: delegate_main [OF route [unfolded ToMain]])
    from Cons.IH [OF this] Cons.prems(2) show ?thesis using route ToMain by fastforce
  next
    case (ToReplica q)
    note rt = route [unfolded ToReplica]
    obtain x p1 where d: "delegateSelect intn m p = Some (Some (x, p1))"
      using Cons.prems(1) by (auto split: option.splits)
    note k = delegate_select [OF rt d]
    have "handleInbound intn ms p1 = Some (Some p')" using Cons.prems(1) d k(1) by (cases x) auto
    from Cons.IH [OF this] Cons.prems(2) k show ?thesis
      using rt replica_keeps_trans [OF rt] by fastforce
  qed
qed simp

text \<open>A SELECT on a pooled connection that is ready.\<close>

lemma delegate_pooled:
  assumes "mysql_message (inTrans p) m = Some (ToReplica q, tx)"
    and "chooseByWeight intn (totalWeight p) (dbs p) = Some db"
    and "\<not> Pool.closed (pools p ! db)" and "queued (conns (pools p ! db)) = c # cs"
    and "length cs < ccap (conns (pools p ! db))"
    and "writeDataRow q (c, toClient p) = Some (Some (e, c', out))"
  shows "delegateSelect intn m p = Some (Some ((True, None),
    p\<lparr>pools := (pools p)[db := (pools p ! db)\<lparr>conns := (conns (pools p ! db))\<lparr>queued := cs @ [c']\<rparr>\<rparr>],
      toClient := out\<rparr>))"
  using assms by (simp add: delegateSelect_def route_message poolGet_def poolPut_def chan_recv_def chan_send_def)

section \<open>A single replica with one pooled connection\<close>

definition single :: "conn \<Rightarrow> session \<Rightarrow> bool" where
  "single c p \<longleftrightarrow> 0 < totalWeight p \<and> map wDb (dbs p) = [0] \<and> \<not> inTrans p \<and>
     (\<exists>cp. pools p = [cp] \<and> \<not> Pool.closed cp \<and> queued (conns cp) = [c] \<and> 0 < ccap (conns cp))"

definition select_message :: "bytes \<Rightarrow> bytes \<Rightarrow> bool" where
  "select_message q m \<longleftrightarrow> mysql_message False m = Some (ToReplica q, False)"

lemma single_choice:
  assumes "single c p"
  shows "chooseByWeight intn (totalWeight p) (dbs p) = Some 0"
proof -
  obtain d where d: "dbs p = [d]" "wDb d = 0" using assms by (cases "dbs p") (auto simp: single_def)
  with assms show ?thesis by (auto simp: chooseByWeight_def single_def Let_def idx_def)
qed

text \<open>A closed connection answers no query, and goes back into the pool.\<close>

lemma closed_query: "Conn.closed c \<Longrightarrow> writeDataRow q (c, out) = Some (Some (Some DriverErrBadConn, clearResult c, out))"
  by (simp add: writeDataRow_def query1_def Let_def clearResult_def)

text \<open>The reply of a query is cut off before its first packet is complete.\<close>

lemma query_cut_off:
  assumes "query_ready q mc" and "canceled mc = None" and "strict_prefix (incoming mc) (frames (reply_seq q) h)"
    and "h \<noteq> []" and "length h < maxPacketSize"
  shows "\<exists>e mc' fwd. writeDataRow q (mc, dst) = Some (Some (Some e, mc', dst @ fwd)) \<and> Conn.closed mc' \<and>
    prefix fwd (incoming mc)"
proof -
  obtain mc2 where q: "writeCommandPacketStr comQuery q (clearResult mc) = Some (None, mc2)"
    "readable (grow_result mc2)" "incoming (grow_result mc2) = incoming mc" "sequence mc2 = reply_seq q"
    "canceled mc2 = canceled mc"
    by (rule send_query [OF assms(1)]) blast
  have g: "sequence (grow_result mc2) = sequence mc2" "canceled (grow_result mc2) = None"
    using q(5) assms(2) by (simp_all add: grow_result_def)
  have "awaiting [] (incoming mc) (grow_result mc2)" using q(2,3) by (simp add: awaiting_def)
  from read1_dies [OF this g(2) _ assms(4,5), of dst] obtain mc' fwd where
    r: "readPacket1 (grow_result mc2, dst) = Some (Inl ErrInvalidConn, mc', dst @ fwd)" "Conn.closed mc'"
    "prefix fwd (incoming mc)"
    using assms(3) g(1) q(4) by auto
  have "query1 q (mc, dst) = Some (Inl (bad_conn ErrInvalidConn), mc', dst @ fwd)"
    using assms(1) q(1) r(1)
    by (simp add: query1_def query_ready_def clearResult_def Let_def readResultSetHeaderPacket1_def)
  with r(2,3) show ?thesis by (simp add: writeDataRow_def)
qed

section \<open>Dead connections in a pool\<close>

text \<open>\<open>handleInbound\<close> with random numbers of its own for every message.\<close>

fun inbound_draws :: "((int \<Rightarrow> int) \<times> bytes) list \<Rightarrow> session \<Rightarrow> session option option" where
  "inbound_draws [] p = Some (Some p)"
| "inbound_draws ((intn, buff) # rest) p =
     (case delegateSelect intn buff p of
        None \<Rightarrow> None
      | Some None \<Rightarrow> Some None
      | Some (Some ((flag, err), p1)) \<Rightarrow>
          if flag then inbound_draws rest p1
          else case err of
            Some e \<Rightarrow> Some (Some p1)
          | None \<Rightarrow> (case mainErr p1 of
              Some e \<Rightarrow> Some (Some p1)
            | None \<Rightarrow> inbound_draws rest (p1\<lparr>toMain := toMain p1 @ buff\<rparr>)))"

lemma inbound_draws_same: "inbound_draws (map (Pair intn) ms) p = handleInbound intn ms p"
  by (induction intn ms p rule: handleInbound.induct) (auto split: option.splits)

text \<open>The pool \<open>db\<close> is open, has room for what was taken from it, and holds a closed connection, or nothing else.\<close>

definition dead_in :: "bool \<Rightarrow> nat \<Rightarrow> session \<Rightarrow> bool" where
  "dead_in only db p \<longleftrightarrow> db < length (pools p) \<and> \<not> Pool.closed (pools p ! db) \<and>
     length (queued (conns (pools p ! db))) \<le> ccap (conns (pools p ! db)) \<and>
     (\<exists>c \<in> set (queued (conns (pools p ! db))). Conn.closed c) \<and>
     (only \<longrightarrow> (\<exists>c. queued (conns (pools p ! db)) = [c]))"

lemma dead_in_main [simp]: "dead_in only db (p\<lparr>inTrans := tx\<rparr>) = dead_in only db p"
  "dead_in only db (p\<lparr>toMain := b\<rparr>) = dead_in only db p"
  by (simp_all add: dead_in_def)

text \<open>A SELECT that falls to the pool takes its first connection and puts it back behind the others.\<close>

lemma dead_pool_select:
  assumes "dead_in only db p" and "mysql_message (inTrans p) m = Some (ToReplica q, tx)"
    and "chooseByWeight intn (totalWeight p) (dbs p) = Some db"
    and "delegateSelect intn m p = Some (Some (x, p1))"
  shows "dead_in only db p1"
proof -
  obtain c cs where q: "queued (conns (pools p ! db)) = c # cs" "length cs < ccap (conns (pools p ! db))"
    using assms(1) by (cases "queued (conns (pools p ! db))") (auto simp: dead_in_def)
  have db: "db < length (pools p)" "\<not> Pool.closed (pools p ! db)" using assms(1) by (simp_all add: dead_in_def)
  have "writeDataRow q (c, toClient p) \<noteq> None \<and> writeDataRow q (c, toClient p) \<noteq> Some None"
    using assms(2-4) db(2) q(1) by (auto simp: delegateSelect_def route_message poolGet_def chan_recv_def)
  then obtain e c' out where w: "writeDataRow q (c, toClient p) = Some (Some (e, c', out))"
    by (metis not_Some_eq prod_cases3)
  have "Conn.closed c \<Longrightarrow> Conn.closed c'" using w closed_query [of c q "toClient p"] by (auto simp: clearResult_def)
  then show ?thesis
    using delegate_pooled [OF assms(2,3) db(2) q w] assms(1,4) q db by (auto simp: dead_in_def)
qed

lemma dead_in_delegate:
  assumes "dead_in only db p" and "delegateSelect intn m p = Some (Some (x, p1))"
  shows "dead_in only db p1"
proof -
  obtain r tx where rt: "mysql_message (inTrans p) m = Some (r, tx)"
    using assms(2) by (auto simp: delegateSelect_def route_message split: option.splits)
  show ?thesis
  proof (cases r)
    case ToMain
    then show ?thesis using assms delegate_main [of p m tx intn] rt by auto
  next
    case (ToReplica q)
    note m = rt [unfolded ToReplica]
    obtain d where d: "chooseByWeight intn (totalWeight p) (dbs p) = Some d"
      using assms(2) m by (auto simp: delegateSelect_def route_message split: option.splits)
    show ?thesis
    proof (cases "d = db")
      case True
      then show ?thesis using dead_pool_select [OF assms(1) m _ assms(2)] d by simp
    next
      case False
      obtain g cp w where g: "poolGet mconnect (pools p ! d) (mworld p) = (g, cp, w)" by (metis prod_cases3)
      have "pools p1 ! db = pools p ! db \<and> length (pools p1) = length (pools p)"
        using assms(2) m d g False by (cases g) (auto simp: delegateSelect_def route_message case_prod_unfold split: option.splits)
      then show ?thesis using assms(1) by (simp add: dead_in_def)
    qed
  qed
qed

lemma dead_in_stays:
  assumes "inbound_draws xs p = Some (Some p2)" and "dead_in only db p"
  shows "dead_in only db p2"
  using assms
proof (induction xs arbitrary: p)
  case (Cons x xs)
  obtain intn m where x: "x = (intn, m)" by fastforce
  obtain flag err p1 where d: "delegateSelect intn m p = Some (Some ((flag, err), p1))"
    using Cons.prems(1) x by (auto split: option.splits)
  have k: "dead_in only db p1" using dead_in_delegate [OF Cons.prems(2) d] .
  show ?case
    using Cons.prems(1) d x k Cons.IH [of p1] Cons.IH [of "p1\<lparr>toMain := toMain p1 @ m\<rparr>"]
    by (auto split: if_splits option.splits)
qed simp

lemma dead_select_silent:
  assumes "dead_in only db p" and "mysql_message (inTrans p) m = Some (ToReplica q, tx)"
    and "chooseByWeight intn (totalWeight p) (dbs p) = Some db" and "Conn.closed (hd (queued (conns (pools p ! db))))"
  shows "\<exists>p'. delegateSelect intn m p = Some (Some ((True, None), p')) \<and> toClient p' = toClient p \<and> toMain p' = toMain p"
proof -
  obtain c cs where q: "queued (conns (pools p ! db)) = c # cs" "length cs < ccap (conns (pools p ! db))"
    using assms(1) by (cases "queued (conns (pools p ! db))") (auto simp: dead_in_def)
  have db: "\<not> Pool.closed (pools p ! db)" and c: "Conn.closed c" using assms(1,4) q(1) by (simp_all add: dead_in_def)
  show ?thesis using delegate_pooled [OF assms(2,3) db q closed_query [OF c]] by simp
qed

section \<open>Properties\<close>

text \<open>
  Set-up and choice fit together: the replicas kept are those with a positive weight and a
  DSN the driver accepts, in order; setting up their pools does not panic; and whenever there
  is one, every random number chooses one of them.
\<close>

theorem initMysqlDB_serves:
  assumes "sum_list (map sWeight (filter (active cc) ss)) < 2 ^ 63"
  shows "\<exists>(ds :: ('k \<times> 'c pool) weighted list) tot. initMysqlDB cc ss [] 0 = Some (ds, tot) \<and>
    map wName ds = map sName (filter (active cc) ss) \<and>
    (ds \<noteq> [] \<longrightarrow> 0 \<le> intn tot \<longrightarrow> intn tot < tot \<longrightarrow>
       (\<exists>d \<in> set ds. chooseByWeight intn tot ds = Some (wDb d)))"
proof -
  let ?kept = "filter (active cc) ss"
  obtain ds :: "('k \<times> 'c pool) weighted list" where ds: "initMysqlDB cc ss [] 0 = Some (ds, sum_list (map sWeight ?kept))"
    "map wName ds = map sName ?kept" "map wWeight ds = map sWeight ?kept"
    using initMysqlDB_result [of 0 cc ss "[]"] assms by auto
  have "\<forall>w \<in> set (map wWeight ds). 0 < w" unfolding ds(3) by (auto simp: active_def)
  then have "list_all (\<lambda>d. 0 < wWeight d) ds" by (simp add: list_all_iff)
  then have "weights_ok ds (sum_list (map sWeight ?kept))" if "ds \<noteq> []"
    using that assms ds(3) by (simp add: weights_ok_def)
  then show ?thesis using my_choice.never_panics [of ds _ intn]
    by (intro exI [of _ ds] exI [of _ "sum_list (map sWeight ?kept)"]) (simp add: ds)
qed

definition demo_secondary :: secondary where
  "demo_secondary = \<lparr>sName = str ''r'', sHost = str ''h'', sPort = 3306, sUser = str ''u'', sPassword = [],
     sDbName = str ''d'', sWeight = 3, sMaxIdleConnCount = 0, sMaxOpenConnsCount = 0, sConnMaxLifetime = 0\<rparr>"

theorem initMysqlDB_serves_witness:
  "\<exists>ds tot. initMysqlDB (\<lambda>d. Inr d) [demo_secondary\<lparr>sWeight := 0\<rparr>, demo_secondary] [] 0 =
     Some (ds :: (bytes \<times> conn pool) weighted list, tot) \<and> map wName ds = [str ''r'']"
proof -
  have "filter (active (\<lambda>d. Inr d)) [demo_secondary\<lparr>sWeight := 0\<rparr>, demo_secondary] = [demo_secondary]"
    by (simp add: active_def demo_secondary_def)
  then show ?thesis
    using initMysqlDB_serves [of "\<lambda>d. Inr d" "[demo_secondary\<lparr>sWeight := 0\<rparr>, demo_secondary]" id]
    by (auto simp: demo_secondary_def simp del: initMysqlDB.simps)
qed

text \<open>
  C1: A SELECT outside a transaction, whose chosen pool has an idle connection, is answered by
  that replica: the client gets the replica's reply, be it rows, an acknowledgement or an error, byte
  for byte, the main database gets nothing, and the connection goes to the back of its pool; if the
  replica has sent nothing more, it is ready for the next query there.
\<close>

theorem select_answered_by_replica:
  assumes "mysql_message (inTrans p) m = Some (ToReplica q, tx)"
    and "chooseByWeight intn (totalWeight p) (dbs p) = Some db"
    and "\<not> Pool.closed (pools p ! db)" and "queued (conns (pools p ! db)) = c # cs"
    and "length cs < ccap (conns (pools p ! db))"
    and "query_ready q c" and "reply_ok (rejectReadOnly (cfg c)) rep"
    and "incoming c = packets (reply_seq q) (reply_packets rep) @ tail"
  shows "\<exists>c'. delegateSelect intn m p = Some (Some ((True, None),
      p\<lparr>pools := (pools p)[db := (pools p ! db)\<lparr>conns := (conns (pools p ! db))\<lparr>queued := cs @ [c']\<rparr>\<rparr>],
        toClient := toClient p @ packets (reply_seq q) (reply_packets rep)\<rparr>)) \<and>
    incoming c' = tail \<and> sent c' = sent c @ frames 0 (comQuery # q) \<and>
    (tail = [] \<longrightarrow> (\<forall>q'. int (1 + length q') \<le> maxAllowedPacket c \<longrightarrow> query_ready q' c'))"
  using delegate_pooled [OF assms(1-5)] reply_forwarded [OF assms(6-8)] ready_again [OF assms(6)] by blast

definition demo_session :: "conn \<Rightarrow> session" where
  "demo_session c =
     \<lparr>pools = [\<lparr>conns = \<lparr>queued = [c], ccap = 2\<rparr>, minConns = 1, maxConns = 2, idleTimeout = 60, closed = False\<rparr>],
      dbs = [\<lparr>wName = [], wDb = 0, wWeight = 1\<rparr>], totalWeight = 1, inTrans = False, toClient = [], toMain = [],
      mainErr = None, mworld = \<lparr>connects = [], shutConns = []\<rparr>\<rparr>"

lemma demo_session: "single c (demo_session c)" "toClient (demo_session c) = []" "toMain (demo_session c) = []"
  "mainErr (demo_session c) = None" "inTrans (demo_session c) = False"
  "pools (demo_session c) =
     [\<lparr>conns = \<lparr>queued = [c], ccap = 2\<rparr>, minConns = 1, maxConns = 2, idleTimeout = 60, closed = False\<rparr>]"
  by (simp_all add: demo_session_def single_def)

lemma demo_select: "select_message (str ''select 1'') (com_query ''select 1'')"
  unfolding select_message_def by code_simp

theorem select_answered_by_replica_witness:
  "\<exists>p'. delegateSelect (\<lambda>_. 0) (com_query ''select 1'')
       (demo_session (fresh_conn [(packets (reply_seq (str ''select 1'')) (reply_packets demo_reply), None)])) =
     Some (Some ((True, None), p')) \<and>
     toClient p' = packets (reply_seq (str ''select 1'')) (reply_packets demo_reply) \<and>
     toMain p' = []"
proof -
  let ?q = "str ''select 1''"
  let ?reply = "packets (reply_seq ?q) (reply_packets demo_reply)"
  let ?c = "fresh_conn [(?reply, None)]"
  let ?p = "demo_session ?c"
  have m: "mysql_message (inTrans ?p) (com_query ''select 1'') = Some (ToReplica ?q, False)"
    using demo_select by (simp add: demo_session(5) select_message_def)
  have pool: "\<not> Pool.closed (pools ?p ! 0)" "queued (conns (pools ?p ! 0)) = ?c # []"
    "length [] < ccap (conns (pools ?p ! 0))" by (simp_all add: demo_session(6))
  have ready: "query_ready ?q ?c" "incoming ?c = ?reply @ []"
    by (rule demo_query_ready) (simp_all add: fresh_conn(3))
  obtain c' where "delegateSelect (\<lambda>_. 0) (com_query ''select 1'') ?p = Some (Some ((True, None),
      ?p\<lparr>pools := (pools ?p)[0 := (pools ?p ! 0)\<lparr>conns := (conns (pools ?p ! 0))\<lparr>queued := [] @ [c']\<rparr>\<rparr>],
        toClient := toClient ?p @ ?reply\<rparr>))"
    using select_answered_by_replica [OF m single_choice [OF demo_session(1)] pool ready(1) demo_reply ready(2)]
    by blast
  then show ?thesis by (intro exI conjI) (assumption, simp_all add: demo_session)
qed

text \<open>
  The handler of a client's messages agrees with the router: as long as it runs without
  panic and writes to the main database succeed, the main database has been sent exactly the
  messages routed to it, unchanged and in order, and the transaction flag is the router's.
\<close>

theorem inbound_refines_router:
  assumes "handleInbound intn ms p = Some (Some p')" and "mainErr p = None"
  shows "\<exists>rs. run_routes mysql_message (inTrans p) ms = Some (rs, inTrans p') \<and>
    toMain p' = toMain p @ main_traffic ms rs"
  using assms by (rule inbound_main)

theorem inbound_refines_router_witness:
  "\<exists>p'. handleInbound (\<lambda>_. 0) [com_query ''begin'', com_query ''select 1''] (demo_session (fresh_conn [])) = Some (Some p') \<and>
     toMain p' = com_query ''begin'' @ com_query ''select 1'' \<and> inTrans p'"
proof -
  let ?ms = "[com_query ''begin'', com_query ''select 1'']"
  have r: "mysql_message False (com_query ''begin'') = Some (ToMain, True)"
    "mysql_message True (com_query ''select 1'') = Some (ToMain, True)" by code_simp+
  define p where "p = demo_session (fresh_conn [])"
  have p: "inTrans p = False" "mainErr p = None" "toMain p = []" by (simp_all add: p_def demo_session)
  obtain p' where h: "handleInbound (\<lambda>_. 0) ?ms p = Some (Some p')"
    using p r by (simp add: delegate_main)
  from inbound_refines_router [OF h p(2)] h r p show ?thesis
    by (auto simp: p_def)
qed

text \<open>
  C9: A broken connection is never given up.  When the reply to a SELECT is cut off before its first packet is
  complete, the client is sent at most that fragment and the main server nothing, and from then on, whatever messages of
  the client follow and whatever replicas are chosen for them, the pool of that replica, if it is not closed or used by
  others meanwhile, holds a closed connection.  Every
  SELECT that is handed a closed connection there is answered with nothing; if the broken connection was the only
  idle one, that is every later SELECT that falls to this replica.
\<close>

theorem broken_connection_starves_reads:
  assumes "mysql_message (inTrans p) m = Some (ToReplica q, tx)" and "chooseByWeight intn (totalWeight p) (dbs p) = Some db"
    and "db < length (pools p)" and "\<not> Pool.closed (pools p ! db)" and "queued (conns (pools p ! db)) = c # cs"
    and "length cs < ccap (conns (pools p ! db))" and "query_ready q c" and "canceled c = None"
    and "strict_prefix (incoming c) (frames (reply_seq q) h)" and "h \<noteq> []" and "length h < maxPacketSize"
  shows "\<exists>p' d. delegateSelect intn m p = Some (Some ((True, None), p')) \<and> toClient p' = toClient p @ d \<and>
    prefix d (incoming c) \<and> toMain p' = toMain p \<and>
    (\<forall>xs p2. inbound_draws xs p' = Some (Some p2) \<longrightarrow>
       (\<exists>c' \<in> set (queued (conns (pools p2 ! db))). Conn.closed c') \<and>
       (\<forall>r m2 q2 tx2. mysql_message (inTrans p2) m2 = Some (ToReplica q2, tx2) \<longrightarrow>
          chooseByWeight r (totalWeight p2) (dbs p2) = Some db \<longrightarrow>
          cs = [] \<or> Conn.closed (hd (queued (conns (pools p2 ! db)))) \<longrightarrow>
          (\<exists>p3. delegateSelect r m2 p2 = Some (Some ((True, None), p3)) \<and> toClient p3 = toClient p2 \<and> toMain p3 = toMain p2)))"
proof -
  obtain e c' fwd where w: "writeDataRow q (c, toClient p) = Some (Some (Some e, c', toClient p @ fwd))"
    "Conn.closed c'" "prefix fwd (incoming c)"
    using query_cut_off [OF assms(7-11)] by blast
  define p' where "p' = p\<lparr>pools := (pools p)[db := (pools p ! db)\<lparr>conns := (conns (pools p ! db))\<lparr>queued := cs @ [c']\<rparr>\<rparr>],
    toClient := toClient p @ fwd\<rparr>"
  have d: "delegateSelect intn m p = Some (Some ((True, None), p'))"
    using delegate_pooled [OF assms(1,2,4,5,6) w(1)] by (simp add: p'_def)
  have p': "toClient p' = toClient p @ fwd" "toMain p' = toMain p" by (simp_all add: p'_def)
  have dead: "dead_in (cs = []) db p'" using assms(3,4,6) w(2) by (simp add: dead_in_def p'_def)
  have later: "(\<exists>c' \<in> set (queued (conns (pools p2 ! db))). Conn.closed c')"
      "cs = [] \<Longrightarrow> Conn.closed (hd (queued (conns (pools p2 ! db))))" "dead_in (cs = []) db p2"
    if "inbound_draws xs p' = Some (Some p2)" for xs p2
    using dead_in_stays [OF that dead] by (auto simp: dead_in_def)
  have "\<exists>p3. delegateSelect r m2 p2 = Some (Some ((True, None), p3)) \<and> toClient p3 = toClient p2 \<and> toMain p3 = toMain p2"
    if "inbound_draws xs p' = Some (Some p2)" "mysql_message (inTrans p2) m2 = Some (ToReplica q2, tx2)"
      "chooseByWeight r (totalWeight p2) (dbs p2) = Some db" "cs = [] \<or> Conn.closed (hd (queued (conns (pools p2 ! db))))"
    for xs p2 r m2 q2 tx2
    using dead_select_silent [OF later(3) [OF that(1)] that(2,3)] later(2) [OF that(1)] that(4) by blast
  with d p' w(3) later(1) show ?thesis by blast
qed

theorem broken_connection_starves_reads_witness:
  "\<exists>p'. delegateSelect (\<lambda>_. 0) (com_query ''select 1'') (demo_session (fresh_conn [])) = Some (Some ((True, None), p')) \<and>
     toClient p' = [] \<and> toMain p' = [] \<and> (\<exists>c' \<in> set (queued (conns (pools p' ! 0))). Conn.closed c')"
proof -
  let ?p = "demo_session (fresh_conn [])"
  have m: "mysql_message (inTrans ?p) (com_query ''select 1'') = Some (ToReplica (str ''select 1''), False)"
    using demo_select by (simp add: demo_session(5) select_message_def)
  have pool: "0 < length (pools ?p)" "\<not> Pool.closed (pools ?p ! 0)" "queued (conns (pools ?p ! 0)) = fresh_conn [] # []"
    "length [] < ccap (conns (pools ?p ! 0))" by (simp_all add: demo_session(6))
  have inc: "incoming (fresh_conn []) = []" "frames (reply_seq (str ''select 1'')) [0] \<noteq> []"
    by (simp_all add: fresh_conn(3) frames_short maxPacketSize_def le24_def)
  then have "strict_prefix (incoming (fresh_conn [])) (frames (reply_seq (str ''select 1'')) [0])"
    by (simp add: strict_prefix_def)
  then obtain p' d where p': "delegateSelect (\<lambda>_. 0) (com_query ''select 1'') ?p = Some (Some ((True, None), p'))"
    "toClient p' = toClient ?p @ d" "prefix d (incoming (fresh_conn []))" "toMain p' = toMain ?p"
    "\<forall>xs p2. inbound_draws xs p' = Some (Some p2) \<longrightarrow> (\<exists>c' \<in> set (queued (conns (pools p2 ! 0))). Conn.closed c')"
    using broken_connection_starves_reads [where h = "[0]", OF m single_choice [OF demo_session(1)] pool demo_query_ready fresh_conn_fields(2)]
    by (fastforce simp: maxPacketSize_def)
  have "inbound_draws [] p' = Some (Some p')" by simp
  then have "\<exists>c' \<in> set (queued (conns (pools p' ! 0))). Conn.closed c'" using p'(5) by blast
  then show ?thesis using p'(1-4) inc(1) by (auto simp: demo_session)
qed

text \<open>
  When the pool cannot give a connection, a SELECT is lost: the error is dropped because
  the message counts as dealt with, the client is sent neither a result nor an error, and the
  main database is not asked instead.
\<close>

theorem failed_get_loses_select:
  assumes "mysql_message (inTrans p) m = Some (ToReplica q, tx)"
    and "chooseByWeight intn (totalWeight p) (dbs p) = Some db"
    and "poolGet mconnect (pools p ! db) (mworld p) = (Inl e, cp, w)"
  shows "handleInbound intn (m # ms) p = handleInbound intn ms (p\<lparr>pools := (pools p)[db := cp], mworld := w\<rparr>)"
  using assms by (simp add: delegateSelect_def route_message)

theorem failed_get_loses_select_witness:
  "handleInbound (\<lambda>_. 0) [com_query ''select 1'']
     ((demo_session (fresh_conn []))\<lparr>pools := [\<lparr>conns = \<lparr>queued = [], ccap = 2\<rparr>, minConns = 1, maxConns = 2,
        idleTimeout = 60, closed = False\<rparr>], mworld := \<lparr>connects = [Inl (OsError 111)], shutConns = []\<rparr>\<rparr>) =
   Some (Some ((demo_session (fresh_conn []))\<lparr>pools := [\<lparr>conns = \<lparr>queued = [], ccap = 2\<rparr>, minConns = 1,
        maxConns = 2, idleTimeout = 60, closed = False\<rparr>]\<rparr>))"
proof -
  let ?cp = "\<lparr>conns = \<lparr>queued = [], ccap = 2\<rparr>, minConns = 1, maxConns = 2, idleTimeout = 60, closed = False\<rparr> :: conn pool"
  let ?p = "(demo_session (fresh_conn []))\<lparr>pools := [?cp], mworld := \<lparr>connects = [Inl (OsError 111)], shutConns = []\<rparr>\<rparr>"
  have m: "mysql_message (inTrans ?p) (com_query ''select 1'') = Some (ToReplica (str ''select 1''), False)"
    using demo_select by (simp add: demo_session(5) select_message_def)
  have c: "chooseByWeight (\<lambda>_. 0) (totalWeight ?p) (dbs ?p) = Some 0"
    using single_choice [OF demo_session(1), of "\<lambda>_. 0" "fresh_conn []"] by simp
  have g: "poolGet mconnect (pools ?p ! 0) (mworld ?p) = (Inl (OsError 111), ?cp, \<lparr>connects = [], shutConns = []\<rparr>)"
    by (simp add: poolGet_def chan_recv_def mconnect_def)
  from failed_get_loses_select [OF m c g, of "[]"] show ?thesis
    by (simp add: demo_session_def del: handleInbound.simps(2))
qed

end
