(* ===== verification/PgProxy.thy ===== *)
theory PgProxy
  imports Route Weights
begin

text \<open>
  The PostgreSQL proxy (\<open>proxy/postgres.go\<close>): its set-up, the description of a result's columns,
  the writing of a result to the client and the handling of a client's messages.  The database
  handle of \<open>sqlx\<close> and the message encoder of \<open>pgproto3\<close> are library code: arguments here.
\<close>

section \<open>Column types\<close>

record pgDataType =
  DataTypeOID :: int
  DataTypeSize :: int

definition pgtype :: "string \<Rightarrow> int \<Rightarrow> int \<Rightarrow> bytes \<times> pgDataType" where
  "pgtype name oid sz = (str name, \<lparr>DataTypeOID = oid, DataTypeSize = sz\<rparr>)"

definition makeDataTypeLookup :: "(bytes \<times> pgDataType) list" where
  "makeDataTypeLookup =
     [pgtype ''BOOL'' 16 1, pgtype ''BYTEA'' 17 (-1), pgtype ''CHAR'' 18 1, pgtype ''INT8'' 20 8,
      pgtype ''INT2'' 21 2, pgtype ''INT4'' 23 4, pgtype ''REGPROC'' 24 4, pgtype ''_ACLITEM'' 25 (-1),
      pgtype ''NAME'' 25 (-1), pgtype ''TEXT'' 25 (-1), pgtype ''VARCHAR'' 25 (-1), pgtype ''OID'' 26 4,
      pgtype ''TID'' 27 6, pgtype ''XID'' 28 4, pgtype ''CID'' 29 4, pgtype ''JSON'' 114 (-1),
      pgtype ''XML'' 142 (-1), pgtype ''POINT'' 600 16, pgtype ''FLOAT4'' 700 4, pgtype ''FLOAT8'' 701 8]"

definition dataTypeLookup :: "bytes \<rightharpoonup> pgDataType" where
  "dataTypeLookup = map_of makeDataTypeLookup"

section \<open>Results\<close>

text \<open>
  What the code reads of a \<open>sql.Rows\<close>: the columns, asked for twice, the type names, the rows
  that \<open>Next\<close> steps through, each as \<open>Scan\<close> finds it, and what \<open>Err\<close> says when there is no next one.
\<close>

record pgrows =
  pgColumns :: "error + bytes list"
  pgTypes :: "error + bytes list"
  pgColumns2 :: "error + bytes list"
  pgData :: "(error + bytes option list) list"
  pgErr :: "error option"

record fieldDescription =
  fdName :: bytes
  fdTableOID :: u32
  fdTableAttribute :: u16
  fdOID :: u32
  fdSize :: u16
  fdModifier :: int
  fdFormat :: int

text \<open>\<open>columeTypeNames[col] = columnTypes[i].DatabaseTypeName()\<close>: a map keyed by the column's name.\<close>

fun typeNames :: "bytes list \<Rightarrow> bytes list \<Rightarrow> (bytes \<rightharpoonup> bytes) \<Rightarrow> (bytes \<rightharpoonup> bytes) option" where
  "typeNames [] ts m = Some m"
| "typeNames (c # cs) [] m = None"
| "typeNames (c # cs) (t # ts) m = typeNames cs ts (m(c \<mapsto> t))"

definition describe :: "bytes \<Rightarrow> bytes \<Rightarrow> fieldDescription" where
  "describe name ty =
     (let (oid, sz) = (case dataTypeLookup ty of
            Some t \<Rightarrow> (DataTypeOID t, DataTypeSize t) | None \<Rightarrow> (17, -1))
      in \<lparr>fdName = name, fdTableOID = 0, fdTableAttribute = 0, fdOID = of_int oid, fdSize = of_int sz,
          fdModifier = -1, fdFormat = 0\<rparr>)"

definition prepareRowDescription :: "pgrows \<Rightarrow> (error + fieldDescription list) option" where
  "prepareRowDescription rows =
     (case pgColumns rows of
        Inl e \<Rightarrow> Some (Inl e)
      | Inr cols \<Rightarrow>
          (case pgTypes rows of
             Inl e \<Rightarrow> Some (Inl e)
           | Inr types \<Rightarrow> do {
               m \<leftarrow> typeNames cols types Map.empty;
               Some (Inr (map (\<lambda>c. describe c (case m c of Some t \<Rightarrow> t | None \<Rightarrow> [])) cols)) }))"

text \<open>The messages the proxy writes to the client; how they are encoded is \<open>pgproto3\<close>'s.\<close>

datatype pgmsg =
    RowDescription "fieldDescription list"
  | DataRow "bytes option list"
  | CommandComplete bytes
  | ReadyForQuery byte

text \<open>The client's connection: what it has been sent, and the outcomes of the coming writes.\<close>

record client =
  written :: bytes
  outcomes :: "(nat \<times> error option) list"

definition client_write :: "bytes \<Rightarrow> client \<Rightarrow> error option \<times> client" where
  "client_write d c = (case outcomes c of
     [] \<Rightarrow> (None, c\<lparr>written := written c @ d\<rparr>)
   | (n, e) # os \<Rightarrow> (e, c\<lparr>written := written c @ (if e = None then d else take n d), outcomes := os\<rparr>))"

text \<open>\<open>Scan\<close> with a number of destinations other than that of the row's columns is an error.\<close>

definition scan :: "nat \<Rightarrow> error + bytes option list \<Rightarrow> error + bytes option list" where
  "scan cols r = onOk r (\<lambda>vs. if length vs = cols then Inr vs
     else Inl (FmtError ''sql: expected a different number of destination arguments in Scan''))"

fun write_rows :: "(pgmsg \<Rightarrow> bytes) \<Rightarrow> nat \<Rightarrow> nat \<Rightarrow> (error + bytes option list) list \<Rightarrow> client \<Rightarrow>
    (error + nat) \<times> client" where
  "write_rows encode cols cnt [] c = (Inr cnt, c)"
| "write_rows encode cols cnt (r # rs) c =
     (case scan cols r of
        Inl e \<Rightarrow> (Inl e, c)
      | Inr row \<Rightarrow>
          (case client_write (encode (DataRow row)) c of
             (Some e, c') \<Rightarrow> (Inl e, c')
           | (None, c') \<Rightarrow> write_rows encode cols (cnt + 1) rs c'))"

definition complete_tag :: "nat \<Rightarrow> bytes" where
  "complete_tag n = str ''SELECT '' @ itoa (int n)"

text \<open>The end of \<open>writeDataRow\<close>: the error of the rows is looked at last.\<close>

definition finish_rows :: "(pgmsg \<Rightarrow> bytes) \<Rightarrow> nat \<Rightarrow> error option \<Rightarrow> client \<Rightarrow> error option \<times> client" where
  "finish_rows encode cnt rowsErr c =
     (case client_write (encode (CommandComplete (complete_tag cnt))) c of
        (Some e, c1) \<Rightarrow> (Some e, c1)
      | (None, c1) \<Rightarrow>
          (case client_write (encode (ReadyForQuery (of_char CHR ''I''))) c1 of
             (Some e, c2) \<Rightarrow> (Some e, c2)
           | (None, c2) \<Rightarrow> (rowsErr, c2)))"

definition pg_writeDataRow :: "(pgmsg \<Rightarrow> bytes) \<Rightarrow> error + pgrows \<Rightarrow> client \<Rightarrow> (error option \<times> client) option" where
  "pg_writeDataRow encode answer c =
     (case answer of
        Inl e \<Rightarrow> Some (Some e, c)
      | Inr rows \<Rightarrow>
          (case prepareRowDescription rows of
             None \<Rightarrow> None
           | Some (Inl e) \<Rightarrow> Some (Some e, c)
           | Some (Inr desc) \<Rightarrow>
               (case client_write (encode (RowDescription desc)) c of
                  (Some e, c1) \<Rightarrow> Some (Some e, c1)
                | (None, c1) \<Rightarrow>
                    let cols = (case pgColumns2 rows of Inl e \<Rightarrow> 0 | Inr cs \<Rightarrow> length cs)
                    in Some (case write_rows encode cols 0 (pgData rows) c1 of
                         (Inl e, c2) \<Rightarrow> (Some e, c2)
                       | (Inr cnt, c2) \<Rightarrow> finish_rows encode cnt (pgErr rows) c2))))"

section \<open>Set-up\<close>

definition pg_dsn :: "secondary \<Rightarrow> bytes" where
  "pg_dsn s = str ''host='' @ sHost s @ str '' port='' @ itoa (sPort s) @ str '' user='' @ sUser s @
     str '' password='' @ sPassword s @ str '' dbname='' @ sDbName s @
     str '' application_name=pgproxy sslmode=disable''"

text \<open>The handle with the limits set on it; the lifetime in nanoseconds.\<close>

record 'h pgdb =
  handle :: 'h
  maxIdleConns :: int
  maxOpenConns :: int
  connMaxLifetime :: int

fun initDB :: "(bytes \<Rightarrow> error + 'h) \<Rightarrow> secondary list \<Rightarrow> 'h pgdb weighted list \<Rightarrow> int \<Rightarrow>
    'h pgdb weighted list \<times> int" where
  "initDB openDB [] ds tot = (ds, tot)"
| "initDB openDB (s # ss) ds tot =
     (if sWeight s \<le> 0 then initDB openDB ss ds tot
      else case openDB (pg_dsn s) of
             Inl e \<Rightarrow> initDB openDB ss ds tot
           | Inr h \<Rightarrow>
               let db = \<lparr>handle = h,
                     maxIdleConns = (if 0 < sMaxIdleConnCount s then sMaxIdleConnCount s else 1),
                     maxOpenConns = (if 0 < sMaxOpenConnsCount s then sMaxOpenConnsCount s else 10),
                     connMaxLifetime = (if 0 < sConnMaxLifetime s then wrap64 (sConnMaxLifetime s * 1000000000)
                       else 60000000000)\<rparr>
               in initDB openDB ss (ds @ [\<lparr>wName = sName s, wDb = db, wWeight = sWeight s\<rparr>])
                    (wrap64 (tot + sWeight s)))"

section \<open>A client's session\<close>

text \<open>
  \<open>PostgresProxy\<close>; \<open>'w\<close> is the world of the databases, in which \<open>dbQuery\<close> answers a statement.
\<close>

record ('h, 'w) pgsession =
  pgDbs :: "'h pgdb weighted list"
  pgTotal :: int
  pgInTrans :: bool
  pgClient :: client
  pgMain :: bytes
  pgMainErr :: "error option"
  pgWorld :: 'w

definition pg_delegateSelect :: "(pgmsg \<Rightarrow> bytes) \<Rightarrow> ('h pgdb \<Rightarrow> bytes \<Rightarrow> 'w \<Rightarrow> (error + pgrows) \<times> 'w) \<Rightarrow>
    (int \<Rightarrow> int) \<Rightarrow> bytes \<Rightarrow> ('h, 'w) pgsession \<Rightarrow> (bool \<times> ('h, 'w) pgsession) option" where
  "pg_delegateSelect encode dbQuery intn buffer p =
     (case pg_route (pgInTrans p) buffer of
        None \<Rightarrow> None
      | Some (ToMain, tx) \<Rightarrow> Some (False, p\<lparr>pgInTrans := tx\<rparr>)
      | Some (ToReplica sql, tx) \<Rightarrow>
          (case pg_chooseByWeight intn (pgTotal p) (pgDbs p) of
             None \<Rightarrow> None
           | Some db \<Rightarrow>
               (case dbQuery db sql (pgWorld p) of
                  (answer, w) \<Rightarrow>
                    map_option (\<lambda>(_, c). (True, p\<lparr>pgWorld := w, pgClient := c\<rparr>))
                      (pg_writeDataRow encode answer (pgClient p)))))"

fun pg_handleInbound :: "(pgmsg \<Rightarrow> bytes) \<Rightarrow> ('h pgdb \<Rightarrow> bytes \<Rightarrow> 'w \<Rightarrow> (error + pgrows) \<times> 'w) \<Rightarrow>
    (int \<Rightarrow> int) \<Rightarrow> bytes list \<Rightarrow> ('h, 'w) pgsession \<Rightarrow> ('h, 'w) pgsession option" where
  "pg_handleInbound encode dbQuery intn [] p = Some p"
| "pg_handleInbound encode dbQuery intn (buff # rest) p =
     (case pg_delegateSelect encode dbQuery intn buff p of
        None \<Rightarrow> None
      | Some (flag, p1) \<Rightarrow>
          if flag then pg_handleInbound encode dbQuery intn rest p1
          else case pgMainErr p1 of
            Some e \<Rightarrow> Some p1
          | None \<Rightarrow> pg_handleInbound encode dbQuery intn rest (p1\<lparr>pgMain := pgMain p1 @ buff\<rparr>))"

fun pg_handleOutbound :: "bytes list \<Rightarrow> ('h, 'w) pgsession \<Rightarrow> ('h, 'w) pgsession" where
  "pg_handleOutbound [] p = p"
| "pg_handleOutbound (buff # rest) p =
     (if length buff < 1 then pg_handleOutbound rest p
      else case client_write buff (pgClient p) of
        (Some e, c) \<Rightarrow> p\<lparr>pgClient := c\<rparr>
      | (None, c) \<Rightarrow> pg_handleOutbound rest (p\<lparr>pgClient := c\<rparr>))"

section \<open>Lemmas\<close>

text \<open>Of columns with the same name the last one's type is kept.\<close>

lemma typeNames_last:
  assumes "length cols = length ts"
  shows "\<exists>m'. typeNames cols ts m = Some m' \<and>
    (\<forall>c. c \<notin> set cols \<longrightarrow> m' c = m c) \<and>
    (\<forall>j < length cols. (\<forall>k < length cols. j < k \<longrightarrow> cols ! k \<noteq> cols ! j) \<longrightarrow> m' (cols ! j) = Some (ts ! j))"
  using assms
proof (induction cols arbitrary: ts m)
  case (Cons c cols)
  then obtain t us where ts: "ts = t # us" "length cols = length us" by (cases ts) auto
  obtain m' where m': "typeNames cols us (m(c \<mapsto> t)) = Some m'"
    "\<forall>x. x \<notin> set cols \<longrightarrow> m' x = (m(c \<mapsto> t)) x"
    "\<forall>j < length cols. (\<forall>k < length cols. j < k \<longrightarrow> cols ! k \<noteq> cols ! j) \<longrightarrow> m' (cols ! j) = Some (us ! j)"
    using Cons.IH [OF ts(2)] by blast
  have "m' ((c # cols) ! j) = Some (ts ! j)"
    if "j < length (c # cols)" "\<forall>k < length (c # cols). j < k \<longrightarrow> (c # cols) ! k \<noteq> (c # cols) ! j" for j
  proof (cases j)
    case 0
    then have "c \<notin> set cols" using that(2) by (auto simp: in_set_conv_nth)
    then show ?thesis using 0 ts m'(2) by simp
  next
    case (Suc i)
    then have "\<forall>k < length cols. i < k \<longrightarrow> cols ! k \<noteq> cols ! i" using that(2) by force
    then show ?thesis using Suc that(1) ts m'(3) by simp
  qed
  then show ?case using m'(1,2) ts by auto
qed simp

lemma client_write_ok: "outcomes c = [] \<Longrightarrow> client_write d c = (None, c\<lparr>written := written c @ d\<rparr>)"
  by (simp add: client_write_def)

definition rows_bytes :: "(pgmsg \<Rightarrow> bytes) \<Rightarrow> bytes option list list \<Rightarrow> bytes" where
  "rows_bytes encode vss = concat (map (\<lambda>vs. encode (DataRow vs)) vss)"

lemma write_rows_ok:
  assumes "outcomes c = []" and "list_all (\<lambda>vs. length vs = n) vss"
  shows "write_rows encode n cnt (map Inr vss) c =
    (Inr (cnt + length vss), c\<lparr>written := written c @ rows_bytes encode vss\<rparr>)"
  using assms
  by (induction vss arbitrary: c cnt) (auto simp: scan_def client_write_ok rows_bytes_def)

definition pg_reply :: "(pgmsg \<Rightarrow> bytes) \<Rightarrow> fieldDescription list \<Rightarrow> bytes option list list \<Rightarrow> bytes" where
  "pg_reply encode desc vss = encode (RowDescription desc) @ rows_bytes encode vss @
     encode (CommandComplete (complete_tag (length vss))) @ encode (ReadyForQuery (of_char CHR ''I''))"

lemma pg_delegate_main:
  "pg_route (pgInTrans p) m = Some (ToMain, tx) \<Longrightarrow>
     pg_delegateSelect encode dbQuery intn m p = Some (False, p\<lparr>pgInTrans := tx\<rparr>)"
  by (simp add: pg_delegateSelect_def)

lemma pg_delegate_select:
  assumes "pg_route (pgInTrans p) m = Some (ToReplica q, tx)"
    and "pg_delegateSelect encode dbQuery intn m p = Some (r, p')"
  shows "r \<and> pgMain p' = pgMain p \<and> pgMainErr p' = pgMainErr p \<and> pgInTrans p' = pgInTrans p"
  using assms by (auto simp: pg_delegateSelect_def case_prod_unfold split: option.splits)

lemma pg_replica_keeps_trans: "pg_route tx m = Some (ToReplica q, tx') \<Longrightarrow> tx' = tx"
  by (auto simp: pg_route_cases decide_def Let_def split: if_splits)

lemma pg_inbound_main:
  assumes "pg_handleInbound encode dbQuery intn ms p = Some p'" and "pgMainErr p = None"
  shows "\<exists>rs. run_routes pg_route (pgInTrans p) ms = Some (rs, pgInTrans p') \<and>
    pgMain p' = pgMain p @ main_traffic ms rs"
  using assms
proof (induction ms arbitrary: p)
  case (Cons m ms)
  then obtain r tx where route: "pg_route (pgInTrans p) m = Some (r, tx)"
    by (cases "pg_route (pgInTrans p) m") (auto simp: pg_delegateSelect_def)
  show ?case
  proof (cases r)
    case ToMain
    with Cons.prems have "pg_handleInbound encode dbQuery intn ms (p\<lparr>pgInTrans := tx, pgMain := pgMain p @ m\<rparr>) = Some p'"
      by (simp add: pg_delegate_main [OF route [unfolded ToMain]])
    from Cons.IH [OF this] Cons.prems(2) show ?thesis using route ToMain by fastforce
  next
    case (ToReplica q)
    note rt = route [unfolded ToReplica]
    obtain x p1 where d: "pg_delegateSelect encode dbQuery intn m p = Some (x, p1)"
      using Cons.prems(1) by (auto split: option.splits)
    note k = pg_delegate_select [OF rt d]
    have "pg_handleInbound encode dbQuery intn ms p1 = Some p'" using Cons.prems(1) d k by simp
    from Cons.IH [OF this] Cons.prems(2) k show ?thesis
      using rt pg_replica_keeps_trans [OF rt] by fastforce
  qed
qed simp

section \<open>Properties\<close>

text \<open>
  C25: The rows of a PostgreSQL replica reach the client complete and in order, between one
  description of the columns and one completion that counts them, followed by the message that
  lets the client go on; but whether the replica had failed after the last of these rows makes
  no difference to the client: a truncated result is reported as a complete one, and the error
  is only returned.
\<close>

theorem pg_result_written:
  assumes "prepareRowDescription rows = Some (Inr desc)" and "pgColumns2 rows = Inr cols"
    and "pgData rows = map Inr vss" and "list_all (\<lambda>vs. length vs = length cols) vss" and "outcomes c = []"
  shows "pg_writeDataRow encode (Inr rows) c =
    Some (pgErr rows, c\<lparr>written := written c @ pg_reply encode desc vss\<rparr>)"
  using assms
  by (simp add: pg_writeDataRow_def client_write_ok write_rows_ok finish_rows_def pg_reply_def Let_def)

definition demo_pgrows :: pgrows where
  "demo_pgrows = \<lparr>pgColumns = Inr [str ''id'', str ''x''], pgTypes = Inr [str ''INT4'', str ''UUID''],
     pgColumns2 = Inr [str ''id'', str ''x''],
     pgData = [Inr [Some [49], None]], pgErr = Some (OsError 104)\<rparr>"

text \<open>An encoder: the letter of the message, and what it carries without lengths.\<close>

fun demo_encode :: "pgmsg \<Rightarrow> bytes" where
  "demo_encode (RowDescription fs) = 84 # concat (map fdName fs)"
| "demo_encode (DataRow vs) = 68 # concat (map (\<lambda>v. case v of None \<Rightarrow> [255] | Some b \<Rightarrow> b) vs)"
| "demo_encode (CommandComplete tag) = 67 # tag"
| "demo_encode (ReadyForQuery st) = [90, st]"

theorem pg_result_written_witness:
  "\<exists>desc. pg_writeDataRow demo_encode (Inr demo_pgrows) \<lparr>written = [], outcomes = []\<rparr> =
     Some (Some (OsError 104), \<lparr>written = pg_reply demo_encode desc [[Some [49], None]], outcomes = []\<rparr>) \<and>
     map fdOID desc = [23, 17]"
proof -
  let ?desc = "[describe (str ''id'') (str ''INT4''), describe (str ''x'') (str ''UUID'')]"
  have "str ''id'' \<noteq> str ''x''" by (simp add: str_def)
  then have d: "prepareRowDescription demo_pgrows = Some (Inr ?desc)"
    by (simp add: prepareRowDescription_def demo_pgrows_def)
  have o: "map fdOID ?desc = [23, 17]" by code_simp
  show ?thesis
    using pg_result_written [OF d, of "[str ''id'', str ''x'']" "[[Some [49], None]]" "\<lparr>written = [], outcomes = []\<rparr>"] o
    by (intro exI [of _ ?desc]) (simp add: demo_pgrows_def)
qed

text \<open>
  The type of a column is looked up by the column's name, so when several columns of a result
  have the same name, all of them are described with the type of the last one; columns with a
  name of their own get their own type.
\<close>

theorem description_by_last_name:
  assumes "pgColumns rows = Inr cols" and "pgTypes rows = Inr types" and "length cols = length types"
    and "i < length cols" and "j < length cols" and "cols ! j = cols ! i"
    and "\<forall>k < length cols. j < k \<longrightarrow> cols ! k \<noteq> cols ! j"
  shows "\<exists>fd. prepareRowDescription rows = Some (Inr fd) \<and> length fd = length cols \<and>
    fd ! i = describe (cols ! i) (types ! j)"
proof -
  obtain m where m: "typeNames cols types Map.empty = Some m"
    "\<forall>j < length cols. (\<forall>k < length cols. j < k \<longrightarrow> cols ! k \<noteq> cols ! j) \<longrightarrow> m (cols ! j) = Some (types ! j)"
    using typeNames_last [OF assms(3), of Map.empty] by blast
  then have "m (cols ! i) = Some (types ! j)" using assms(5-7) by metis
  then show ?thesis using m(1) assms(1,2,4) by (simp add: prepareRowDescription_def)
qed

theorem description_by_last_name_witness:
  "\<exists>fd. prepareRowDescription (demo_pgrows\<lparr>pgColumns := Inr [str ''id'', str ''id'']\<rparr>) = Some (Inr fd) \<and>
     length fd = 2 \<and> fd ! 0 = describe (str ''id'') (str ''UUID'')"
proof -
  let ?r = "demo_pgrows\<lparr>pgColumns := Inr [str ''id'', str ''id'']\<rparr>"
  have "pgColumns ?r = Inr [str ''id'', str ''id'']" "pgTypes ?r = Inr [str ''INT4'', str ''UUID'']"
    by (simp_all add: demo_pgrows_def)
  from description_by_last_name [OF this, of 0 1] show ?thesis
    by (simp add: numeral_2_eq_2)
qed

text \<open>
  A PostgreSQL session too sends the main database exactly the messages the router assigns
  to it, unchanged and in order, as long as the process does not panic.
\<close>

theorem pg_inbound_refines_router:
  assumes "pg_handleInbound encode dbQuery intn ms p = Some p'" and "pgMainErr p = None"
  shows "\<exists>rs. run_routes pg_route (pgInTrans p) ms = Some (rs, pgInTrans p') \<and>
    pgMain p' = pgMain p @ main_traffic ms rs"
  using assms by (rule pg_inbound_main)

definition demo_pgsession :: "(nat, unit) pgsession" where
  "demo_pgsession =
     \<lparr>pgDbs = [\<lparr>wName = [], wDb = \<lparr>handle = 0, maxIdleConns = 1, maxOpenConns = 10, connMaxLifetime = 60000000000\<rparr>,
        wWeight = 1\<rparr>], pgTotal = 1, pgInTrans = False, pgClient = \<lparr>written = [], outcomes = []\<rparr>,
      pgMain = [], pgMainErr = None, pgWorld = ()\<rparr>"

definition pg_query :: "string \<Rightarrow> bytes" where
  "pg_query sql = of_char CHR ''Q'' # [0, 0, 0, 0] @ str sql @ [0]"

theorem pg_inbound_refines_router_witness:
  "\<exists>p'. pg_handleInbound (\<lambda>_. []) (\<lambda>_ _ w. (Inl IoEOF, w)) (\<lambda>_. 0)
       [pg_query ''begin'', pg_query ''select 1''] demo_pgsession = Some p' \<and>
     pgMain p' = pg_query ''begin'' @ pg_query ''select 1''"
proof -
  have r: "pg_route False (pg_query ''begin'') = Some (ToMain, True)"
    "pg_route True (pg_query ''select 1'') = Some (ToMain, True)" by code_simp+
  have p: "pgInTrans demo_pgsession = False" "pgMainErr demo_pgsession = None" "pgMain demo_pgsession = []"
    by (simp_all add: demo_pgsession_def)
  obtain p' where h: "pg_handleInbound (\<lambda>_. []) (\<lambda>_ _ w. (Inl IoEOF, w)) (\<lambda>_. 0)
      [pg_query ''begin'', pg_query ''select 1''] demo_pgsession = Some p'"
    using r p by (simp add: pg_delegate_main)
  from pg_inbound_refines_router [OF h p(2)] h r p show ?thesis by auto
qed

text \<open>
  A statement the replica refuses is not answered: neither the error nor the message that
  ends a query cycle is sent, so the client waits; the session goes on with the next message.
\<close>

theorem pg_error_unanswered:
  assumes "pg_route (pgInTrans p) m = Some (ToReplica q, tx)"
    and "pg_chooseByWeight intn (pgTotal p) (pgDbs p) = Some db"
    and "dbQuery db q (pgWorld p) = (Inl e, w)"
  shows "pg_handleInbound encode dbQuery intn (m # ms) p =
    pg_handleInbound encode dbQuery intn ms (p\<lparr>pgWorld := w\<rparr>)"
  using assms by (simp add: pg_delegateSelect_def pg_writeDataRow_def)

theorem pg_error_unanswered_witness:
  "pg_handleInbound demo_encode (\<lambda>_ _ w. (Inl (OsError 1), w)) (\<lambda>_. 0) [pg_query ''select x''] demo_pgsession =
     Some demo_pgsession"
proof -
  have "pg_route (pgInTrans demo_pgsession) (pg_query ''select x'') = Some (ToReplica (str ''select x''), False)"
    by code_simp
  moreover obtain db where "pg_chooseByWeight (\<lambda>_. 0) (pgTotal demo_pgsession) (pgDbs demo_pgsession) = Some db"
    by (simp add: pg_chooseByWeight_def demo_pgsession_def Let_def)
  ultimately show ?thesis
    using pg_error_unanswered [where encode = demo_encode and w = "()" and ms = "[]" and dbQuery = "\<lambda>_ _ w. (Inl (OsError 1), w)"] by force
qed

end
