(* ===== verification/Escape.thy ===== *)
theory Escape
  imports Wire
begin

text \<open>
  Escaping of values written into a statement (\<open>mysql/utils.go\<close>): the four escape functions with
  the buffer they reserve, against the string literals they are meant for.
\<close>

section \<open>The functions\<close>

text \<open>\<open>reserveBuffer\<close>: \<open>appendSize\<close> more bytes, in a new array when the capacity is too small.\<close>

definition reserveBuffer :: "gslice \<Rightarrow> nat \<Rightarrow> gslice" where
  "reserveBuffer buf appendSize =
     (let newSize = length (fst buf) + appendSize;
          full = (if length (fst buf @ snd buf) < newSize
                  then fst buf @ replicate (length (fst buf) * 2 + appendSize - length (fst buf)) 0
                  else fst buf @ snd buf)
      in (take newSize full, drop newSize full))"

text \<open>What \<open>escapeBytesBackslash\<close> writes after a backslash for a special byte.\<close>

definition backslash_code :: "byte \<Rightarrow> byte option" where
  "backslash_code c =
     (if c = 0 then Some 0x30
      else if c = 0x0a then Some 0x6e
      else if c = 0x0d then Some 0x72
      else if c = 0x1a then Some 0x5a
      else if c = 0x27 \<or> c = 0x22 \<or> c = 0x5c then Some c
      else None)"

definition quote_code :: "byte \<Rightarrow> byte option" where
  "quote_code c = (if c = 0x27 then Some 0x27 else None)"

text \<open>
  The loop of each function: \<open>lead\<close> is the byte put before a special one.  An index outside the
  reserved buffer would panic.
\<close>

fun escape_loop :: "byte \<Rightarrow> (byte \<Rightarrow> byte option) \<Rightarrow> bytes \<Rightarrow> nat \<Rightarrow> bytes \<Rightarrow> (bytes \<times> nat) option" where
  "escape_loop lead code buf pos [] = Some (buf, pos)"
| "escape_loop lead code buf pos (c # v) =
     (case code c of
        Some x \<Rightarrow> do {
          b1 \<leftarrow> array_set buf (int pos + 1) x;
          b2 \<leftarrow> array_set b1 (int pos) lead;
          escape_loop lead code b2 (pos + 2) v }
      | None \<Rightarrow> do {
          b1 \<leftarrow> array_set buf (int pos) c;
          escape_loop lead code b1 (pos + 1) v })"

definition escape_with :: "byte \<Rightarrow> (byte \<Rightarrow> byte option) \<Rightarrow> gslice \<Rightarrow> bytes \<Rightarrow> gslice option" where
  "escape_with lead code buf v = do {
     let r = reserveBuffer buf (length v * 2);
     (b, pos) \<leftarrow> escape_loop lead code (fst r) (length (fst buf)) v;
     slice (b, snd r) 0 (int pos) }"

definition escapeBytesBackslash :: "gslice \<Rightarrow> bytes \<Rightarrow> gslice option" where
  "escapeBytesBackslash buf v = escape_with 0x5c backslash_code buf v"

definition escapeStringBackslash :: "gslice \<Rightarrow> bytes \<Rightarrow> gslice option" where
  "escapeStringBackslash buf v = escape_with 0x5c backslash_code buf v"

definition escapeBytesQuotes :: "gslice \<Rightarrow> bytes \<Rightarrow> gslice option" where
  "escapeBytesQuotes buf v = escape_with 0x27 quote_code buf v"

definition escapeStringQuotes :: "gslice \<Rightarrow> bytes \<Rightarrow> gslice option" where
  "escapeStringQuotes buf v = escape_with 0x27 quote_code buf v"

section \<open>What they append\<close>

definition esc :: "byte \<Rightarrow> (byte \<Rightarrow> byte option) \<Rightarrow> bytes \<Rightarrow> bytes" where
  "esc lead code v = concat (map (\<lambda>c. case code c of Some x \<Rightarrow> [lead, x] | None \<Rightarrow> [c]) v)"

lemma esc_simps [simp]:
  "esc lead code [] = []"
  "esc lead code (c # v) = (case code c of Some x \<Rightarrow> [lead, x] | None \<Rightarrow> [c]) @ esc lead code v"
  by (simp_all add: esc_def)

lemma array_set_at: "length pre = n \<Longrightarrow> array_set (pre @ x # post) (int n) y = Some (pre @ y # post)"
  by (auto simp: array_set_def)

lemma escape_loop_esc:
  assumes "2 * length v \<le> length post"
  shows "\<exists>post'. escape_loop lead code (pre @ post) (length pre) v =
      Some (pre @ esc lead code v @ post', length pre + length (esc lead code v)) \<and>
    length (pre @ esc lead code v @ post') = length (pre @ post)"
  using assms
proof (induction v arbitrary: pre post)
  case (Cons c v)
  then obtain p0 p1 ps where post: "post = p0 # p1 # ps"
    by (cases post; cases "tl post") auto
  show ?case
  proof (cases "code c")
    case None
    from Cons.IH [of "p1 # ps" "pre @ [c]"] Cons.prems post None show ?thesis
      by (auto simp: array_set_at)
  next
    case (Some x)
    have "array_set (pre @ p0 # p1 # ps) (int (length pre) + 1) x = Some (pre @ p0 # x # ps)"
      using array_set_at [of "pre @ [p0]" "length pre + 1" p1 ps x] by (simp add: algebra_simps)
    moreover from Cons.IH [of ps "pre @ [lead, x]"] Cons.prems post obtain post' where
      "escape_loop lead code (pre @ lead # x # ps) (length pre + 2) v =
         Some (pre @ lead # x # esc lead code v @ post', length pre + 2 + length (esc lead code v))"
      "length (esc lead code v @ post') = length ps" by auto
    ultimately show ?thesis using Some post by (auto simp: array_set_at)
  qed
qed simp

lemma length_esc: "length v \<le> length (esc lead code v)" "length (esc lead code v) \<le> 2 * length v"
  by (induction v) (auto split: option.split)

lemma reserveBuffer_room:
  "\<exists>post sp. reserveBuffer buf n = (fst buf @ post, sp) \<and> length post = n"
  by (cases buf) (auto simp: reserveBuffer_def Let_def)

lemma escape_with_esc:
  "\<exists>sp. escape_with lead code buf v = Some (fst buf @ esc lead code v, sp)"
proof -
  obtain post sp where r: "reserveBuffer buf (length v * 2) = (fst buf @ post, sp)" "length post = length v * 2"
    using reserveBuffer_room by blast
  obtain post' where "escape_loop lead code (fst buf @ post) (length (fst buf)) v =
      Some (fst buf @ esc lead code v @ post', length (fst buf) + length (esc lead code v))"
    using escape_loop_esc [of v post lead code "fst buf"] r(2) by auto
  with r show ?thesis by (auto simp: escape_with_def slice_def Let_def)
qed

section \<open>String literals\<close>

text \<open>
  The documented reading of a string literal by the server, from behind its opening quote: two
  quotes stand for one, a single one ends the literal, and a backslash starts an escape sequence
  unless the mode \<open>NO_BACKSLASH_ESCAPES\<close> is on.
\<close>

definition unescape :: "byte \<Rightarrow> byte" where
  "unescape d =
     (if d = 0x30 then 0 else if d = 0x6e then 0x0a else if d = 0x72 then 0x0d else if d = 0x5a then 0x1a
      else if d = 0x62 then 0x08 else if d = 0x74 then 0x09 else d)"

definition push :: "byte \<Rightarrow> (bytes \<times> bytes) option \<Rightarrow> (bytes \<times> bytes) option" where
  "push c r = map_option (map_prod (Cons c) id) r"

fun read_literal :: "bool \<Rightarrow> bytes \<Rightarrow> (bytes \<times> bytes) option" where
  "read_literal noBackslash [] = None"
| "read_literal noBackslash [c] = (if c = 0x27 then Some ([], []) else None)"
| "read_literal noBackslash (c # d # xs) =
     (if c = 0x27 then if d = 0x27 then push 0x27 (read_literal noBackslash xs) else Some ([], d # xs)
      else if c = 0x5c \<and> \<not> noBackslash then push (unescape d) (read_literal noBackslash xs)
      else push c (read_literal noBackslash (d # xs)))"

lemma backslash_unescape: "backslash_code c = Some x \<Longrightarrow> unescape x = c"
  by (auto simp: backslash_code_def unescape_def split: if_splits)

lemma backslash_plain: "backslash_code c = None \<Longrightarrow> c \<noteq> 0x27 \<and> c \<noteq> 0x5c"
  by (auto simp: backslash_code_def split: if_splits)

lemma read_literal_end: "rest = [] \<or> hd rest \<noteq> 0x27 \<Longrightarrow> read_literal nb (0x27 # rest) = Some ([], rest)"
  by (cases rest) auto

lemma read_literal_plain:
  "c \<noteq> 0x27 \<Longrightarrow> c \<noteq> 0x5c \<or> nb \<Longrightarrow> xs \<noteq> [] \<Longrightarrow> read_literal nb (c # xs) = push c (read_literal nb xs)"
  by (cases xs) auto

lemma read_backslash:
  assumes "rest = [] \<or> hd rest \<noteq> 0x27"
  shows "read_literal False (esc 0x5c backslash_code v @ 0x27 # rest) = Some (v, rest)"
  by (induction v)
    (auto simp: read_literal_end [OF assms] read_literal_plain backslash_unescape push_def
      dest: backslash_plain split: option.split)

lemma read_quotes:
  assumes "rest = [] \<or> hd rest \<noteq> 0x27"
  shows "read_literal True (esc 0x27 quote_code v @ 0x27 # rest) = Some (v, rest)"
  by (induction v)
    (auto simp: read_literal_end [OF assms] read_literal_plain quote_code_def push_def)

section \<open>Properties\<close>

text \<open>
  C31: No value can break out of its quotes: in both modes the escape functions append, without
  ever writing outside the buffer they reserve and whatever its capacity, a text that the server
  reads back as exactly the value, ending at the closing quote the driver appends.
\<close>

theorem escaped_literal_roundtrip:
  assumes "rest = [] \<or> hd rest \<noteq> 0x27"
  shows "(\<exists>e s1 s2. escapeBytesBackslash buf v = Some (fst buf @ e, s1) \<and>
      escapeStringBackslash buf v = Some (fst buf @ e, s2) \<and>
      read_literal False (e @ 0x27 # rest) = Some (v, rest)) \<and>
    (\<exists>e s1 s2. escapeBytesQuotes buf v = Some (fst buf @ e, s1) \<and>
      escapeStringQuotes buf v = Some (fst buf @ e, s2) \<and>
      read_literal True (e @ 0x27 # rest) = Some (v, rest))"
  using read_backslash [OF assms, of v] read_quotes [OF assms, of v]
    escape_with_esc [of "0x5c" backslash_code buf v] escape_with_esc [of "0x27" quote_code buf v]
  by (auto simp: escapeBytesBackslash_def escapeStringBackslash_def escapeBytesQuotes_def
      escapeStringQuotes_def)

theorem escaped_literal_roundtrip_witness:
  "\<exists>e s1. escapeBytesBackslash ([0x27], [0, 0, 0]) (str ''a'' @ [0x27, 0x5c, 0x0a]) = Some (0x27 # e, s1) \<and>
     read_literal False (e @ 0x27 # str '' or 1'') = Some (str ''a'' @ [0x27, 0x5c, 0x0a], str '' or 1'')"
  using escaped_literal_roundtrip [of "str '' or 1''" "([0x27], [0, 0, 0])" "str ''a'' @ [0x27, 0x5c, 0x0a]"]
  by (auto simp: str_def)

end
