(* ===== verification/Params.thy ===== *)
theory Params
  imports Query Escape
begin

text \<open>
  Statements with bound arguments sent as text, and the other operations of \<open>mysql/connection.go\<close>
  that are built from queries: \<open>interpolateParams\<close>, the query functions with arguments,
  \<open>handleParams\<close>, \<open>getSystemVar\<close>, \<open>Ping\<close>, \<open>BeginTx\<close>, and the transactions of
  \<open>mysql/transaction.go\<close>.  The contexts given to them are never cancelled, as in the proxy.
\<close>

section \<open>Arguments\<close>

text \<open>
  A \<open>driver.Value\<close>: a float stands for the text \<open>strconv.AppendFloat\<close> gives and its bits; \<open>AOther\<close>
  is a value of any other type.
\<close>

datatype arg =
    ANil | AInt "64 word" | AUint u64 | AFloat bytes u64 | ABool bool | ATime gotime
  | AJson bytes | ABytes "bytes option" | AString bytes | AOther

definition statusNoBackslashEscapes :: u16 where "statusNoBackslashEscapes = 512"

text \<open>A value in quotes, escaped for the mode of the server.\<close>

definition quoted :: "conn \<Rightarrow> (gslice \<Rightarrow> bytes \<Rightarrow> gslice option) \<Rightarrow> (gslice \<Rightarrow> bytes \<Rightarrow> gslice option) \<Rightarrow>
    bytes \<Rightarrow> bytes \<Rightarrow> (error + bytes) option" where
  "quoted mc backslash quotes buf v = do {
     b \<leftarrow> (if cstatus mc AND statusNoBackslashEscapes = 0 then backslash (buf @ [0x27], []) v
           else quotes (buf @ [0x27], []) v);
     Some (Inr (fst b @ [0x27])) }"

fun interp_arg :: "conn \<Rightarrow> arg \<Rightarrow> bytes \<Rightarrow> (error + bytes) option" where
  "interp_arg mc ANil buf = Some (Inr (buf @ str ''NULL''))"
| "interp_arg mc (AInt v) buf = Some (Inr (buf @ itoa (sint v)))"
| "interp_arg mc (AUint v) buf = Some (Inr (buf @ digits_of (unat v)))"
| "interp_arg mc (AFloat s bits) buf = Some (Inr (buf @ s))"
| "interp_arg mc (ABool b) buf = Some (Inr (buf @ (if b then [0x31] else [0x30])))"
| "interp_arg mc (ATime t) buf =
     (if t = zeroTime then Some (Inr (buf @ [0x27] @ str ''0000-00-00'' @ [0x27]))
      else andThen (appendDateTime (buf @ [0x27]) t) (\<lambda>b. Some (Inr (b @ [0x27]))))"
| "interp_arg mc (AJson v) buf = quoted mc escapeBytesBackslash escapeBytesQuotes buf v"
| "interp_arg mc (ABytes None) buf = Some (Inr (buf @ str ''NULL''))"
| "interp_arg mc (ABytes (Some v)) buf = quoted mc escapeBytesBackslash escapeBytesQuotes (buf @ str ''_binary'') v"
| "interp_arg mc (AString v) buf = quoted mc escapeStringBackslash escapeStringQuotes buf v"
| "interp_arg mc AOther buf = Some (Inl DriverErrSkip)"

section \<open>\<open>interpolateParams\<close>\<close>

text \<open>The text of the statement still to copy, the arguments still to use, what has been written.\<close>

function interp_loop :: "conn \<Rightarrow> bytes \<Rightarrow> arg list \<Rightarrow> bytes \<Rightarrow> (error + bytes \<times> arg list) option" where
  "interp_loop mc q args buf =
     (if q = [] then Some (Inr (buf, args))
      else case find_sub [0x3f] q of
        None \<Rightarrow> Some (Inr (buf @ q, args))
      | Some k \<Rightarrow>
          (case args of
             [] \<Rightarrow> None
           | a # as \<Rightarrow>
               if a = ANil then interp_loop mc (drop (k + 1) q) as (buf @ take k q @ str ''NULL'')
               else andThen (interp_arg mc a (buf @ take k q)) (\<lambda>b.
                 if maxAllowedPacket mc < int (length b + 4) then Some (Inl DriverErrSkip)
                 else interp_loop mc (drop (k + 1) q) as b)))"
  by pat_completeness auto
termination
  by (relation "measure (\<lambda>(mc, q, args, buf). length q)") auto

declare interp_loop.simps [simp del]

definition interpolateParams :: "conn \<Rightarrow> bytes \<Rightarrow> arg list \<Rightarrow> (error + bytes) option" where
  "interpolateParams mc q args =
     (if count_list q 0x3f \<noteq> length args then Some (Inl DriverErrSkip)
      else case takeCompleteBuffer (cbuf mc) of
        Inl e \<Rightarrow> Some (Inl ErrInvalidConn)
      | Inr _ \<Rightarrow> andThen (interp_loop mc q args []) (\<lambda>(buf, left).
          Some (if left \<noteq> [] then Inl DriverErrSkip else Inr buf)))"

section \<open>Queries with arguments\<close>

definition with_args :: "conn \<Rightarrow> bytes \<Rightarrow> arg list \<Rightarrow> (error + bytes) option" where
  "with_args mc q args =
     (if args = [] then Some (Inr q)
      else if \<not> interpolates (cfg mc) then Some (Inl DriverErrSkip)
      else interpolateParams mc q args)"

definition query_args :: "bytes \<Rightarrow> arg list \<Rightarrow> conn \<Rightarrow> ((error + rows) \<times> conn) option" where
  "query_args q args mc =
     (let mc1 = clearResult mc
      in if closed mc1 then Some (Inl DriverErrBadConn, mc1)
         else do {
           p \<leftarrow> with_args mc1 q args;
           case p of Inl e \<Rightarrow> Some (Inl e, mc1) | Inr q' \<Rightarrow> query q' mc1 })"

definition query1_args :: "bytes \<Rightarrow> arg list \<Rightarrow> conn \<times> bytes \<Rightarrow> ((error + rows) \<times> conn \<times> bytes) option" where
  "query1_args q args s = (case s of (mc, dst) \<Rightarrow>
     let mc1 = clearResult mc
     in if closed mc1 then Some (Inl DriverErrBadConn, mc1, dst)
        else do {
          p \<leftarrow> with_args mc1 q args;
          case p of Inl e \<Rightarrow> Some (Inl e, mc1, dst) | Inr q' \<Rightarrow> query1 q' (mc1, dst) })"

definition Exec_args :: "bytes \<Rightarrow> arg list \<Rightarrow> conn \<Rightarrow> ((error + int list \<times> int list) \<times> conn) option" where
  "Exec_args q args mc =
     (if closed mc then Some (Inl DriverErrBadConn, mc)
      else do {
        p \<leftarrow> with_args mc q args;
        case p of Inl e \<Rightarrow> Some (Inl e, mc) | Inr q' \<Rightarrow> Exec q' mc })"

text \<open>Named arguments are refused.\<close>

definition namedValueToValue :: "(bytes \<times> arg) list \<Rightarrow> error + arg list" where
  "namedValueToValue named =
     (if list_ex (\<lambda>(n, v). n \<noteq> []) named
      then Inl (FmtError ''mysql: driver does not support the use of Named Parameters'')
      else Inr (map snd named))"

definition QueryContext :: "bytes \<Rightarrow> (bytes \<times> arg) list \<Rightarrow> conn \<Rightarrow> ((error + rows) \<times> conn) option" where
  "QueryContext q args mc = (case namedValueToValue args of
     Inl e \<Rightarrow> Some (Inl e, mc) | Inr dargs \<Rightarrow> query_args q dargs mc)"

definition ExecContext :: "bytes \<Rightarrow> (bytes \<times> arg) list \<Rightarrow> conn \<Rightarrow> ((error + int list \<times> int list) \<times> conn) option" where
  "ExecContext q args mc = (case namedValueToValue args of
     Inl e \<Rightarrow> Some (Inl e, mc) | Inr dargs \<Rightarrow> Exec_args q dargs mc)"

section \<open>Set-up of a session\<close>

text \<open>\<open>strings.Split(s, ",")\<close>.\<close>

fun split_byte :: "byte \<Rightarrow> bytes \<Rightarrow> bytes list" where
  "split_byte d [] = [[]]"
| "split_byte d (c # cs) =
     (if c = d then [] # split_byte d cs
      else case split_byte d cs of [] \<Rightarrow> [[c]] | w # ws \<Rightarrow> (c # w) # ws)"

text \<open>The character sets are tried in order until the server accepts one.\<close>

fun set_names :: "bytes \<Rightarrow> bytes list \<Rightarrow> error option \<Rightarrow> conn \<Rightarrow> (error option \<times> conn) option" where
  "set_names collation [] err mc = Some (err, mc)"
| "set_names collation (cs # rest) err mc = do {
     (e, mc1) \<leftarrow> exec (str ''SET NAMES '' @ cs @ (if collation \<noteq> [] then str '' COLLATE '' @ collation else [])) mc;
     if e = None then Some (None, mc1) else set_names collation rest e mc1 }"

text \<open>The parameters in the order in which the map is traversed; \<open>cmd\<close> is the \<open>SET\<close> command so far.\<close>

fun params_loop :: "bytes \<Rightarrow> (bytes \<times> bytes) list \<Rightarrow> bytes \<Rightarrow> conn \<Rightarrow> ((error + bytes) \<times> conn) option" where
  "params_loop collation [] cmd mc = Some (Inr cmd, mc)"
| "params_loop collation ((p, v) # ps) cmd mc =
     (if p = str ''charset'' then do {
        (e, mc1) \<leftarrow> set_names collation (split_byte 0x2c v) None mc;
        case e of Some err \<Rightarrow> Some (Inl err, mc1) | None \<Rightarrow> params_loop collation ps cmd mc1 }
      else params_loop collation ps
        ((if cmd = [] then str ''SET '' else cmd @ str '', '') @ p @ str '' = '' @ v) mc)"

definition handleParams :: "bytes \<Rightarrow> (bytes \<times> bytes) list \<Rightarrow> conn \<Rightarrow> (error option \<times> conn) option" where
  "handleParams collation params mc = do {
     (r, mc1) \<leftarrow> params_loop collation params [] mc;
     case r of
       Inl e \<Rightarrow> Some (Some e, mc1)
     | Inr cmd \<Rightarrow> if cmd \<noteq> [] then exec cmd mc1 else Some (None, mc1) }"

text \<open>
  \<open>getSystemVar\<close>: the single column is taken to be text.  A reply without columns, or with a NULL,
  panics at \<open>dest[0].([]byte)\<close>.
\<close>

definition fieldTypeVarChar :: byte where "fieldTypeVarChar = 15"

definition sysvar_rows :: rows where
  "sysvar_rows = newRows\<lparr>columns := [noField\<lparr>fieldType := fieldTypeVarChar\<rparr>]\<rparr>"

definition getSystemVar :: "bytes \<Rightarrow> conn \<Rightarrow> ((error + bytes) \<times> conn) option" where
  "getSystemVar name mc = do {
     (e, mc1) \<leftarrow> writeCommandPacketStr comQuery (str ''SELECT @@'' @ name) (clearResult mc);
     case e of
       Some err \<Rightarrow> Some (Inl err, mc1)
     | None \<Rightarrow> do {
         (r, mc2) \<leftarrow> readResultSetHeaderPacket mc1;
         case r of
           Inl err \<Rightarrow> Some (Inl err, mc2)
         | Inr resLen \<Rightarrow> do {
             (e2, mc3) \<leftarrow> (if 0 < resLen then readUntilEOF mc2 else Some (None, mc2));
             case e2 of
               Some err \<Rightarrow> Some (Inl err, mc3)
             | None \<Rightarrow>
                 if resLen < 0 then None
                 else do {
                   (cells, _, mc4) \<leftarrow> readRow (nat resLen) sysvar_rows mc3;
                   case cells of
                     Inl err \<Rightarrow> Some (Inl err, mc4)
                   | Inr vs \<Rightarrow> (case vs of
                       VBytes b # _ \<Rightarrow> do {
                         (e3, mc5) \<leftarrow> readUntilEOF mc4;
                         Some (case e3 of None \<Rightarrow> Inr b | Some err \<Rightarrow> Inl err, mc5) }
                     | _ \<Rightarrow> None) } } } }"

definition Ping :: "conn \<Rightarrow> (error option \<times> conn) option" where
  "Ping mc =
     (if closed mc then Some (Some DriverErrBadConn, mc)
      else do {
        (e, mc1) \<leftarrow> writeCommandPacket comPing (clearResult mc);
        case e of Some err \<Rightarrow> Some (markBadConn (Some err), mc1) | None \<Rightarrow> readResultOK mc1 })"

section \<open>Transactions\<close>

text \<open>The levels of \<open>database/sql\<close> by their numbers.\<close>

definition mapIsolationLevel :: "int \<Rightarrow> error + bytes" where
  "mapIsolationLevel level =
     (if level = 4 then Inr (str ''REPEATABLE READ'')
      else if level = 2 then Inr (str ''READ COMMITTED'')
      else if level = 1 then Inr (str ''READ UNCOMMITTED'')
      else if level = 6 then Inr (str ''SERIALIZABLE'')
      else Inl (FmtError ''mysql: unsupported isolation level''))"

definition BeginTx :: "int \<Rightarrow> bool \<Rightarrow> conn \<Rightarrow> (error option \<times> conn) option" where
  "BeginTx isolation readOnly mc =
     (if closed mc then Some (Some DriverErrBadConn, mc)
      else if isolation \<noteq> 0
      then case mapIsolationLevel isolation of
          Inl e \<Rightarrow> Some (Some e, mc)
        | Inr level \<Rightarrow> do {
            (e, mc1) \<leftarrow> exec (str ''SET TRANSACTION ISOLATION LEVEL '' @ level) mc;
            case e of Some err \<Rightarrow> Some (Some err, mc1) | None \<Rightarrow> begin_tx readOnly mc1 }
      else begin_tx readOnly mc)"

text \<open>A \<open>mysqlTx\<close>: whether it still has its connection.\<close>

definition end_tx :: "string \<Rightarrow> bool \<Rightarrow> conn \<Rightarrow> (error option \<times> bool \<times> conn) option" where
  "end_tx cmd hasConn mc =
     (if \<not> hasConn \<or> closed mc then Some (Some ErrInvalidConn, hasConn, mc)
      else do { (e, mc1) \<leftarrow> exec (str cmd) mc; Some (e, False, mc1) })"

definition Commit :: "bool \<Rightarrow> conn \<Rightarrow> (error option \<times> bool \<times> conn) option" where
  "Commit hasConn mc = end_tx ''COMMIT'' hasConn mc"

definition Rollback :: "bool \<Rightarrow> conn \<Rightarrow> (error option \<times> bool \<times> conn) option" where
  "Rollback hasConn mc = end_tx ''ROLLBACK'' hasConn mc"

text \<open>\<open>mysqlResult\<close>: the last of the results of a statement; an empty list would panic.\<close>

definition LastInsertId :: "int list \<times> int list \<Rightarrow> int option" where
  "LastInsertId res = idx (snd res) (int (length (snd res)) - 1)"

definition RowsAffected :: "int list \<times> int list \<Rightarrow> int option" where
  "RowsAffected res = idx (fst res) (int (length (fst res)) - 1)"

section \<open>The statement with its literals\<close>

text \<open>The parts of a statement between its question marks, and the parts with literals in between.\<close>

fun weave :: "bytes list \<Rightarrow> bytes list \<Rightarrow> bytes" where
  "weave [] ls = []"
| "weave (p # ps) [] = p @ weave ps []"
| "weave (p # ps) (l # ls) = p @ l @ weave ps ls"

definition literal_of :: "conn \<Rightarrow> arg \<Rightarrow> bytes \<Rightarrow> bool" where
  "literal_of mc a l \<longleftrightarrow> interp_arg mc a [] = Some (Inr l)"

lemma find_sub_byte:
  "find_sub [d] q = None \<Longrightarrow> split_byte d q = [q] \<and> count_list q d = 0"
  "find_sub [d] q = Some k \<Longrightarrow>
     split_byte d q = take k q # split_byte d (drop (k + 1) q) \<and> count_list q d = Suc (count_list (drop (k + 1) q) d)"
proof (induction q arbitrary: k)
  case (Cons c q)
  { case 1 then show ?case using Cons.IH(1) by (auto split: if_splits) }
  { case 2 then show ?case using Cons.IH(2) by (auto split: if_splits) }
qed auto

lemma andThen_bind: "andThen (Option.bind m f) g = Option.bind m (\<lambda>x. andThen (f x) g)"
  by (cases m) auto

lemma appendDateTime_app:
  "appendDateTime buf t = andThen (appendDateTime [] t) (\<lambda>b. Some (Inr (buf @ b)))"
  by (simp add: appendDateTime_def Let_def andThen_bind if_distrib [of "\<lambda>m. andThen m f" for f] cong: if_cong)

lemma quoted_app:
  assumes "\<And>buf v. \<exists>sp. backslash buf v = Some (fst buf @ esc l1 c1 v, sp)"
    and "\<And>buf v. \<exists>sp. quotes buf v = Some (fst buf @ esc l2 c2 v, sp)"
  shows "quoted mc backslash quotes buf v =
    Some (Inr (buf @ [0x27] @
      (if cstatus mc AND statusNoBackslashEscapes = 0 then esc l1 c1 v else esc l2 c2 v) @ [0x27]))"
proof -
  obtain s1 s2 where "backslash (buf @ [0x27], []) v = Some (buf @ [0x27] @ esc l1 c1 v, s1)"
    "quotes (buf @ [0x27], []) v = Some (buf @ [0x27] @ esc l2 c2 v, s2)"
    using assms [of "(buf @ [0x27], [])" v] by auto
  then show ?thesis by (simp add: quoted_def)
qed

lemma quoted_bytes:
  "quoted mc escapeBytesBackslash escapeBytesQuotes buf v =
    Some (Inr (buf @ [0x27] @ (if cstatus mc AND statusNoBackslashEscapes = 0
      then esc 0x5c backslash_code v else esc 0x27 quote_code v) @ [0x27]))"
  "quoted mc escapeStringBackslash escapeStringQuotes buf v =
    Some (Inr (buf @ [0x27] @ (if cstatus mc AND statusNoBackslashEscapes = 0
      then esc 0x5c backslash_code v else esc 0x27 quote_code v) @ [0x27]))"
  by (rule quoted_app; simp add: escapeBytesBackslash_def escapeBytesQuotes_def escapeStringBackslash_def
      escapeStringQuotes_def escape_with_esc)+

lemma interp_arg_app:
  "interp_arg mc a buf = andThen (interp_arg mc a []) (\<lambda>l. Some (Inr (buf @ l)))"
proof (cases a)
  case (ATime t)
  show ?thesis
  proof (cases "appendDateTime [] t")
    case None
    then show ?thesis unfolding ATime interp_arg.simps
      by (subst (1 2) appendDateTime_app) simp
  next
    case (Some r)
    then show ?thesis unfolding ATime interp_arg.simps
      by (subst (1 2) appendDateTime_app) (cases r; simp)
  qed
next
  case (ABytes v)
  then show ?thesis by (cases v) (simp_all add: quoted_bytes)
qed (simp_all add: quoted_bytes)

lemma interp_loop_weaves:
  assumes "interp_loop mc q args buf = Some (Inr (s, left))" and "count_list q 0x3f = length args"
  shows "\<exists>ls. list_all2 (literal_of mc) args ls \<and> s = buf @ weave (split_byte 0x3f q) ls \<and> left = []"
  using assms
proof (induction mc q args buf rule: interp_loop.induct)
  case (1 mc q args buf)
  show ?case
  proof (cases "q = []")
    case True
    with "1.prems" show ?thesis by (subst (asm) interp_loop.simps) simp
  next
    case q: False
    show ?thesis
    proof (cases "find_sub [0x3f] q")
      case None
      then show ?thesis using "1.prems" q find_sub_byte(1) [OF None]
        by (simp add: interp_loop.simps [of mc q])
    next
      case (Some k)
      note sp = find_sub_byte(2) [OF Some]
      obtain a as where args: "args = a # as" using "1.prems"(2) sp by (cases args) auto
      have cnt: "count_list (drop (k + 1) q) 0x3f = length as" using "1.prems"(2) sp args by simp
      obtain l where l: "literal_of mc a l"
        "interp_loop mc (drop (k + 1) q) as (buf @ take k q @ l) = Some (Inr (s, left))"
        "a \<noteq> ANil \<Longrightarrow> \<not> maxAllowedPacket mc < int (length (buf @ take k q @ l) + 4)"
      proof (cases "a = ANil")
        case True
        then show thesis using "1.prems"(1) q Some args
          by (intro that [of "str ''NULL''"]) (simp_all add: interp_loop.simps [of mc q] literal_of_def)
      next
        case False
        then obtain b where "interp_arg mc a (buf @ take k q) = Some (Inr b)"
            "interp_loop mc (drop (k + 1) q) as b = Some (Inr (s, left))"
            "\<not> maxAllowedPacket mc < int (length b + 4)"
          using "1.prems"(1) q Some args
          by (cases "interp_arg mc a (buf @ take k q)"; cases "the (interp_arg mc a (buf @ take k q))")
            (auto simp: interp_loop.simps [of mc q] split: if_splits)
        moreover from this(1) obtain l where "literal_of mc a l" "b = (buf @ take k q) @ l"
          by (subst (asm) interp_arg_app, cases "interp_arg mc a []"; cases "the (interp_arg mc a [])")
            (auto simp: literal_of_def)
        ultimately show thesis by (intro that [of l]) simp_all
      qed
      have "\<exists>ls. list_all2 (literal_of mc) as ls \<and>
          s = (buf @ take k q @ l) @ weave (split_byte 0x3f (drop (k + 1) q)) ls \<and> left = []"
      proof (cases "a = ANil")
        case True
        with l have "l = str ''NULL''" by (simp add: literal_of_def)
        with l(2) show ?thesis using "1.IH"(1) [OF q Some args True _ cnt] by simp
      next
        case False
        from "1.IH"(2) [OF q Some args False, of "buf @ take k q @ l"] l(2) l(3) [OF False] cnt show ?thesis by simp
      qed
      then obtain ls where "list_all2 (literal_of mc) as ls"
        "s = (buf @ take k q @ l) @ weave (split_byte 0x3f (drop (k + 1) q)) ls" "left = []" by blast
      then show ?thesis using l(1) args sp by (intro exI [of _ "l # ls"]) simp
    qed
  qed
qed

text \<open>The arguments that are text.\<close>

definition text_value :: "arg \<Rightarrow> bytes option" where
  "text_value a = (case a of AString v \<Rightarrow> Some v | AJson v \<Rightarrow> Some v | ABytes v \<Rightarrow> v | _ \<Rightarrow> None)"

text \<open>
  A quoted text, behind its opening quote, is read back by the server in its mode as the value, whatever
  follows that is not a quote.
\<close>

lemma quoted_reads_back:
  "rest = [] \<or> hd rest \<noteq> 0x27 \<Longrightarrow> read_literal (cstatus mc AND statusNoBackslashEscapes \<noteq> 0)
     ((if cstatus mc AND statusNoBackslashEscapes = 0 then esc 0x5c backslash_code v
       else esc 0x27 quote_code v) @ [0x27] @ rest) = Some (v, rest)"
  using read_backslash [of rest v] read_quotes [of rest v] by simp

section \<open>A connection to try things on\<close>

definition idle_conn :: conn where
  "idle_conn = \<lparr>cbuf = newBuffer, cnet = \<lparr>script = [], deadlineErr = None\<rparr>, sent = [], wresults = [],
      wdeadlineErr = None, checkErr = None, netConn = True, netClosed = False,
      cfg = \<lparr>checkConnLiveness = True, rejectReadOnly = False, columnsWithAlias = False,
        allowAllFiles = False, interpolates = True\<rparr>,
      affectedRows = [], insertIds = [], maxAllowedPacket = 67108864, maxWriteSize = 16777215,
      parseTime = False, floatErr = (\<lambda>_ _. None),
      locals = \<lparr>readerRegister = (\<lambda>_. None), fileRegister = (\<lambda>_. False), openFile = (\<lambda>_. Inl IoEOF)\<rparr>,
      writeTimeout = 0, cstatus = 2,
      sequence = 0, creset = False, canceled = None, closed = False\<rparr>"

end
