(* ===== verification/Stmt.thy ===== *)
theory Stmt
  imports Params
begin

text \<open>
  Prepared statements: preparing, executing and closing one (\<open>mysql/statement.go\<close>, \<open>Prepare\<close> of
  \<open>mysql/connection.go\<close>), the packets that carry the arguments, and the rows of the binary
  protocol (\<open>mysql/packets.go\<close>).
\<close>

section \<open>Statements\<close>

text \<open>A \<open>mysqlStmt\<close>: whether it still has its connection, its id and its number of parameters.\<close>

record stmt =
  hasConn :: bool
  stmtId :: u32
  paramCount :: nat

definition readPrepareResultPacket :: "stmt \<Rightarrow> conn \<Rightarrow> ((error + u16) \<times> stmt \<times> conn) option" where
  "readPrepareResultPacket st mc = do {
     (r, mc1) \<leftarrow> readPacket mc;
     case r of
       Inl e \<Rightarrow> Some (Inl e, st, mc1)
     | Inr data \<Rightarrow> do {
         d0 \<leftarrow> idx (fst data) 0;
         if d0 \<noteq> iOK then do { (e, mc2) \<leftarrow> handleErrorPacket data mc1; Some (Inl e, st, mc2) }
         else do {
           sid \<leftarrow> le32_at data 1;
           columnCount \<leftarrow> le16_at data 5;
           params \<leftarrow> le16_at data 7;
           Some (Inr columnCount, st\<lparr>stmtId := sid, paramCount := unat params\<rparr>, mc1) } } }"

definition Prepare :: "bytes \<Rightarrow> conn \<Rightarrow> ((error + stmt) \<times> conn) option" where
  "Prepare q mc =
     (if closed mc then Some (Inl DriverErrBadConn, mc)
      else do {
        (e, mc1) \<leftarrow> writeCommandPacketStr comStmtPrepare q mc;
        case e of
          Some _ \<Rightarrow> Some (Inl DriverErrBadConn, mc1)
        | None \<Rightarrow> do {
            (r, st, mc2) \<leftarrow> readPrepareResultPacket \<lparr>hasConn = True, stmtId = 0, paramCount = 0\<rparr> mc1;
            case r of
              Inl err \<Rightarrow> Some (Inl err, mc2)
            | Inr columnCount \<Rightarrow> do {
                (e2, mc3) \<leftarrow> (if 0 < paramCount st then readUntilEOF mc2 else Some (None, mc2));
                case e2 of
                  Some err \<Rightarrow> Some (Inl err, mc3)
                | None \<Rightarrow> do {
                    (e3, mc4) \<leftarrow> (if 0 < columnCount then readUntilEOF mc3 else Some (None, mc3));
                    Some (case e3 of Some err \<Rightarrow> Inl err | None \<Rightarrow> Inr st, mc4) } } } })"

definition stmt_close :: "stmt \<Rightarrow> conn \<Rightarrow> (error option \<times> stmt \<times> conn) option" where
  "stmt_close st mc =
     (if \<not> hasConn st \<or> closed mc then Some (Some DriverErrBadConn, st, mc)
      else do {
        (e, mc1) \<leftarrow> writeCommandPacketUint32 comStmtClose (stmtId st) mc;
        Some (e, st\<lparr>hasConn := False\<rparr>, mc1) })"

definition NumInput :: "stmt \<Rightarrow> int" where
  "NumInput st = int (paramCount st)"

section \<open>Arguments too long for the packet\<close>

definition comStmtExecute :: byte where "comStmtExecute = 23"
definition comStmtSendLongData :: byte where "comStmtSendLongData = 24"

definition u32_bytes :: "u32 \<Rightarrow> bytes" where
  "u32_bytes w = [ucast w, ucast (drop_bit 8 w), ucast (drop_bit 16 w), ucast (drop_bit 24 w)]"

definition dataOffset :: int where "dataOffset = 1 + 4 + 2"

text \<open>
  The loop of \<open>writeCommandLongData\<close> over the array at \<open>a\<close>: \<open>data\<close> begins at \<open>off\<close>, \<open>argLen\<close> bytes are
  still to be sent.  The outer \<open>None\<close> is a loop that does not end, which happens when a packet
  has no room for data; \<open>Some None\<close> is a slice expression out of bounds.
\<close>

partial_function (option) long_loop :: "u32 \<Rightarrow> nat \<Rightarrow> int \<Rightarrow> nat \<Rightarrow> nat \<Rightarrow> int \<Rightarrow> int \<Rightarrow> conn \<Rightarrow>
    (error option \<times> conn) option option" where
  [code]: "long_loop sid paramID maxLen a off argLen pktLen mc =
     (if argLen \<le> 0 then Some (Some (None, mc\<lparr>sequence := 0\<rparr>))
      else let pktLen' = (if dataOffset + argLen < maxLen then dataOffset + argLen else pktLen);
               room = int (length (mem (cbuf mc) ! a)) - int off
           in if 4 + pktLen' < 0 \<or> room < 4 + pktLen' then Some None
              else case writePacket (a, off, nat (4 + pktLen'))
                     (put (a, off, nat (4 + pktLen')) 4
                       (comStmtSendLongData # u32_bytes sid @ [of_nat paramID, of_nat (paramID div 2 ^ 8)])
                       (mc\<lparr>sequence := 0\<rparr>)) of
                     None \<Rightarrow> Some None
                   | Some (Some e, mc1) \<Rightarrow> Some (Some (Some e, mc1))
                   | Some (None, mc1) \<Rightarrow>
                       if pktLen' < dataOffset then Some None
                       else long_loop sid paramID maxLen a (off + nat (pktLen' - dataOffset))
                         (argLen - (pktLen' - dataOffset)) pktLen' mc1)"

definition writeCommandLongData :: "stmt \<Rightarrow> nat \<Rightarrow> bytes \<Rightarrow> conn \<Rightarrow> (error option \<times> conn) option option" where
  "writeCommandLongData st paramID arg mc =
     (let maxLen = maxAllowedPacket mc - 1;
          (a, mc1) = alloc (4 + 1 + 4 + 2 + length arg) mc
      in long_loop (stmtId st) paramID maxLen a 0 (int (length arg)) maxLen
           (put (a, 0, 4 + 1 + 4 + 2 + length arg) 11 arg mc1))"

section \<open>Executing\<close>

definition fieldTypeNULL :: byte where "fieldTypeNULL = 6"
definition fieldTypeString :: byte where "fieldTypeString = 0xfe"

text \<open>The null nmask, the types and the values collected so far.\<close>

record params =
  pMask :: bytes
  pTypes :: bytes
  pValues :: bytes

definition set_null :: "nat \<Rightarrow> params \<Rightarrow> params" where
  "set_null i p = p\<lparr>pMask := (pMask p)[i div 8 := pMask p ! (i div 8) OR push_bit (i mod 8) 1],
     pTypes := pTypes p @ [fieldTypeNULL, 0]\<rparr>"

definition add_value :: "byte \<Rightarrow> byte \<Rightarrow> bytes \<Rightarrow> params \<Rightarrow> params" where
  "add_value t u d p = p\<lparr>pTypes := pTypes p @ [t, u], pValues := pValues p @ d\<rparr>"

text \<open>
  A string argument: in the packet when it is shorter than the threshold, otherwise sent ahead
  in packets of its own.
\<close>

definition add_string :: "stmt \<Rightarrow> int \<Rightarrow> nat \<Rightarrow> bytes \<Rightarrow> params \<Rightarrow> conn \<Rightarrow>
    ((error + params) \<times> conn) option option" where
  "add_string st longDataSize i v p mc =
     (if int (length v) < longDataSize
      then Some (Some (Inr (add_value fieldTypeString 0
             (appendLengthEncodedInteger [] (of_nat (length v)) @ v) p), mc))
      else map_option (map_option (\<lambda>(e, mc1).
             (case e of Some err \<Rightarrow> Inl err | None \<Rightarrow> Inr (add_value fieldTypeString 0 [] p), mc1)))
             (writeCommandLongData st i v mc))"

fun add_arg :: "stmt \<Rightarrow> int \<Rightarrow> nat \<Rightarrow> arg \<Rightarrow> params \<Rightarrow> conn \<Rightarrow> ((error + params) \<times> conn) option option" where
  "add_arg st lds i ANil p mc = Some (Some (Inr (set_null i p), mc))"
| "add_arg st lds i (AInt v) p mc = Some (Some (Inr (add_value fieldTypeLongLong 0 (uint64ToBytes v) p), mc))"
| "add_arg st lds i (AUint v) p mc = Some (Some (Inr (add_value fieldTypeLongLong 0x80 (uint64ToBytes v) p), mc))"
| "add_arg st lds i (AFloat s bits) p mc = Some (Some (Inr (add_value fieldTypeDouble 0 (uint64ToBytes bits) p), mc))"
| "add_arg st lds i (ABool b) p mc = Some (Some (Inr (add_value fieldTypeTiny 0 [if b then 1 else 0] p), mc))"
| "add_arg st lds i (AJson v) p mc = add_string st lds i v p mc"
| "add_arg st lds i (ABytes (Some v)) p mc = add_string st lds i v p mc"
| "add_arg st lds i (ABytes None) p mc = Some (Some (Inr (set_null i p), mc))"
| "add_arg st lds i (AString v) p mc = add_string st lds i v p mc"
| "add_arg st lds i (ATime t) p mc =
     (case (if t = zeroTime then Some (Inr (str ''0000-00-00'')) else appendDateTime [] t) of
        None \<Rightarrow> Some None
      | Some (Inl e) \<Rightarrow> Some (Some (Inl e, mc))
      | Some (Inr b) \<Rightarrow> Some (Some (Inr (add_value fieldTypeString 0
            (appendLengthEncodedInteger [] (of_nat (length b)) @ b) p), mc)))"
| "add_arg st lds i AOther p mc = Some (Some (Inl (FmtError ''cannot convert type''), mc))"

fun add_args :: "stmt \<Rightarrow> int \<Rightarrow> nat \<Rightarrow> arg list \<Rightarrow> params \<Rightarrow> conn \<Rightarrow> ((error + params) \<times> conn) option option" where
  "add_args st lds i [] p mc = Some (Some (Inr p, mc))"
| "add_args st lds i (a # as) p mc =
     (case add_arg st lds i a p mc of
        None \<Rightarrow> None
      | Some None \<Rightarrow> Some None
      | Some (Some (Inl e, mc1)) \<Rightarrow> Some (Some (Inl e, mc1))
      | Some (Some (Inr p1, mc1)) \<Rightarrow> add_args st lds (i + 1) as p1 mc1)"

definition execute_header :: "stmt \<Rightarrow> bytes" where
  "execute_header st = comStmtExecute # u32_bytes (stmtId st) @ [0, 1, 0, 0, 0]"

definition empty_params :: "nat \<Rightarrow> params" where
  "empty_params n = \<lparr>pMask = replicate ((n + 7) div 8) 0, pTypes = [], pValues = []\<rparr>"

text \<open>
  The finished packet is in the connection's buffer when it fits, otherwise in a new array, which
  the buffer keeps when values have been appended to it.
\<close>

definition place_packet :: "sref \<Rightarrow> bytes \<Rightarrow> nat \<Rightarrow> bool \<Rightarrow> conn \<Rightarrow> error option \<times> sref \<times> conn" where
  "place_packet r body fixed hasValues mc =
     (let len = 4 + length body
      in if fixed < sref_len r \<and> len \<le> sref_len r
         then (None, (fst r, 0, len), put r 4 body mc)
         else let (a, mc1) = alloc len mc;
                  mc2 = put (a, 0, len) 4 body mc1
              in if hasValues \<or> fixed < sref_len r
                 then (case store a (cbuf mc2) of
                     (Some e, b) \<Rightarrow> (Some ErrBadConnNoWrite, (a, 0, len), mc2\<lparr>cbuf := b\<rparr>)
                   | (None, b) \<Rightarrow> (None, (a, 0, len), mc2\<lparr>cbuf := b\<rparr>))
                 else (None, (a, 0, len), mc2))"

definition writeExecutePacket :: "stmt \<Rightarrow> arg list \<Rightarrow> conn \<Rightarrow> (error option \<times> conn) option option" where
  "writeExecutePacket st args mc =
     (if length args \<noteq> paramCount st then Some (Some (Some (FmtError ''argument count mismatch''), mc))
      else let n = length args;
               lds0 = maxAllowedPacket mc div (int (paramCount st) + 1);
               lds = (if lds0 < 64 then 64 else lds0);
               mc1 = mc\<lparr>sequence := 0\<rparr>
           in if n = 0
              then (case takeBuffer 14 (cbuf mc1) of
                  (Inl e, b) \<Rightarrow> Some (Some (Some ErrBadConnNoWrite, mc1))
                | (Inr r, b) \<Rightarrow> Some (writePacket r (put r 4 (execute_header st) (mc1\<lparr>cbuf := b\<rparr>))))
              else (case takeCompleteBuffer (cbuf mc1) of
                  Inl e \<Rightarrow> Some (Some (Some ErrBadConnNoWrite, mc1))
                | Inr r \<Rightarrow>
                    (case add_args st lds 0 args (empty_params n) (put r 4 (execute_header st) mc1) of
                       None \<Rightarrow> None
                     | Some None \<Rightarrow> Some None
                     | Some (Some (Inl e, mc2)) \<Rightarrow> Some (Some (Some e, mc2))
                     | Some (Some (Inr p, mc2)) \<Rightarrow>
                         (case place_packet r (execute_header st @ pMask p @ 1 # pTypes p @ pValues p)
                             (14 + (n + 7) div 8 + (1 + 2 * n)) (pValues p \<noteq> []) mc2 of
                            (Some e, _, mc3) \<Rightarrow> Some (Some (Some e, mc3))
                          | (None, r', mc3) \<Rightarrow> Some (writePacket r' mc3)))))"

section \<open>Rows of the binary protocol\<close>

definition fieldTypeDecimal :: byte where "fieldTypeDecimal = 0"
definition fieldTypeTime :: byte where "fieldTypeTime = 11"
definition fieldTypeBit :: byte where "fieldTypeBit = 16"
definition fieldTypeJSON :: byte where "fieldTypeJSON = 0xf5"

text \<open>\<open>fieldTypeJSON\<close> to \<open>fieldTypeGeometry\<close> are consecutive: JSON, decimals, enums, sets, blobs, strings.\<close>

definition string_type :: "byte \<Rightarrow> bool" where
  "string_type t \<longleftrightarrow> t = fieldTypeDecimal \<or> t = fieldTypeVarChar \<or> t = fieldTypeBit \<or> fieldTypeJSON \<le> t"

definition le64_at :: "gslice \<Rightarrow> int \<Rightarrow> u64 option" where
  "le64_at d i = do { s \<leftarrow> slice d i (i + 8); Some (getle (fst s)) }"

text \<open>The length of the text of a time with \<open>base\<close> bytes before its fraction.\<close>

definition text_length :: "byte \<Rightarrow> byte \<Rightarrow> byte option" where
  "text_length base decimals =
     (if decimals = 0 \<or> decimals = 0x1f then Some base
      else if 1 \<le> decimals \<and> decimals \<le> 6 then Some (base + 1 + decimals) else None)"

definition illegal_decimals :: error where
  "illegal_decimals = FmtError ''protocol error, illegal decimals value''"

text \<open>A date or time: its length, then \<open>num\<close> bytes of the data, checked against the capacity.\<close>

definition time_cell :: "conn \<Rightarrow> mysqlField \<Rightarrow> gslice \<Rightarrow> int \<Rightarrow> (error + dvalue \<times> int) option" where
  "time_cell mc col data pos0 = do {
     d \<leftarrow> slice_from data pos0;
     (num, isNull, n) \<leftarrow> readLengthEncodedInteger (fst d);
     let pos = pos0 + n;
     let fin = wrap64 (pos + sint num);
     if isNull then Some (Inr (VNil, pos))
     else if fieldType col = fieldTypeTime then
       (case text_length 8 (fieldDecimals col) of
          None \<Rightarrow> Some (Inl illegal_decimals)
        | Some len \<Rightarrow> do {
            s \<leftarrow> slice data pos fin;
            andThen (formatBinaryTime (fst s) len) (\<lambda>b. Some (Inr (VBytes b, fin))) })
     else if parseTime mc then do {
       s \<leftarrow> slice_from data pos;
       andThen (parseBinaryDateTime num s) (\<lambda>t. Some (Inr (VTime t, fin))) }
     else
       (case (if fieldType col = fieldTypeDate then Some 10 else text_length 19 (fieldDecimals col)) of
          None \<Rightarrow> Some (Inl illegal_decimals)
        | Some len \<Rightarrow> do {
            s \<leftarrow> slice data pos fin;
            andThen (formatBinaryDateTime (fst s) len) (\<lambda>b. Some (Inr (VBytes b, fin))) }) }"

text \<open>
  The cell of a column and the position behind it.  A single byte is checked against the length
  of the packet, longer numbers only against the capacity behind it.
\<close>

definition binary_cell :: "conn \<Rightarrow> mysqlField \<Rightarrow> gslice \<Rightarrow> int \<Rightarrow> (error + dvalue \<times> int) option" where
  "binary_cell mc col data pos =
     (let t = fieldType col; uns = (fieldFlags col AND flagUnsigned \<noteq> 0)
      in if t = fieldTypeNULL then Some (Inr (VNil, pos))
         else if t = fieldTypeTiny then do {
           b \<leftarrow> idx (fst data) pos;
           Some (Inr (VInt (if uns then uint b else sint b), pos + 1)) }
         else if t = fieldTypeShort \<or> t = fieldTypeYear then do {
           w \<leftarrow> le16_at data pos;
           Some (Inr (VInt (if uns then uint w else sint w), pos + 2)) }
         else if t = fieldTypeInt24 \<or> t = fieldTypeLong then do {
           w \<leftarrow> le32_at data pos;
           Some (Inr (VInt (if uns then uint w else sint w), pos + 4)) }
         else if t = fieldTypeLongLong then do {
           w \<leftarrow> le64_at data pos;
           if uns \<and> 0x7fffffffffffffff < w
           then do { s \<leftarrow> uint64ToString w; Some (Inr (VBytes s, pos + 8)) }
           else Some (Inr (VInt (sint w), pos + 8)) }
         else if t = fieldTypeFloat then do { w \<leftarrow> le32_at data pos; Some (Inr (VBits 32 (ucast w), pos + 4)) }
         else if t = fieldTypeDouble then do { w \<leftarrow> le64_at data pos; Some (Inr (VBits 64 w, pos + 8)) }
         else if string_type t then do {
           d \<leftarrow> slice_from data pos;
           (s, isNull, n, err) \<leftarrow> readLengthEncodedString d;
           Some (case err of Some e \<Rightarrow> Inl e | None \<Rightarrow> Inr (if isNull then VNil else VBytes s, pos + n)) }
         else if t = fieldTypeDate \<or> t = fieldTypeNewDate \<or> t = fieldTypeTime \<or> t = fieldTypeTimestamp \<or>
           t = fieldTypeDateTime
         then time_cell mc col data pos
         else Some (Inl (FmtError ''unknown field type'')))"

definition null_bit :: "bytes \<Rightarrow> nat \<Rightarrow> bool option" where
  "null_bit nmask i = do {
     b \<leftarrow> idx nmask (int ((i + 2) div 8));
     Some (bit b ((i + 2) mod 8)) }"

fun binary_cells :: "conn \<Rightarrow> mysqlField list \<Rightarrow> bytes \<Rightarrow> gslice \<Rightarrow> int \<Rightarrow> nat \<Rightarrow> nat \<Rightarrow> (error + dvalue list) option" where
  "binary_cells mc cols nmask data pos i 0 = Some (Inr [])"
| "binary_cells mc cols nmask data pos i (Suc n) = do {
     isNull \<leftarrow> null_bit nmask i;
     andThen (if isNull then Some (Inr (VNil, pos))
              else do { col \<leftarrow> idx cols (int i); binary_cell mc col data pos }) (\<lambda>(v, pos').
     andThen (binary_cells mc cols nmask data pos' (i + 1) n) (\<lambda>vs. Some (Inr (v # vs)))) }"

definition binary_packet :: "nat \<Rightarrow> gslice \<Rightarrow> rows \<Rightarrow> conn \<Rightarrow> ((error + dvalue list) \<times> rows \<times> conn) option" where
  "binary_packet n data rows mc = do {
     d0 \<leftarrow> idx (fst data) 0;
     if d0 \<noteq> iOK then
       if d0 = iEOF \<and> length (fst data) = 5 then do {
         st \<leftarrow> readStatus (drop 3 (fst data));
         let mc1 = mc\<lparr>cstatus := st\<rparr>;
         let rows1 = rows\<lparr>rdone := True\<rparr>;
         Some (Inl IoEOF, if hasNextResultSet rows1 mc1 then rows1 else rows1\<lparr>hasMc := False\<rparr>, mc1) }
       else do {
         (e, mc1) \<leftarrow> handleErrorPacket data mc;
         Some (Inl e, rows\<lparr>hasMc := False\<rparr>, mc1) }
     else do {
       let pos = 1 + int ((n + 7 + 2) div 8);
       nmask \<leftarrow> slice data 1 pos;
       r \<leftarrow> binary_cells mc (columns rows) (fst nmask) data pos 0 n;
       Some (r, rows, mc) } }"

definition binary_readRow :: "nat \<Rightarrow> rows \<Rightarrow> conn \<Rightarrow> ((error + dvalue list) \<times> rows \<times> conn) option" where
  "binary_readRow n rows mc = do {
     (r, mc1) \<leftarrow> readPacket mc;
     case r of Inl e \<Rightarrow> Some (Inl e, rows, mc1) | Inr data \<Rightarrow> binary_packet n data rows mc1 }"

definition binary_Next :: "nat \<Rightarrow> rows \<Rightarrow> conn \<Rightarrow> ((error + dvalue list) \<times> rows \<times> conn) option" where
  "binary_Next n rows mc =
     (if hasMc rows
      then case conn_error mc of Some e \<Rightarrow> Some (Inl e, rows, mc) | None \<Rightarrow> binary_readRow n rows mc
      else Some (Inl IoEOF, rows, mc))"

definition binary_NextResultSet :: "rows \<Rightarrow> conn \<Rightarrow> (error option \<times> rows \<times> conn) option" where
  "binary_NextResultSet rows mc = do {
     (r, rows1, mc1) \<leftarrow> nextNotEmptyResultSet rows mc;
     case r of
       Inl e \<Rightarrow> Some (Some e, rows1, mc1)
     | Inr resLen \<Rightarrow> do {
         (c, mc2) \<leftarrow> readColumns resLen mc1;
         Some (case c of
             Inl e \<Rightarrow> (Some e, rows1\<lparr>columns := []\<rparr>, mc2)
           | Inr cols \<Rightarrow> (None, rows1\<lparr>columns := cols\<rparr>, mc2)) } }"

definition binary_NextResultSet1 :: "rows \<Rightarrow> conn \<times> bytes \<Rightarrow> (error option \<times> rows \<times> conn \<times> bytes) option" where
  "binary_NextResultSet1 rows s = do {
     (r, rows1, s1) \<leftarrow> nextNotEmptyResultSet1 rows s;
     case r of
       Inl e \<Rightarrow> Some (Some e, rows1, s1)
     | Inr resLen \<Rightarrow> do {
         (c, s2) \<leftarrow> readColumns1 resLen s1;
         Some (case c of
             Inl e \<Rightarrow> (Some e, rows1\<lparr>columns := []\<rparr>, s2)
           | Inr cols \<Rightarrow> (None, rows1\<lparr>columns := cols\<rparr>, s2)) } }"

section \<open>Executing a statement\<close>

text \<open>
  \<open>mysqlStmt.Exec\<close> and \<open>query\<close>: a statement that has been closed panics; the results are cleared
  after the packet has been sent.
\<close>

definition stmt_Exec :: "stmt \<Rightarrow> arg list \<Rightarrow> conn \<Rightarrow> ((error + int list \<times> int list) \<times> conn) option option" where
  "stmt_Exec st args mc =
     (if \<not> hasConn st then Some None
      else if closed mc then Some (Some (Inl DriverErrBadConn, mc))
      else case writeExecutePacket st args mc of
        None \<Rightarrow> None
      | Some None \<Rightarrow> Some None
      | Some (Some (Some e, mc1)) \<Rightarrow> Some (Some (Inl (bad_conn e), mc1))
      | Some (Some (None, mc1)) \<Rightarrow> Some (do {
          (r, mc2) \<leftarrow> readResultSetHeaderPacket (clearResult mc1);
          case r of
            Inl e \<Rightarrow> Some (Inl e, mc2)
          | Inr resLen \<Rightarrow> do {
              (e, mc3) \<leftarrow> (if 0 < resLen then skip_result mc2 else Some (None, mc2));
              case e of
                Some err \<Rightarrow> Some (Inl err, mc3)
              | None \<Rightarrow> do {
                  (e2, mc4) \<leftarrow> discardResults mc3;
                  Some (case e2 of Some err \<Rightarrow> Inl err | None \<Rightarrow> Inr (affectedRows mc4, insertIds mc4), mc4) } } }))"

text \<open>
  Without columns the rows do not get the connection, so there is never a next result set.
\<close>

definition stmt_query :: "stmt \<Rightarrow> arg list \<Rightarrow> conn \<Rightarrow> ((error + rows) \<times> conn) option option" where
  "stmt_query st args mc =
     (if \<not> hasConn st then Some None
      else if closed mc then Some (Some (Inl DriverErrBadConn, mc))
      else case writeExecutePacket st args mc of
        None \<Rightarrow> None
      | Some None \<Rightarrow> Some None
      | Some (Some (Some e, mc1)) \<Rightarrow> Some (Some (Inl (bad_conn e), mc1))
      | Some (Some (None, mc1)) \<Rightarrow> Some (do {
          (r, mc2) \<leftarrow> readResultSetHeaderPacket (clearResult mc1);
          case r of
            Inl e \<Rightarrow> Some (Inl e, mc2)
          | Inr resLen \<Rightarrow>
              if 0 < resLen then do {
                (c, mc3) \<leftarrow> readColumns resLen mc2;
                Some (case c of Inl e \<Rightarrow> Inl e | Inr cols \<Rightarrow> Inr (newRows\<lparr>columns := cols\<rparr>), mc3) }
              else do {
                (e, rows, mc3) \<leftarrow> binary_NextResultSet (newRows\<lparr>hasMc := False, rdone := True\<rparr>) mc2;
                Some (if e = None \<or> e = Some IoEOF then Inr rows else Inl (the e), mc3) } }))"

section \<open>The methods with a context\<close>

text \<open>The context is never cancelled, so \<open>PrepareContext\<close> is \<open>Prepare\<close>.\<close>

definition PrepareContext :: "bytes \<Rightarrow> conn \<Rightarrow> ((error + stmt) \<times> conn) option" where
  "PrepareContext q mc = Prepare q mc"

definition stmt_QueryContext :: "stmt \<Rightarrow> (bytes \<times> arg) list \<Rightarrow> conn \<Rightarrow> ((error + rows) \<times> conn) option option" where
  "stmt_QueryContext st args mc = (case namedValueToValue args of
     Inl e \<Rightarrow> Some (Some (Inl e, mc)) | Inr dargs \<Rightarrow> stmt_query st dargs mc)"

definition stmt_ExecContext :: "stmt \<Rightarrow> (bytes \<times> arg) list \<Rightarrow> conn \<Rightarrow> ((error + int list \<times> int list) \<times> conn) option option" where
  "stmt_ExecContext st args mc = (case namedValueToValue args of
     Inl e \<Rightarrow> Some (Some (Inl e, mc)) | Inr dargs \<Rightarrow> stmt_Exec st dargs mc)"

end
