(* ===== verification/StmtProps.thy ===== *)
theory StmtProps
  imports Frames Stmt
begin

text \<open>
  What prepared statements put on the wire and read from it: long arguments sent ahead, the packet
  of an execution, the rows of the binary protocol.
\<close>

section \<open>Writing leaves the memory behind the slice alone\<close>

definition only_below :: "nat \<Rightarrow> nat \<Rightarrow> buffer \<Rightarrow> buffer \<Rightarrow> bool" where
  "only_below a k b b' \<longleftrightarrow> length (mem b') = length (mem b) \<and> length (mem b' ! a) = length (mem b ! a) \<and>
     drop k (mem b' ! a) = drop k (mem b ! a) \<and> (\<forall>x. x \<noteq> a \<longrightarrow> mem b' ! x = mem b ! x)"

lemma only_below_refl [simp]: "only_below a k b b"
  by (simp add: only_below_def)

lemma only_below_trans: "only_below a k b b1 \<Longrightarrow> only_below a k b1 b2 \<Longrightarrow> only_below a k b b2"
  by (simp add: only_below_def)

lemma put_only_below:
  assumes "room mc (a, off, len)" and "n + length d \<le> len"
  shows "only_below a (off + len) (cbuf mc) (cbuf (put (a, off, len) n d mc))"
  using assms
  by (auto simp: only_below_def put_def room_def overwrite_def add.commute)

lemma only_below_room: "only_below a k (cbuf mc) (cbuf mc') \<Longrightarrow> room mc (a, off, len) \<Longrightarrow> room mc' (a, off, len)"
  by (simp add: only_below_def room_def)

lemma net_write_cbuf: "cbuf (snd (net_write d mc)) = cbuf mc" "cbuf (cleanup mc) = cbuf mc"
  by (auto simp: net_write_def cleanup_def clearResult_def Let_def split: list.split prod.split)

lemma write_loop_only_below:
  assumes "room mc (a, off, len)" and "n = len - 4"
  shows "only_below a (off + len) (cbuf mc) (cbuf (snd (write_loop n (a, off, len) mc)))"
  using assms
proof (induction n arbitrary: off len mc rule: less_induct)
  case (less n)
  define h where "h = (if maxPacketSize \<le> n then [255, 255, 255]
      else [of_nat n, of_nat (n div 2 ^ 8), of_nat (n div 2 ^ 16)]) @ [sequence mc]"
  define mc1 where "mc1 = put (a, off, len) 0 h mc"
  have "length h = 4" "4 \<le> len" using less.prems(1) by (simp_all add: h_def room_def)
  then have o1: "only_below a (off + len) (cbuf mc) (cbuf mc1)"
    unfolding mc1_def using less.prems(1) by (intro put_only_below) simp_all
  define sz where "sz = (if maxPacketSize \<le> n then maxPacketSize else n)"
  define w where "w = net_write (take (4 + sz) (content mc1 (a, off, len))) mc1"
  have w: "cbuf (snd w) = cbuf mc1" by (simp add: w_def net_write_cbuf)
  define mc3 where "mc3 = (snd w)\<lparr>sequence := sequence (snd w) + 1\<rparr>"
  have rec: "only_below a (off + len) (cbuf mc3) (cbuf (snd (write_loop (n - maxPacketSize)
      (a, off + maxPacketSize, len - maxPacketSize) mc3)))" if "maxPacketSize \<le> n"
  proof -
    have "room mc3 (a, off, len)"
      using only_below_room [OF o1 less.prems(1)] w by (simp add: mc3_def room_def)
    then have "room mc3 (a, off + maxPacketSize, len - maxPacketSize)"
      using that less.prems(2) by (simp add: room_def maxPacketSize_def)
    moreover have "n - maxPacketSize < n" using that by (simp add: maxPacketSize_def)
    moreover have "n - maxPacketSize = len - maxPacketSize - 4" using less.prems(2) by simp
    moreover have "off + maxPacketSize + (len - maxPacketSize) = off + len" using that less.prems(2) by simp
    ultimately show ?thesis using less.IH by metis
  qed
  have "only_below a (off + len) (cbuf mc1) (cbuf (snd (write_loop n (a, off, len) mc)))"
  proof (cases "maxPacketSize \<le> n")
    case True
    then have m1: "put (a, off, len) 0 [255, 255, 255, sequence mc] mc = mc1"
      and "net_write (take (4 + maxPacketSize) (content mc1 (a, off, len))) mc1 = w"
      by (simp_all add: mc1_def h_def w_def sz_def)
    then show ?thesis using True rec w
      by (subst write_loop.simps) (simp add: Let_def case_prod_unfold net_write_cbuf mc3_def)
  next
    case False
    then have m1: "put (a, off, len) 0 [of_nat n, of_nat (n div 2 ^ 8), of_nat (n div 2 ^ 16), sequence mc] mc = mc1"
      and "net_write (take (4 + n) (content mc1 (a, off, len))) mc1 = w" "n \<noteq> maxPacketSize"
      by (simp_all add: mc1_def h_def w_def sz_def)
    then show ?thesis using False w
      by (subst write_loop.simps) (simp add: Let_def case_prod_unfold net_write_cbuf)
  qed
  with o1 show ?case by (rule only_below_trans)
qed

section \<open>Long arguments\<close>

definition long_packet :: "u32 \<Rightarrow> nat \<Rightarrow> bytes \<Rightarrow> bytes" where
  "long_packet sid i c = comStmtSendLongData # u32_bytes sid @ [of_nat i, of_nat (i div 2 ^ 8)] @ c"

text \<open>One packet: the header written over the seven bytes before the data.\<close>

lemma overwritten_slice:
  assumes "length h = 7" and "off + 11 + k \<le> length m"
  shows "take (11 + k) (drop off (overwrite m (off + 4) h)) = take 4 (drop off m) @ h @ take k (drop (off + 11) m)"
proof -
  have "take 4 (drop off m) = drop off (take (off + 4) m)" by (simp add: drop_take)
  then show ?thesis using assms by (simp add: overwrite_def add.commute)
qed

lemma long_turn:
  assumes "writable mc" and "\<not> creset mc" and "a < length (mem (cbuf mc))"
    and "length (mem (cbuf mc) ! a) = off + 11 + length rest" and "drop (off + 11) (mem (cbuf mc) ! a) = rest"
    and "k \<le> length rest" and "int (7 + k) \<le> maxAllowedPacket mc"
  shows "\<exists>b. writePacket (a, off, 11 + k)
      (put (a, off, 11 + k) 4 (comStmtSendLongData # u32_bytes sid @ [of_nat i, of_nat (i div 2 ^ 8)])
        (mc\<lparr>sequence := 0\<rparr>)) =
    Some (None, mc\<lparr>cbuf := b, sent := sent mc @ frames 0 (long_packet sid i (take k rest)),
      sequence := of_nat (frame_count (long_packet sid i (take k rest)))\<rparr>) \<and>
    a < length (mem b) \<and> length (mem b ! a) = off + k + 11 + length (drop k rest) \<and>
    drop (off + k + 11) (mem b ! a) = drop k rest"
proof -
  let ?h = "comStmtSendLongData # u32_bytes sid @ [of_nat i, of_nat (i div 2 ^ 8)]"
  define m0 where "m0 = mc\<lparr>sequence := 0\<rparr>"
  define m1 where "m1 = put (a, off, 11 + k) 4 ?h m0"
  have lh: "length ?h = 7" by (simp add: u32_bytes_def)
  have room0: "room m0 (a, off, 11 + k)" using assms(3,4,6) by (simp add: room_def m0_def)
  have o1: "only_below a (off + (11 + k)) (cbuf m0) (cbuf m1)"
    unfolding m1_def by (rule put_only_below [OF room0]) (simp add: u32_bytes_def)
  have room1: "room m1 (a, off, 11 + k)" by (rule only_below_room [OF o1 room0])
  let ?m = "mem (cbuf m0) ! a"
  have take_k: "take (11 + k) (drop off (mem (cbuf m1) ! a)) = take 4 (drop off ?m) @ ?h @ take k (drop (off + 11) ?m)"
  proof -
    have "mem (cbuf m1) ! a = overwrite ?m (off + 4) ?h" "off + 11 + k \<le> length ?m"
      using room0 by (simp_all add: m1_def put_def room_def)
    then show ?thesis using overwritten_slice [OF lh, of off k ?m] by simp
  qed
  have c: "content m1 (a, off, 11 + k) = take 4 (drop off ?m) @ long_packet sid i (take k rest)"
    using take_k assms(5) by (simp add: content_slice long_packet_def m0_def)
  have "length (take 4 (drop off ?m)) = 4" using assms(4) by (simp add: m0_def)
  moreover have f: "writable m1" "\<not> creset m1" "int (11 + k - 4) \<le> maxAllowedPacket m1"
    using assms(1,2,7) by (simp_all add: m1_def m0_def put_fields put_command(1,2) writable_def)
  ultimately obtain b where b: "writePacket (a, off, 11 + k) m1 = Some (None, m1\<lparr>cbuf := b,
      sent := sent m1 @ frames (sequence m1) (long_packet sid i (take k rest)),
      sequence := sequence m1 + of_nat (frame_count (long_packet sid i (take k rest)))\<rparr>)"
    using writePacket_frames [OF f(1) room1 f(2,3) c] by auto
  have "only_below a (off + (11 + k)) (cbuf m1) (cbuf (snd (write_loop (11 + k - 4) (a, off, 11 + k) m1)))"
    by (rule write_loop_only_below [OF room1 refl])
  moreover have "write_loop (11 + k - 4) (a, off, 11 + k) m1 = the (writePacket (a, off, 11 + k) m1)"
    using f by (simp add: writePacket_def sref_len_def)
  ultimately have "only_below a (off + (11 + k)) (cbuf m1) b" using b by simp
  with o1 have o: "only_below a (off + (11 + k)) (cbuf mc) b"
    using only_below_trans [of a "off + (11 + k)" "cbuf m0"] by (simp add: m0_def)
  then have m: "a < length (mem b)" "length (mem b ! a) = off + 11 + length rest"
    "drop (off + (11 + k)) (mem b ! a) = drop (off + (11 + k)) (mem (cbuf mc) ! a)"
    using assms(3,4) by (simp_all add: only_below_def)
  have "drop (off + (11 + k)) (mem (cbuf mc) ! a) = drop k rest"
    using assms(5) by (metis add.assoc drop_drop add.commute)
  moreover have eq: "off + k + 11 = off + (11 + k)" by simp
  ultimately have "length (mem b ! a) = off + k + 11 + length (drop k rest)" "drop (off + k + 11) (mem b ! a) = drop k rest"
    using m assms(6) unfolding eq by simp_all
  moreover have "m1\<lparr>cbuf := b, sent := sent m1 @ frames (sequence m1) (long_packet sid i (take k rest)),
      sequence := sequence m1 + of_nat (frame_count (long_packet sid i (take k rest)))\<rparr> =
    mc\<lparr>cbuf := b, sent := sent mc @ frames 0 (long_packet sid i (take k rest)),
      sequence := of_nat (frame_count (long_packet sid i (take k rest)))\<rparr>"
    by (simp add: m1_def m0_def put_def)
  ultimately show ?thesis using b m(1) unfolding m1_def m0_def by (intro exI [of _ b]) simp
qed

lemma long_loop_sends:
  assumes "writable mc" and "\<not> creset mc" and "8 < maxAllowedPacket mc" and "a < length (mem (cbuf mc))"
    and "length (mem (cbuf mc) ! a) = off + 11 + length rest" and "drop (off + 11) (mem (cbuf mc) ! a) = rest"
    and "rest \<noteq> [] \<Longrightarrow> pkt = maxAllowedPacket mc - 1"
  shows "\<exists>cs mc'. long_loop sid i (maxAllowedPacket mc - 1) a off (int (length rest)) pkt mc = Some (Some (None, mc')) \<and>
    concat cs = rest \<and> (\<forall>c \<in> set cs. c \<noteq> [] \<and> int (length c) + 8 \<le> maxAllowedPacket mc) \<and>
    sent mc' = sent mc @ concat (map (\<lambda>c. frames 0 (long_packet sid i c)) cs) \<and> sequence mc' = 0"
  using assms
proof (induction "length rest" arbitrary: mc off rest pkt rule: less_induct)
  case less
  show ?case
  proof (cases "rest = []")
    case True
    then show ?thesis by (intro exI [of _ "[]"]) (simp add: long_loop.simps [of sid i _ a off 0])
  next
    case False
    define maxLen where "maxLen = maxAllowedPacket mc - 1"
    define k where "k = (if 7 + int (length rest) < maxLen then length rest else nat (maxLen - 7))"
    have k: "0 < k" "k \<le> length rest" "int (7 + k) \<le> maxLen"
      "(if 7 + int (length rest) < maxLen then 7 + int (length rest) else pkt) = 7 + int k"
      using False less.prems(3,7) by (auto simp: k_def maxLen_def)
    obtain b where b: "writePacket (a, off, 11 + k)
        (put (a, off, 11 + k) 4 (comStmtSendLongData # u32_bytes sid @ [of_nat i, of_nat (i div 2 ^ 8)])
          (mc\<lparr>sequence := 0\<rparr>)) =
      Some (None, mc\<lparr>cbuf := b, sent := sent mc @ frames 0 (long_packet sid i (take k rest)),
        sequence := of_nat (frame_count (long_packet sid i (take k rest)))\<rparr>)"
      "a < length (mem b)" "length (mem b ! a) = off + k + 11 + length (drop k rest)"
      "drop (off + k + 11) (mem b ! a) = drop k rest"
      using long_turn [OF less.prems(1,2,4-6) k(2), of sid i] k(3) by (auto simp: maxLen_def)
    define mc1 where "mc1 = mc\<lparr>cbuf := b, sent := sent mc @ frames 0 (long_packet sid i (take k rest)),
        sequence := of_nat (frame_count (long_packet sid i (take k rest)))\<rparr>"
    have m1: "writable mc1" "\<not> creset mc1" "maxAllowedPacket mc1 = maxAllowedPacket mc" "cbuf mc1 = b"
      using less.prems by (simp_all add: mc1_def writable_def)
    have more: "drop k rest \<noteq> [] \<Longrightarrow> 7 + int k = maxAllowedPacket mc1 - 1"
      using k(1) m1(3) by (auto simp: k_def maxLen_def split: if_splits)
    have "length (drop k rest) < length rest" using k(1) False by simp
    from less.hyps [OF this m1(1,2) _ _ _ _ more] obtain cs mc' where r:
      "long_loop sid i (maxAllowedPacket mc - 1) a (off + k) (int (length (drop k rest))) (7 + int k) mc1 = Some (Some (None, mc'))"
      "concat cs = drop k rest" "\<forall>c \<in> set cs. c \<noteq> [] \<and> int (length c) + 8 \<le> maxAllowedPacket mc"
      "sent mc' = sent mc1 @ concat (map (\<lambda>c. frames 0 (long_packet sid i c)) cs)" "sequence mc' = 0"
      using less.prems(3) m1(3,4) b(2-4) by auto
    have k4: "(if dataOffset + int (length rest) < maxAllowedPacket mc - 1 then dataOffset + int (length rest) else pkt) =
        7 + int k" using k(4) by (auto simp: dataOffset_def maxLen_def split: if_splits)
    have n: "nat (4 + (7 + int k)) = 11 + k" "nat (7 + int k - dataOffset) = k" "int (length rest) - (7 + int k - dataOffset) = int (length (drop k rest))"
      "\<not> int (length rest) \<le> 0" "\<not> (4 + (7 + int k) < 0 \<or> int (length (mem (cbuf mc) ! a)) - int off < 4 + (7 + int k))"
      "\<not> 7 + int k < dataOffset"
      using k(2) False less.prems(5) by (simp_all add: dataOffset_def of_nat_diff)
    have "long_loop sid i (maxAllowedPacket mc - 1) a off (int (length rest)) pkt mc = Some (Some (None, mc'))"
      by (subst long_loop.simps, unfold Let_def k4 n(1-3)) (simp only: n(4-6) if_False b(1) option.case prod.case mc1_def [symmetric] r(1))
    moreover have "concat (take k rest # cs) = rest" using r(2) by simp
    moreover have "take k rest \<noteq> []" "int (length (take k rest)) + 8 \<le> maxAllowedPacket mc"
      using k False by (auto simp: maxLen_def)
    ultimately show ?thesis using r(3-5)
      by (intro exI [of _ "take k rest # cs"] exI [of _ mc']) (simp add: mc1_def)
  qed
qed

section \<open>The packet of an execution\<close>

definition arg_null :: "arg \<Rightarrow> bool" where
  "arg_null a \<longleftrightarrow> a = ANil \<or> a = ABytes None"

fun arg_type :: "arg \<Rightarrow> bytes" where
  "arg_type ANil = [6, 0]"
| "arg_type (AInt v) = [8, 0]"
| "arg_type (AUint v) = [8, 0x80]"
| "arg_type (AFloat s b) = [5, 0]"
| "arg_type (ABool b) = [1, 0]"
| "arg_type (ABytes None) = [6, 0]"
| "arg_type _ = [0xfe, 0]"

text \<open>The text of a time, when it has one.\<close>

definition time_text :: "gotime \<Rightarrow> bytes option" where
  "time_text t = (if t = zeroTime then Some (str ''0000-00-00'')
     else case appendDateTime [] t of Some (Inr b) \<Rightarrow> Some b | _ \<Rightarrow> None)"

fun arg_value :: "arg \<Rightarrow> bytes" where
  "arg_value (AInt v) = uint64ToBytes v"
| "arg_value (AUint v) = uint64ToBytes v"
| "arg_value (AFloat s b) = uint64ToBytes b"
| "arg_value (ABool b) = [if b then 1 else 0]"
| "arg_value (AJson v) = les v"
| "arg_value (ABytes (Some v)) = les v"
| "arg_value (AString v) = les v"
| "arg_value (ATime t) = (case time_text t of Some b \<Rightarrow> les b | None \<Rightarrow> [])"
| "arg_value _ = []"

text \<open>An argument that goes into the packet: it converts, and is not too long.\<close>

definition inline :: "int \<Rightarrow> arg \<Rightarrow> bool" where
  "inline lds a \<longleftrightarrow> a \<noteq> AOther \<and> (\<forall>v. text_value a = Some v \<longrightarrow> int (length v) < lds) \<and>
     (\<forall>t. a = ATime t \<longrightarrow> time_text t \<noteq> None)"

lemma les_append: "appendLengthEncodedInteger [] (of_nat (length v)) @ v = les v"
  by (simp add: les_def lei_def)

lemmas arg_types = fieldTypeNULL_def fieldTypeLongLong_def fieldTypeDouble_def fieldTypeTiny_def
  fieldTypeString_def

lemma add_arg_inline:
  assumes "inline lds a"
  shows "add_arg st lds i a p mc = Some (Some (Inr
    (if arg_null a then set_null i p
     else p\<lparr>pTypes := pTypes p @ arg_type a, pValues := pValues p @ arg_value a\<rparr>), mc))"
proof (cases a)
  case (ABytes v)
  then show ?thesis using assms
    by (cases v) (auto simp: arg_null_def add_value_def add_string_def inline_def text_value_def les_append arg_types)
next
  case (ATime t)
  then show ?thesis using assms
    by (auto simp: arg_null_def add_value_def inline_def time_text_def les_append arg_types
        split: option.splits sum.splits if_splits)
qed (use assms in \<open>auto simp: arg_null_def add_value_def add_string_def inline_def text_value_def les_append arg_types\<close>)

text \<open>The mask marks the null arguments from number \<open>i\<close> on, over the bits it has already.\<close>

definition mask_bit :: "bytes \<Rightarrow> nat \<Rightarrow> bool" where
  "mask_bit m j \<longleftrightarrow> bit (m ! (j div 8)) (j mod 8)"

lemma set_null_bit:
  assumes "i div 8 < length (pMask p)" and "j div 8 < length (pMask p)"
  shows "mask_bit (pMask (set_null i p)) j \<longleftrightarrow> j = i \<or> mask_bit (pMask p) j"
proof -
  have e: "j = i" if "j div 8 = i div 8" "j mod 8 = i mod 8" using that by (metis div_mult_mod_eq)
  have b: "bit (push_bit (i mod 8) 1 :: byte) (j mod 8) \<longleftrightarrow> j mod 8 = i mod 8"
    by (auto simp: bit_simps)
  show ?thesis using assms e b
    by (auto simp: mask_bit_def set_null_def nth_list_update bit_or_iff)
qed

lemma add_args_inline:
  assumes "list_all (inline lds) as" and "i + length as \<le> n" and "length (pMask p) = (n + 7) div 8"
  shows "\<exists>m. add_args st lds i as p mc = Some (Some (Inr \<lparr>pMask = m, pTypes = pTypes p @ concat (map arg_type as),
      pValues = pValues p @ concat (map arg_value as)\<rparr>, mc)) \<and>
    length m = (n + 7) div 8 \<and>
    (\<forall>j < n. mask_bit m j \<longleftrightarrow> mask_bit (pMask p) j \<or> i \<le> j \<and> j < i + length as \<and> arg_null (as ! (j - i)))"
  using assms
proof (induction as arbitrary: i p)
  case Nil
  then show ?case by (cases p) auto
next
  case (Cons a as)
  define p1 where "p1 = (if arg_null a then set_null i p
     else p\<lparr>pTypes := pTypes p @ arg_type a, pValues := pValues p @ arg_value a\<rparr>)"
  have lp: "length (pMask p1) = (n + 7) div 8" using Cons.prems(3) by (simp add: p1_def set_null_def)
  have p1: "pTypes p1 = pTypes p @ arg_type a" "pValues p1 = pValues p @ arg_value a"
    by (auto simp: p1_def arg_null_def set_null_def arg_types)
  have bits: "mask_bit (pMask p1) j \<longleftrightarrow> mask_bit (pMask p) j \<or> j = i \<and> arg_null a" if "j < n" for j
    using set_null_bit [of i p j] that Cons.prems(2,3) by (auto simp: p1_def)
  obtain m where m: "add_args st lds (i + 1) as p1 mc = Some (Some (Inr \<lparr>pMask = m,
      pTypes = pTypes p1 @ concat (map arg_type as), pValues = pValues p1 @ concat (map arg_value as)\<rparr>, mc))"
    "length m = (n + 7) div 8"
    "\<forall>j < n. mask_bit m j \<longleftrightarrow> mask_bit (pMask p1) j \<or> i + 1 \<le> j \<and> j < i + 1 + length as \<and> arg_null (as ! (j - (i + 1)))"
    using Cons.IH [of "i + 1" p1] Cons.prems lp by auto
  have "add_args st lds i (a # as) p mc = Some (Some (Inr \<lparr>pMask = m,
      pTypes = pTypes p @ concat (map arg_type (a # as)), pValues = pValues p @ concat (map arg_value (a # as))\<rparr>, mc))"
    using add_arg_inline [of lds a st i p mc] Cons.prems(1) m(1) p1 by (simp add: p1_def)
  moreover have "mask_bit m j \<longleftrightarrow> mask_bit (pMask p) j \<or> i \<le> j \<and> j < i + length (a # as) \<and> arg_null ((a # as) ! (j - i))"
    if "j < n" for j
    using m(3) bits [OF that] that by (cases "j = i") (auto simp: nth_Cons')
  ultimately show ?case using m(2) by blast
qed

text \<open>Wherever the packet is put, writing it sends its body.\<close>

lemma placed_packet_sent:
  assumes "writable mc" and "idle mc" and "\<not> creset mc" and "int (length body) \<le> maxAllowedPacket mc"
    and "r = (cur (cbuf mc), 0, length (mem (cbuf mc) ! cur (cbuf mc)))"
  shows "\<exists>r' mc1 b. place_packet r body fixed hv mc = (None, r', mc1) \<and>
    writePacket r' mc1 = Some (None, mc\<lparr>cbuf := b, sent := sent mc @ frames (sequence mc) body,
      sequence := sequence mc + of_nat (frame_count body)\<rparr>)"
proof (cases "fixed < sref_len r \<and> 4 + length body \<le> sref_len r")
  case True
  have a: "cur (cbuf mc) < length (mem (cbuf mc))" using assms(2) idle_room by (simp add: idle_def)
  have l: "4 + length body \<le> length (mem (cbuf mc) ! cur (cbuf mc))" using True assms(5) by (simp add: sref_len_def)
  have "put r 4 body mc = put (cur (cbuf mc), 0, 4 + length body) 4 body mc" by (simp add: assms(5) put_def)
  with write_args [OF assms(1,3,4) a l] True show ?thesis
    by (auto simp: place_packet_def Let_def assms(5))
next
  case False
  define a where "a = length (mem (cbuf mc))"
  define mc1 where "mc1 = mc\<lparr>cbuf := (cbuf mc)\<lparr>mem := mem (cbuf mc) @ [replicate (4 + length body) 0]\<rparr>\<rparr>"
  define mc2 where "mc2 = put (a, 0, 4 + length body) 4 body mc1"
  have m1: "a < length (mem (cbuf mc1))" "4 + length body \<le> length (mem (cbuf mc1) ! a)"
    by (simp_all add: mc1_def a_def)
  note pa = put_args [OF m1]
  have sent: "\<exists>b'. writePacket (a, 0, 4 + length body) (mc2\<lparr>cbuf := b\<rparr>) = Some (None,
      mc\<lparr>cbuf := b', sent := sent mc @ frames (sequence mc) body, sequence := sequence mc + of_nat (frame_count body)\<rparr>)"
    if "mem b = mem (cbuf mc2)" for b
  proof -
    let ?m = "mc2\<lparr>cbuf := b\<rparr>"
    have "writable ?m" "\<not> creset ?m" "int (4 + length body - 4) \<le> maxAllowedPacket ?m"
      using assms(1,3,4) by (simp_all add: mc2_def mc1_def put_def writable_def)
    moreover have "room ?m (a, 0, 4 + length body)" "content ?m (a, 0, 4 + length body) = take 4 (mem (cbuf mc1) ! a) @ body"
      using pa that by (simp_all add: room_def content_slice mc2_def)
    moreover have "length (take 4 (mem (cbuf mc1) ! a)) = 4" using m1 by simp
    ultimately obtain b' where "writePacket (a, 0, 4 + length body) ?m = Some (None, ?m\<lparr>cbuf := b',
        sent := sent ?m @ frames (sequence ?m) body, sequence := sequence ?m + of_nat (frame_count body)\<rparr>)"
      using writePacket_frames [of ?m a 0 "4 + length body" "take 4 (mem (cbuf mc1) ! a)" body] by auto
    then show ?thesis by (intro exI [of _ b']) (simp add: mc2_def mc1_def put_def)
  qed
  have idle: "blen (cbuf mc2) = 0" using assms(2) by (simp add: mc2_def mc1_def put_def idle_def)
  have al: "alloc (4 + length body) mc = (a, mc1)" by (simp add: alloc_def a_def mc1_def)
  obtain b where st: "store a (cbuf mc2) = (None, b)" "mem b = mem (cbuf mc2)"
    using idle by (cases "store a (cbuf mc2)") (auto simp: store_def split: if_splits)
  show ?thesis
  proof (cases "hv \<or> fixed < sref_len r")
    case True
    with False al st sent [OF st(2)] show ?thesis
      by (auto simp: place_packet_def Let_def mc2_def [symmetric])
  next
    case nostore: False
    with False al sent [of "cbuf mc2"] show ?thesis
      by (auto simp: place_packet_def Let_def mc2_def [symmetric])
  qed
qed

definition threshold :: "conn \<Rightarrow> nat \<Rightarrow> int" where
  "threshold mc n = (let lds = maxAllowedPacket mc div (int n + 1) in if lds < 64 then 64 else lds)"

text \<open>The header in the buffer leaves the connection ready to send.\<close>

lemma header_written:
  assumes "writable mc" and "idle mc" and "\<not> creset mc"
    and "r = (cur (cbuf mc), 0, length (mem (cbuf mc) ! cur (cbuf mc)))"
    and "mc1 = put r 4 (execute_header st) (mc\<lparr>sequence := 0\<rparr>)"
  shows "writable mc1" "idle mc1" "\<not> creset mc1" "maxAllowedPacket mc1 = maxAllowedPacket mc"
    "sequence mc1 = 0" "sent mc1 = sent mc" "r = (cur (cbuf mc1), 0, length (mem (cbuf mc1) ! cur (cbuf mc1)))"
proof -
  have len: "length (execute_header st) = 10" by (simp add: execute_header_def u32_bytes_def)
  have room: "room (mc\<lparr>sequence := 0\<rparr>) r" "defaultBufSize \<le> length (mem (cbuf mc) ! cur (cbuf mc))"
    using assms(2) idle_room [of "cbuf mc"] by (simp_all add: assms(4) room_def idle_def defaultBufSize_def)
  have f: "writable mc1" "\<not> creset mc1" "maxAllowedPacket mc1 = maxAllowedPacket mc" "sequence mc1 = 0" "sent mc1 = sent mc"
    "cur (cbuf mc1) = cur (cbuf mc)"
    using assms(1,3) by (simp_all add: assms(5) put_fields put_command(1,2) put_window) (simp add: writable_def)
  have "buf_inv (cbuf mc1)"
    unfolding assms(5) by (rule put_inv [OF room(1)])
      (use assms(2) len room(2) in \<open>simp_all add: assms(4) sref_len_def idle_def defaultBufSize_def\<close>)
  moreover have "blen (cbuf mc1) = 0" using assms(2) by (simp add: assms(5) put_window idle_def)
  moreover have "length (mem (cbuf mc1) ! cur (cbuf mc)) = length (mem (cbuf mc) ! cur (cbuf mc))"
    using room len by (simp add: assms(4,5) put_def room_def length_overwrite defaultBufSize_def)
  ultimately show "writable mc1" "idle mc1" "\<not> creset mc1" "maxAllowedPacket mc1 = maxAllowedPacket mc"
    "sequence mc1 = 0" "sent mc1 = sent mc" "r = (cur (cbuf mc1), 0, length (mem (cbuf mc1) ! cur (cbuf mc1)))"
    using f by (simp_all add: idle_def assms(4))
qed

text \<open>
  C28: Executing a statement with one or more arguments, each of a type the driver converts and shorter than
  the threshold for long data, sends one command packet: the header, the null mask with bit \<open>i\<close> set exactly when
  argument \<open>i\<close> is null, the types in order and the values of the arguments that are not null in order, as frames
  numbered from 0, whether the packet fits the connection's buffer or not.
\<close>

theorem execute_sends:
  assumes "writable mc" and "idle mc" and "\<not> creset mc" and "length args = paramCount st" and "args \<noteq> []"
    and "list_all (inline (threshold mc (length args))) args"
    and "\<And>m. length m = (length args + 7) div 8 \<Longrightarrow> int (length (execute_header st @ m @ 1 # concat (map arg_type args) @
      concat (map arg_value args))) \<le> maxAllowedPacket mc"
  shows "\<exists>m mc'. writeExecutePacket st args mc = Some (Some (None, mc')) \<and> length m = (length args + 7) div 8 \<and>
    (\<forall>j < length args. mask_bit m j \<longleftrightarrow> arg_null (args ! j)) \<and>
    sent mc' = sent mc @ frames 0 (execute_header st @ m @ 1 # concat (map arg_type args) @ concat (map arg_value args))"
proof -
  define n where "n = length args"
  let ?r = "(cur (cbuf mc), 0, length (mem (cbuf mc) ! cur (cbuf mc)))"
  define mc1 where "mc1 = put ?r 4 (execute_header st) (mc\<lparr>sequence := 0\<rparr>)"
  have t: "takeCompleteBuffer (cbuf mc) = Inr ?r" using assms(2) by (simp add: takeCompleteBuffer_def idle_def)
  note m1 = header_written [OF assms(1-3) refl mc1_def]
  obtain m where m: "add_args st (threshold mc n) 0 args (empty_params n) mc1 = Some (Some (Inr \<lparr>pMask = m,
      pTypes = concat (map arg_type args), pValues = concat (map arg_value args)\<rparr>, mc1))"
    "length m = (n + 7) div 8" "\<forall>j < n. mask_bit m j \<longleftrightarrow> mask_bit (pMask (empty_params n)) j \<or> j < n \<and> arg_null (args ! j)"
    using add_args_inline [of "threshold mc n" args 0 n "empty_params n" st mc1] assms(6)
    by (auto simp: n_def empty_params_def)
  have null: "\<not> mask_bit (pMask (empty_params n)) j" if "j < n" for j
  proof -
    have "j div 8 < (n + 7) div 8" using that by (simp add: div_less_iff_less_mult)
    then show ?thesis by (simp add: mask_bit_def empty_params_def)
  qed
  let ?body = "execute_header st @ m @ 1 # concat (map arg_type args) @ concat (map arg_value args)"
  have "int (length ?body) \<le> maxAllowedPacket mc1" using assms(7) [of m] m(2) m1(4) n_def by simp
  then obtain r' mc2 b where p: "place_packet ?r ?body (14 + (n + 7) div 8 + (1 + 2 * n)) (concat (map arg_value args) \<noteq> []) mc1 =
      (None, r', mc2)" "writePacket r' mc2 = Some (None, mc1\<lparr>cbuf := b, sent := sent mc1 @ frames (sequence mc1) ?body,
      sequence := sequence mc1 + of_nat (frame_count ?body)\<rparr>)"
    using placed_packet_sent [OF m1(1,2,3) _ m1(7), of ?body "14 + (n + 7) div 8 + (1 + 2 * n)" "concat (map arg_value args) \<noteq> []"]
    by blast
  have "paramCount st \<noteq> 0" using assms(4,5) by (metis length_0_conv)
  then have "writeExecutePacket st args mc = Some (writePacket r' mc2)"
    unfolding writeExecutePacket_def Let_def
    using assms(4,5) t m(1) p(1) by (simp add: n_def mc1_def [symmetric] threshold_def Let_def)
  then show ?thesis using p(2) m(2,3) null m1(5,6) n_def by (intro exI [of _ m]) simp
qed

lemma execute_sends_witness:
  "\<exists>m mc'. writeExecutePacket \<lparr>hasConn = True, stmtId = 7, paramCount = 2\<rparr> [ANil, AInt 5] (fresh_conn []) = Some (Some (None, mc')) \<and>
     length m = 1 \<and> mask_bit m 0 \<and> \<not> mask_bit m 1 \<and>
     sent mc' = frames 0 ([23, 7, 0, 0, 0, 0, 1, 0, 0, 0] @ m @ [1, 6, 0, 8, 0, 5, 0, 0, 0, 0, 0, 0, 0])"
proof -
  let ?st = "\<lparr>hasConn = True, stmtId = 7, paramCount = 2\<rparr>"
  have h: "execute_header ?st = [23, 7, 0, 0, 0, 0, 1, 0, 0, 0]"
    by (simp add: execute_header_def comStmtExecute_def u32_bytes_def)
  have v: "uint64ToBytes 5 = [5, 0, 0, 0, 0, 0, 0, 0]" by (simp add: uint64ToBytes_def byte_at_def)
  have all: "list_all (inline (threshold (fresh_conn []) (length [ANil, AInt 5]))) [ANil, AInt 5]"
    by (simp add: inline_def text_value_def)
  have "\<not> creset (fresh_conn [])" "length [ANil, AInt 5] = paramCount ?st" "[ANil, AInt 5] \<noteq> []" "sent (fresh_conn []) = []"
    "maxAllowedPacket (fresh_conn []) = 67108864"
    by (simp_all add: fresh_conn_def)
  then show ?thesis
    using execute_sends [OF fresh_conn(1,2) _ _ _ all, where st = ?st] h v
    by (auto simp: arg_null_def numeral_2_eq_2 All_less_Suc)
qed

text \<open>C37: An argument too long for the packet reaches the server whole: it is sent ahead in packets of
  its own, each with the statement and the parameter it belongs to, none empty and none longer
  than \<open>maxAllowedPacket\<close>, whose data put together are the argument; the loop ends when a packet
  has room for at least one byte.\<close>

theorem long_data_reassembles:
  assumes "writable mc" and "\<not> creset mc" and "8 < maxAllowedPacket mc"
  shows "\<exists>cs mc'. writeCommandLongData st i arg mc = Some (Some (None, mc')) \<and> concat cs = arg \<and>
    (\<forall>c \<in> set cs. c \<noteq> [] \<and> int (length c) + 8 \<le> maxAllowedPacket mc) \<and>
    sent mc' = sent mc @ concat (map (\<lambda>c. frames 0 (long_packet (stmtId st) i c)) cs) \<and> sequence mc' = 0"
proof -
  define a where "a = length (mem (cbuf mc))"
  let ?n = "11 + length arg"
  define mc1 where "mc1 = put (a, 0, ?n) 11 arg (mc\<lparr>cbuf := (cbuf mc)\<lparr>mem := mem (cbuf mc) @ [replicate ?n 0]\<rparr>\<rparr>)"
  have "mem (cbuf mc1) ! a = replicate 11 0 @ arg" "a < length (mem (cbuf mc1))"
    by (simp_all add: mc1_def put_def a_def overwrite_def)
  moreover have "writable mc1" "\<not> creset mc1" "maxAllowedPacket mc1 = maxAllowedPacket mc" "sent mc1 = sent mc"
    using assms by (simp_all add: mc1_def put_fields put_command(1,2) writable_def)
  ultimately show ?thesis
    using long_loop_sends [of mc1 a 0 arg "maxAllowedPacket mc - 1" "stmtId st" i] assms(3)
    by (simp add: writeCommandLongData_def Let_def alloc_def a_def [symmetric] mc1_def [symmetric])
qed

lemma long_data_reassembles_witness:
  "\<exists>cs mc'. writeCommandLongData \<lparr>hasConn = True, stmtId = 7, paramCount = 1\<rparr> 0 [1, 2, 3] ((fresh_conn [])\<lparr>maxAllowedPacket := 10\<rparr>) =
     Some (Some (None, mc')) \<and> concat cs = [1, 2, 3] \<and> (\<forall>c \<in> set cs. c \<noteq> [] \<and> int (length c) + 8 \<le> 10) \<and>
     sent mc' = concat (map (\<lambda>c. frames 0 (long_packet 7 0 c)) cs) \<and> sequence mc' = 0"
proof -
  let ?mc = "(fresh_conn [])\<lparr>maxAllowedPacket := 10\<rparr>"
  have "writable ?mc" "\<not> creset ?mc" "8 < maxAllowedPacket ?mc" "sent ?mc = []" "maxAllowedPacket ?mc = 10"
    using fresh_conn(1) [of "[]"] by (simp_all add: writable_def) (simp_all add: fresh_conn_def)
  then show ?thesis
    using long_data_reassembles [of ?mc "\<lparr>hasConn = True, stmtId = 7, paramCount = 1\<rparr>" 0 "[1, 2, 3]"] by simp
qed

end
