(* ===== verification/StmtRows.thy ===== *)
theory StmtRows
  imports Frames Stmt
begin

text \<open>
  The rows of the binary protocol: a server's encoding of a row, and that \<open>binaryRows.readRow\<close>
  gives it back; and what becomes of a row that is cut off.
\<close>

section \<open>A row as the server sends it\<close>

datatype cell = CNull | CInt int | CBig u64 | CFloat u32 | CDouble u64 | CText bytes

definition unsigned_col :: "mysqlField \<Rightarrow> bool" where
  "unsigned_col col \<longleftrightarrow> fieldFlags col AND flagUnsigned \<noteq> 0"

text \<open>The bytes that an integer column of a type takes, 0 when it is no integer column.\<close>

definition int_width :: "byte \<Rightarrow> nat" where
  "int_width t =
     (if t = fieldTypeTiny then 1
      else if t = fieldTypeShort \<or> t = fieldTypeYear then 2
      else if t = fieldTypeInt24 \<or> t = fieldTypeLong then 4
      else if t = fieldTypeLongLong then 8 else 0)"

text \<open>The values a column can hold.\<close>

fun cell_fits :: "mysqlField \<Rightarrow> cell \<Rightarrow> bool" where
  "cell_fits col CNull \<longleftrightarrow> True"
| "cell_fits col (CInt i) \<longleftrightarrow> (let w = 8 * int_width (fieldType col) in
     0 < w \<and> (if unsigned_col col then 0 \<le> i \<and> i < (if w = 64 then 2 ^ 63 else 2 ^ w)
      else - (2 ^ (w - 1)) \<le> i \<and> i < 2 ^ (w - 1)))"
| "cell_fits col (CBig n) \<longleftrightarrow> fieldType col = fieldTypeLongLong \<and> unsigned_col col \<and> 0x7fffffffffffffff < n"
| "cell_fits col (CFloat w) \<longleftrightarrow> fieldType col = fieldTypeFloat"
| "cell_fits col (CDouble w) \<longleftrightarrow> fieldType col = fieldTypeDouble"
| "cell_fits col (CText s) \<longleftrightarrow> string_type (fieldType col) \<and> length s < 2 ^ 62"

fun cell_bytes :: "mysqlField \<Rightarrow> cell \<Rightarrow> bytes" where
  "cell_bytes col CNull = []"
| "cell_bytes col (CInt i) = putle (int_width (fieldType col)) (word_of_int i :: u64)"
| "cell_bytes col (CBig n) = putle 8 n"
| "cell_bytes col (CFloat w) = putle 4 w"
| "cell_bytes col (CDouble w) = putle 8 w"
| "cell_bytes col (CText s) = les s"

text \<open>What the driver hands on: an integer above the signed range as its decimal digits.\<close>

fun cell_value :: "cell \<Rightarrow> dvalue" where
  "cell_value CNull = VNil"
| "cell_value (CInt i) = VInt i"
| "cell_value (CBig n) = VBytes (digits_of (unat n))"
| "cell_value (CFloat w) = VBits 32 (ucast w)"
| "cell_value (CDouble w) = VBits 64 w"
| "cell_value (CText s) = VBytes s"

text \<open>Bit \<open>i + 2\<close> of the mask is set when cell \<open>i\<close> is null.\<close>

definition row_mask :: "cell list \<Rightarrow> bytes" where
  "row_mask cs = map (\<lambda>k. horner_sum of_bool 2
     (map (\<lambda>j. 2 \<le> 8 * k + j \<and> 8 * k + j < length cs + 2 \<and> cs ! (8 * k + j - 2) = CNull) [0..<8]))
     [0..<(length cs + 9) div 8]"

definition binary_row_packet :: "mysqlField list \<Rightarrow> cell list \<Rightarrow> bytes" where
  "binary_row_packet cols cs = 0 # row_mask cs @ concat (map2 cell_bytes cols cs)"

section \<open>Reading it back\<close>

lemma le_slice:
  "slice (pre @ putle k n @ r, sp) (int (length pre)) (int (length pre) + int k) = Some (putle k n, r @ sp)"
  by (simp add: slice_def nat_add_distrib)

lemma bit_getle: "bit (getle (putle k (w :: 'a::len word)) :: 'b::len word) n \<longleftrightarrow> n < LENGTH('b) \<and> n < 8 * k \<and> bit w n"
proof (induction k arbitrary: w n)
  case 0
  then show ?case by simp
next
  case (Suc k)
  then show ?case
    by (cases "n < 8") (auto simp: bit_or_iff bit_push_bit_iff bit_ucast_iff bit_drop_bit_eq dest: bit_imp_le_length)
qed

lemma getle_narrow: "LENGTH('b::len) = 8 * k \<Longrightarrow> (getle (putle k (word_of_int i :: u64)) :: 'b word) = word_of_int i"
  if "LENGTH('b) \<le> 64"
  by (rule bit_word_eqI) (use that in \<open>simp add: bit_getle bit_word_of_int_iff\<close>)

lemma byte_of_int: "(ucast (word_of_int i :: u64) :: byte) = word_of_int i"
  by (rule bit_word_eqI) (simp add: bit_ucast_iff bit_word_of_int_iff)

lemma word_reads:
  fixes i :: int
  shows "0 \<le> i \<Longrightarrow> i < 2 ^ LENGTH('a::len) \<Longrightarrow> uint (word_of_int i :: 'a word) = i"
    and "- (2 ^ (LENGTH('a) - 1)) \<le> i \<Longrightarrow> i < 2 ^ (LENGTH('a) - 1) \<Longrightarrow> sint (word_of_int i :: 'a word) = i"
  by (simp_all add: uint_word_of_int_eq take_bit_int_eq_self sint_sbintrunc' signed_take_bit_int_eq_self)

lemma fits_le:
  assumes "bs = putle k (w :: 'a::len word)"
  shows "k = 2 \<Longrightarrow> le16_at (pre @ bs @ r, sp) (int (length pre)) = Some (getle bs)"
    and "k = 4 \<Longrightarrow> le32_at (pre @ bs @ r, sp) (int (length pre)) = Some (getle bs)"
    and "k = 8 \<Longrightarrow> le64_at (pre @ bs @ r, sp) (int (length pre)) = Some (getle bs)"
  using le_slice [of pre k w r sp] assms by (simp_all add: le16_at_def le32_at_def le64_at_def)

lemmas cell_types = fieldTypeTiny_def fieldTypeShort_def fieldTypeYear_def fieldTypeInt24_def fieldTypeLong_def
  fieldTypeLongLong_def fieldTypeFloat_def fieldTypeDouble_def fieldTypeNULL_def fieldTypeDecimal_def
  fieldTypeVarChar_def fieldTypeBit_def fieldTypeJSON_def

lemma string_type_not:
  "string_type t \<Longrightarrow> t \<noteq> fieldTypeTiny \<and> t \<noteq> fieldTypeShort \<and> t \<noteq> fieldTypeYear \<and> t \<noteq> fieldTypeInt24 \<and>
     t \<noteq> fieldTypeLong \<and> t \<noteq> fieldTypeLongLong \<and> t \<noteq> fieldTypeFloat \<and> t \<noteq> fieldTypeDouble \<and> t \<noteq> fieldTypeNULL"
  by (auto simp: string_type_def cell_types word_le_nat_alt)

lemma int_cell_reads:
  assumes "cell_fits col (CInt i)"
  shows "binary_cell mc col (pre @ cell_bytes col (CInt i) @ r, sp) (int (length pre)) =
    Some (Inr (VInt i, int (length (pre @ cell_bytes col (CInt i)))))"
proof -
  let ?t = "fieldType col"
  consider (tiny) "?t = fieldTypeTiny" | (short) "?t = fieldTypeShort \<or> ?t = fieldTypeYear" |
    (long) "?t = fieldTypeInt24 \<or> ?t = fieldTypeLong" | (longlong) "?t = fieldTypeLongLong"
    using assms by (auto simp: int_width_def split: if_splits)
  then show ?thesis
  proof cases
    case tiny
    then show ?thesis using assms word_reads [where 'a = 8, of i]
      by (auto simp: binary_cell_def int_width_def unsigned_col_def cell_types Let_def idx_def byte_of_int)
  next
    case short
    then show ?thesis using assms word_reads [where 'a = 16, of i]
      by (auto simp: binary_cell_def int_width_def unsigned_col_def cell_types Let_def fits_le getle_narrow)
  next
    case long
    then show ?thesis using assms word_reads [where 'a = 32, of i]
      by (auto simp: binary_cell_def int_width_def unsigned_col_def cell_types Let_def fits_le getle_narrow)
  next
    case longlong
    then show ?thesis using assms word_reads [where 'a = 64, of i]
      by (auto simp: binary_cell_def int_width_def unsigned_col_def cell_types Let_def fits_le getle_narrow word_less_def split: if_splits)
  qed
qed

lemma cell_reads:
  assumes "cell_fits col c" and "c \<noteq> CNull"
  shows "binary_cell mc col (pre @ cell_bytes col c @ r, sp) (int (length pre)) =
    Some (Inr (cell_value c, int (length (pre @ cell_bytes col c))))"
proof (cases c)
  case (CInt i)
  then show ?thesis using int_cell_reads assms(1) by simp
next
  case (CBig n)
  then show ?thesis using assms(1)
    by (simp add: binary_cell_def cell_types Let_def fits_le getle_putle_id unsigned_col_def uint64ToString_digits)
next
  case (CFloat w)
  then show ?thesis using assms(1)
    by (simp add: binary_cell_def cell_types Let_def fits_le getle_putle_id)
next
  case (CDouble w)
  then show ?thesis using assms(1)
    by (simp add: binary_cell_def cell_types Let_def fits_le getle_putle_id)
next
  case (CText s)
  then show ?thesis using assms(1) string_type_not [of "fieldType col"] readLES_les [of s r sp]
    by (simp add: binary_cell_def Let_def)
qed (use assms(2) in simp)

lemma mask_bits:
  assumes "i < length cs"
  shows "null_bit (row_mask cs) i = Some (cs ! i = CNull)"
proof -
  have "(i + 2) div 8 < (length cs + 9) div 8" "8 * ((i + 2) div 8) + (i + 2) mod 8 = i + 2" "(i + 2) mod 8 < 8"
    using assms by (simp_all add: div_less_iff_less_mult)
  then show ?thesis using assms
    by (simp add: null_bit_def row_mask_def bit_horner_sum_bit_word_iff)
qed

text \<open>The columns from \<open>i\<close> on hold the cells still to be read.\<close>

lemma cells_read:
  assumes "i + length cs \<le> length cols"
    and "list_all2 cell_fits (take (length cs) (drop i cols)) cs"
    and "\<And>j. j < length cs \<Longrightarrow> null_bit nmask (i + j) = Some (cs ! j = CNull)"
  shows "binary_cells mc cols nmask (pre @ concat (map2 cell_bytes (drop i cols) cs) @ r, sp) (int (length pre)) i (length cs) =
    Some (Inr (map cell_value cs))"
  using assms
proof (induction cs arbitrary: i pre)
  case Nil
  then show ?case by simp
next
  case (Cons c cs)
  have i: "i < length cols" "drop i cols = cols ! i # drop (Suc i) cols" "idx cols (int i) = Some (cols ! i)"
    using Cons.prems(1) by (simp_all add: Cons_nth_drop_Suc)
  have fits: "cell_fits (cols ! i) c" "list_all2 cell_fits (take (length cs) (drop (Suc i) cols)) cs"
    using Cons.prems(2) i(2) by simp_all
  have null: "null_bit nmask i = Some (c = CNull)" using Cons.prems(3) [of 0] by simp
  let ?b = "cell_bytes (cols ! i) c"
  have "null_bit nmask (Suc i + j) = Some (cs ! j = CNull)" if "j < length cs" for j
    using Cons.prems(3) [of "Suc j"] that by simp
  then have IH: "binary_cells mc cols nmask ((pre @ ?b) @ concat (map2 cell_bytes (drop (Suc i) cols) cs) @ r, sp)
      (int (length (pre @ ?b))) (Suc i) (length cs) = Some (Inr (map cell_value cs))"
    using Cons.prems(1) fits(2) by (intro Cons.IH) simp_all
  show ?case
  proof (cases "c = CNull")
    case True
    then show ?thesis using IH null i(2) by simp
  next
    case False
    then show ?thesis
      using IH null i cell_reads [OF fits(1), of mc pre "concat (map2 cell_bytes (drop (Suc i) cols) cs) @ r" sp] by simp
  qed
qed

text \<open>
  C29: A row of the binary protocol is read back: whatever integers, floats and texts, nulls among them, a server has
  put into a row packet by the columns' types, \<open>readRow\<close> hands on those values, for any number of columns, and leaves
  the rows and the connection as they are.  Dates and times are not among these cells; \<open>DateTime\<close> has their encodings.
\<close>

theorem binary_row_roundtrip:
  assumes "list_all2 cell_fits (columns rows) cs"
  shows "binary_packet (length cs) (binary_row_packet (columns rows) cs, sp) rows mc = Some (Inr (map cell_value cs), rows, mc)"
proof -
  let ?m = "row_mask cs" and ?d = "concat (map2 cell_bytes (columns rows) cs)"
  have l: "length cs = length (columns rows)" using assms by (simp add: list_all2_lengthD)
  have lm: "length ?m = (length cs + 9) div 8" by (simp add: row_mask_def)
  have "slice (binary_row_packet (columns rows) cs, sp) 1 (1 + int ((length cs + 9) div 8)) = Some (?m, ?d @ sp)"
    by (simp add: slice_def binary_row_packet_def lm nat_add_distrib Let_def)
  moreover have "binary_cells mc (columns rows) ?m ((0 # ?m) @ ?d @ [], sp) (int (length (0 # ?m))) 0 (length cs) =
      Some (Inr (map cell_value cs))"
    using cells_read [of 0 cs "columns rows" ?m mc "0 # ?m" "[]" sp] assms l mask_bits by simp
  ultimately show ?thesis
    by (simp add: binary_packet_def binary_row_packet_def iOK_def lm add.commute [of 9] Let_def)
qed

definition demo_col :: "byte \<Rightarrow> u16 \<Rightarrow> mysqlField" where
  "demo_col t f = \<lparr>tableName = [], fieldName = [], fieldLength = 0, fieldFlags = f, fieldType = t, fieldDecimals = 0, charSet = 0\<rparr>"

lemma binary_row_roundtrip_witness:
  "binary_packet 3 (binary_row_packet [demo_col 2 0, demo_col 15 0, demo_col 8 32] [CInt (- 3), CNull, CBig 0xffffffffffffffff], [7])
     (newRows\<lparr>columns := [demo_col 2 0, demo_col 15 0, demo_col 8 32]\<rparr>) (fresh_conn []) =
   Some (Inr [VInt (- 3), VNil, VBytes (digits_of (2 ^ 64 - 1))],
     newRows\<lparr>columns := [demo_col 2 0, demo_col 15 0, demo_col 8 32]\<rparr>, fresh_conn [])"
proof -
  let ?rows = "newRows\<lparr>columns := [demo_col 2 0, demo_col 15 0, demo_col 8 32]\<rparr>"
  have "list_all2 cell_fits (columns ?rows) [CInt (- 3), CNull, CBig 0xffffffffffffffff]"
    by (simp add: demo_col_def cell_types int_width_def unsigned_col_def flagUnsigned_def)
  from binary_row_roundtrip [OF this, of "[7]" "fresh_conn []"] show ?thesis by (simp add: numeral_3_eq_3)
qed

section \<open>A row that is cut off\<close>

text \<open>Columns whose cells are read only by slicing.\<close>

definition wide :: "mysqlField \<Rightarrow> bool" where
  "wide col \<longleftrightarrow> fieldType col \<in> {fieldTypeShort, fieldTypeYear, fieldTypeInt24, fieldTypeLong, fieldTypeLongLong,
     fieldTypeFloat, fieldTypeDouble}"

lemma le_at_moved:
  "le16_at (x, y @ z) = le16_at (x @ y, z)" "le32_at (x, y @ z) = le32_at (x @ y, z)" "le64_at (x, y @ z) = le64_at (x @ y, z)"
  by (simp_all add: fun_eq_iff le16_at_def le32_at_def le64_at_def slice_def)

lemma wide_cell_moved: "wide col \<Longrightarrow> binary_cell mc col (x, y @ z) pos = binary_cell mc col (x @ y, z) pos"
  by (auto simp: binary_cell_def wide_def cell_types Let_def le_at_moved)

lemma wide_cells_moved:
  "list_all wide cols \<Longrightarrow> binary_cells mc cols nmask (x, y @ z) pos i n = binary_cells mc cols nmask (x @ y, z) pos i n"
proof (induction n arbitrary: pos i)
  case 0
  then show ?case by simp
next
  case (Suc n)
  have "(do { col \<leftarrow> idx cols (int i); binary_cell mc col (x, y @ z) pos }) =
    (do { col \<leftarrow> idx cols (int i); binary_cell mc col (x @ y, z) pos })"
    using Suc.prems by (cases "i < length cols") (auto simp: idx_def list_all_length wide_cell_moved)
  with Suc show ?case by (cases "null_bit nmask i") (auto simp: case_prod_unfold)
qed

text \<open>A row packet of numbers that has been cut off, anywhere behind its first byte, is not
  noticed: the missing bytes, and the missing null mask, are taken from whatever the read
  buffer holds behind the packet, since slicing is checked against the capacity only.\<close>

theorem cut_row_reads_leftovers:
  assumes "list_all wide (columns rows)"
  shows "binary_packet n (0 # x, y @ z) rows mc = binary_packet n (0 # x @ y, z) rows mc"
proof -
  have "slice (0 # x, y @ z) = slice (0 # x @ y, z)"
    by (simp add: fun_eq_iff slice_def)
  then show ?thesis
    using wide_cells_moved [OF assms, of mc _ "0 # x" y z]
    by (simp add: binary_packet_def iOK_def)
qed

lemma cut_row_reads_leftovers_witness:
  "binary_packet 1 ([0, 0, 5], [1, 9]) (newRows\<lparr>columns := [demo_col 2 0]\<rparr>) (fresh_conn []) =
     binary_packet 1 ([0, 0, 5, 1], [9]) (newRows\<lparr>columns := [demo_col 2 0]\<rparr>) (fresh_conn [])"
  using cut_row_reads_leftovers [of "newRows\<lparr>columns := [demo_col 2 0]\<rparr>" 1 "[0, 5]" "[1]" "[9]" "fresh_conn []"]
  by (simp add: wide_def demo_col_def cell_types)

end
