(* ===== verification/Url.thy ===== *)
theory Url
  imports Results
begin

text \<open>
  The library's text functions behind data source names: \<open>net/url\<close>'s escaping of path segments
  and query components, \<open>net.SplitHostPort\<close> and \<open>net.JoinHostPort\<close>, \<open>strings.ToLower\<close>.
\<close>

section \<open>Positions\<close>

lemma of_char_inj: "(of_char c :: byte) = of_char d \<longleftrightarrow> c = d"
proof
  have "unat (of_char c :: byte) = of_char c" for c
  proof -
    have "unat (of_nat (of_char c) :: byte) = of_char c"
      by (simp add: unsigned_of_nat take_bit_eq_mod)
    then show ?thesis by (simp add: of_nat_of_char)
  qed
  moreover assume "(of_char c :: byte) = of_char d"
  ultimately have "(of_char c :: nat) = of_char d" by metis
  then show "c = d" by simp
qed simp

lemma str_eq_iff: "str a = str b \<longleftrightarrow> a = b"
  using inj_map_eq_map [of "of_char :: char \<Rightarrow> byte" a b] by (simp add: str_def inj_def of_char_inj)

lemma find_byte:
  "d \<notin> set s \<Longrightarrow> find_sub [d] s = None"
  "d \<notin> set s \<Longrightarrow> find_sub [d] (s @ d # r) = Some (length s)"
  by (induction s) auto

lemma split_find: "find_sub [d] s = Some k \<Longrightarrow> s = take k s @ d # drop (k + 1) s \<and> d \<notin> set (take k s)"
proof (induction s arbitrary: k)
  case (Cons c s)
  then show ?case by (cases "c = d") (auto split: if_splits)
qed simp

text \<open>\<open>strings.LastIndexByte\<close>.\<close>

definition last_byte :: "byte \<Rightarrow> bytes \<Rightarrow> nat option" where
  "last_byte d s = map_option (\<lambda>k. length s - 1 - k) (find_sub [d] (rev s))"

lemma last_byte:
  "d \<notin> set s \<Longrightarrow> last_byte d s = None"
  "d \<notin> set r \<Longrightarrow> last_byte d (s @ d # r) = Some (length s)"
  using find_byte [of d "rev s"] find_byte(2) [of d "rev r" "rev s"]
  by (simp_all add: last_byte_def)

section \<open>Escaping\<close>

definition unreserved :: "byte \<Rightarrow> bool" where
  "unreserved c \<longleftrightarrow> 0x61 \<le> c \<and> c \<le> 0x7a \<or> 0x41 \<le> c \<and> c \<le> 0x5a \<or> 0x30 \<le> c \<and> c \<le> 0x39 \<or> c \<in> {0x2d, 0x5f, 0x2e, 0x7e}"

text \<open>\<open>shouldEscape\<close>, for a query component or a path segment.\<close>

definition kept :: "bool \<Rightarrow> byte \<Rightarrow> bool" where
  "kept query c \<longleftrightarrow> unreserved c \<or> \<not> query \<and> c \<in> {0x24, 0x26, 0x2b, 0x3a, 0x3d, 0x40}"

definition upperhex :: "byte \<Rightarrow> byte" where
  "upperhex d = (if d < 10 then 0x30 + d else 0x37 + d)"

definition escape_byte :: "bool \<Rightarrow> byte \<Rightarrow> bytes" where
  "escape_byte query c =
     (if kept query c then [c]
      else if query \<and> c = 0x20 then [0x2b]
      else [0x25, upperhex (drop_bit 4 c), upperhex (c AND 15)])"

definition url_escape :: "bool \<Rightarrow> bytes \<Rightarrow> bytes" where
  "url_escape query s = concat (map (escape_byte query) s)"

definition PathEscape :: "bytes \<Rightarrow> bytes" where "PathEscape = url_escape False"
definition QueryEscape :: "bytes \<Rightarrow> bytes" where "QueryEscape = url_escape True"

definition unhex :: "byte \<Rightarrow> byte option" where
  "unhex c =
     (if 0x30 \<le> c \<and> c \<le> 0x39 then Some (c - 0x30)
      else if 0x61 \<le> c \<and> c \<le> 0x66 then Some (c - 0x57)
      else if 0x41 \<le> c \<and> c \<le> 0x46 then Some (c - 0x37) else None)"

definition EscapeError :: error where "EscapeError = FmtError ''invalid URL escape''"

fun url_unescape :: "bool \<Rightarrow> bytes \<Rightarrow> error + bytes" where
  "url_unescape query [] = Inr []"
| "url_unescape query (c # r) =
     (if c = 0x25 then
        (case r of
           a # b # r' \<Rightarrow>
             (case (unhex a, unhex b) of
                (Some x, Some y) \<Rightarrow> onOk (url_unescape query r') (\<lambda>s. Inr ((push_bit 4 x OR y) # s))
              | _ \<Rightarrow> Inl EscapeError)
         | _ \<Rightarrow> Inl EscapeError)
      else onOk (url_unescape query r) (\<lambda>s. Inr ((if query \<and> c = 0x2b then 0x20 else c) # s)))"

definition PathUnescape :: "bytes \<Rightarrow> error + bytes" where "PathUnescape = url_unescape False"
definition QueryUnescape :: "bytes \<Rightarrow> error + bytes" where "QueryUnescape = url_unescape True"

lemma hex_digit: "d < 16 \<Longrightarrow> unhex (upperhex d) = Some d \<and> unreserved (upperhex d)"
proof -
  assume "d < 16"
  then have "d \<in> set (map of_nat [0..<16])"
    by (auto simp: word_less_nat_alt intro!: image_eqI [of _ _ "unat d"])
  moreover have "\<forall>d \<in> set (map of_nat [0..<16]). unhex (upperhex d) = Some d \<and> unreserved (upperhex d)" by code_simp
  ultimately show ?thesis by blast
qed

lemma nibbles: "push_bit 4 (drop_bit 4 c) OR (c AND 15) = (c :: byte)"
proof -
  have "c AND 15 = take_bit 4 c" by (simp add: take_bit_eq_mask mask_eq_exp_minus_1)
  then show ?thesis 
    by (intro bit_word_eqI) (auto simp: bit_or_iff bit_push_bit_iff bit_drop_bit_eq bit_take_bit_iff)
qed

lemma nibble_less: "drop_bit 4 c < (16 :: byte)" "c AND 15 < (16 :: byte)"
  using unsigned_less [of c, where ?'a = nat] le_less_trans [OF word_and_le1 [of c 15], of 16]
  by (simp_all add: word_less_nat_alt unat_div drop_bit_eq_div less_mult_imp_div_less)

lemma unescape_byte: "url_unescape query (escape_byte query c @ r) = onOk (url_unescape query r) (\<lambda>s. Inr (c # s))"
proof -
  have "kept query c \<Longrightarrow> c \<noteq> 0x25 \<and> (query \<longrightarrow> c \<noteq> 0x2b)"
    by (auto simp: kept_def unreserved_def)
  then show ?thesis
    by (auto simp: escape_byte_def hex_digit nibble_less nibbles)
qed

lemma unescape_escape: "url_unescape query (url_escape query s) = Inr s"
  by (induction s) (simp_all add: url_escape_def unescape_byte)

lemma escape_kept: "c \<in> set (url_escape query s) \<Longrightarrow> kept query c \<or> c = 0x25 \<or> query \<and> c = 0x2b"
  using hex_digit nibble_less
  by (auto simp: url_escape_def escape_byte_def kept_def split: if_splits)

lemma escape_plain: "0x25 \<notin> set (url_escape query s) \<Longrightarrow> \<not> query \<or> 0x2b \<notin> set (url_escape query s) \<Longrightarrow> url_escape query s = s"
  by (induction s) (auto simp: url_escape_def escape_byte_def split: if_splits)

section \<open>Addresses\<close>

definition addrErr :: "string \<Rightarrow> error" where "addrErr why = FmtError why"

text \<open>\<open>net.SplitHostPort\<close>: the host and the port.\<close>

definition SplitHostPort :: "bytes \<Rightarrow> error + bytes \<times> bytes" where
  "SplitHostPort s =
     (case last_byte 0x3a s of
        None \<Rightarrow> Inl (addrErr ''missing port in address'')
      | Some i \<Rightarrow>
          onOk
            (if hd s = 0x5b
             then (case find_sub [0x5d] s of
                 None \<Rightarrow> Inl (addrErr ''missing ] in address'')
               | Some e \<Rightarrow>
                   if e + 1 = length s then Inl (addrErr ''missing port in address'')
                   else if e + 1 = i then Inr (take (e - 1) (drop 1 s), 1, e + 1)
                   else if s ! (e + 1) = 0x3a then Inl (addrErr ''too many colons in address'')
                   else Inl (addrErr ''missing port in address''))
             else if 0x3a \<in> set (take i s) then Inl (addrErr ''too many colons in address'')
             else Inr (take i s, 0, 0))
            (\<lambda>(host, j, k).
               if 0x5b \<in> set (drop j s) then Inl (addrErr ''unexpected [ in address'')
               else if 0x5d \<in> set (drop k s) then Inl (addrErr ''unexpected ] in address'')
               else Inr (host, drop (i + 1) s)))"

definition JoinHostPort :: "bytes \<Rightarrow> bytes \<Rightarrow> bytes" where
  "JoinHostPort host port =
     (if 0x3a \<in> set host then [0x5b] @ host @ [0x5d, 0x3a] @ port else host @ [0x3a] @ port)"

section \<open>Lower case\<close>

text \<open>
  \<open>strings.ToLower\<close>, as far as it can give ASCII text: besides the capital letters the Kelvin sign
  and the dotted capital I become ASCII letters; other bytes above 127 stay above.
\<close>

fun lower :: "bytes \<Rightarrow> bytes" where
  "lower [] = []"
| "lower (c # r) =
     (if 0x41 \<le> c \<and> c \<le> 0x5a then (c + 0x20) # lower r
      else if c = 0xe2 \<and> take 2 r = [0x84, 0xaa] then 0x6b # lower (drop 2 r)
      else if c = 0xc4 \<and> take 1 r = [0xb0] then 0x69 # lower (drop 1 r)
      else c # lower r)"

end
