(* ===== verification/Dsn.thy ===== *)
theory Dsn
  imports Params Url Collations
begin

text \<open>
  Data source names (\<open>mysql/dsn.go\<close>): the configuration, its defaults and normalisation, the text
  form and the parser, and the registries of TLS configurations and public keys they refer to
  (\<open>mysql/utils.go\<close>, \<open>mysql/auth.go\<close>).
\<close>

section \<open>The configuration\<close>

text \<open>
  A TLS configuration: the two fields the code looks at, and the rest as a number.  A public key is
  a number.  A location is its name, \<open>None\<close> the nil location.  Parameters are a list of keys and values
  with distinct keys.  The logger only prints and is left out.
\<close>

record tlsconf =
  tlsServerName :: bytes
  tlsSkipVerify :: bool
  tlsRest :: nat

record Config =
  cUser :: bytes
  cPasswd :: bytes
  cNet :: bytes
  cAddr :: bytes
  cDBName :: bytes
  cParams :: "(bytes \<times> bytes) list"
  cAttributes :: bytes
  cCollation :: bytes
  cLoc :: "bytes option"
  cMaxAllowedPacket :: int
  cServerPubKey :: bytes
  cPubKey :: "nat option"
  cTLSConfig :: bytes
  cTLS :: "tlsconf option"
  cTimeout :: int
  cReadTimeout :: int
  cWriteTimeout :: int
  cAllowAllFiles :: bool
  cAllowCleartextPasswords :: bool
  cAllowFallbackToPlaintext :: bool
  cAllowNativePasswords :: bool
  cAllowOldPasswords :: bool
  cCheckConnLiveness :: bool
  cClientFoundRows :: bool
  cColumnsWithAlias :: bool
  cInterpolateParams :: bool
  cMultiStatements :: bool
  cParseTime :: bool
  cRejectReadOnly :: bool

definition defaultMaxAllowedPacket :: int where "defaultMaxAllowedPacket = 64 * 2 ^ 20"

definition NewConfig :: Config where
  "NewConfig = \<lparr>cUser = [], cPasswd = [], cNet = [], cAddr = [], cDBName = [], cParams = [], cAttributes = [],
     cCollation = [], cLoc = Some (str ''UTC''), cMaxAllowedPacket = defaultMaxAllowedPacket, cServerPubKey = [],
     cPubKey = None, cTLSConfig = [], cTLS = None, cTimeout = 0, cReadTimeout = 0, cWriteTimeout = 0,
     cAllowAllFiles = False, cAllowCleartextPasswords = False, cAllowFallbackToPlaintext = False,
     cAllowNativePasswords = True, cAllowOldPasswords = False, cCheckConnLiveness = True, cClientFoundRows = False,
     cColumnsWithAlias = False, cInterpolateParams = False, cMultiStatements = False, cParseTime = False,
     cRejectReadOnly = False\<rparr>"

text \<open>
  What the configuration depends on: the library's time zones and durations, and the two
  registries.
\<close>

record dsn_env =
  loadLocation :: "bytes \<Rightarrow> error + bytes"
  parseDuration :: "bytes \<Rightarrow> error + int"
  durationText :: "int \<Rightarrow> bytes"
  tlsRegistry :: "bytes \<Rightarrow> tlsconf option"
  keyRegistry :: "bytes \<Rightarrow> nat option"

section \<open>The registries\<close>

definition readBool :: "bytes \<Rightarrow> bool option" where
  "readBool s =
     (if s \<in> set (map str [''1'', ''true'', ''TRUE'', ''True'']) then Some True
      else if s \<in> set (map str [''0'', ''false'', ''FALSE'', ''False'']) then Some False else None)"

definition RegisterTLSConfig :: "bytes \<Rightarrow> tlsconf \<Rightarrow> dsn_env \<Rightarrow> error option \<times> dsn_env" where
  "RegisterTLSConfig key c env =
     (if readBool key \<noteq> None \<or> lower key = str ''skip-verify'' \<or> lower key = str ''preferred''
      then (Some (FmtError ''key is reserved''), env)
      else (None, env\<lparr>tlsRegistry := (tlsRegistry env)(key := Some c)\<rparr>))"

definition DeregisterTLSConfig :: "bytes \<Rightarrow> dsn_env \<Rightarrow> dsn_env" where
  "DeregisterTLSConfig key env = env\<lparr>tlsRegistry := (tlsRegistry env)(key := None)\<rparr>"

definition getTLSConfigClone :: "bytes \<Rightarrow> dsn_env \<Rightarrow> tlsconf option" where
  "getTLSConfigClone key env = tlsRegistry env key"

definition RegisterServerPubKey :: "bytes \<Rightarrow> nat \<Rightarrow> dsn_env \<Rightarrow> dsn_env" where
  "RegisterServerPubKey name k env = env\<lparr>keyRegistry := (keyRegistry env)(name := Some k)\<rparr>"

definition DeregisterServerPubKey :: "bytes \<Rightarrow> dsn_env \<Rightarrow> dsn_env" where
  "DeregisterServerPubKey name env = env\<lparr>keyRegistry := (keyRegistry env)(name := None)\<rparr>"

definition getServerPubKey :: "bytes \<Rightarrow> dsn_env \<Rightarrow> nat option" where
  "getServerPubKey name env = keyRegistry env name"

section \<open>\<open>normalize\<close>\<close>

definition ensureHavePort :: "bytes \<Rightarrow> bytes" where
  "ensureHavePort addr =
     (case SplitHostPort addr of Inl _ \<Rightarrow> JoinHostPort addr (str ''3306'') | Inr _ \<Rightarrow> addr)"

text \<open>The address, after the network has been set.\<close>

definition default_addr :: "Config \<Rightarrow> error + Config" where
  "default_addr cf =
     (if cAddr cf = [] then
        if cNet cf = str ''tcp'' then Inr (cf\<lparr>cAddr := str ''127.0.0.1:3306''\<rparr>)
        else if cNet cf = str ''unix'' then Inr (cf\<lparr>cAddr := str ''/tmp/mysql.sock''\<rparr>)
        else Inl (FmtError ''default addr for network unknown'')
      else if cNet cf = str ''tcp'' then Inr (cf\<lparr>cAddr := ensureHavePort (cAddr cf)\<rparr>)
      else Inr cf)"

definition choose_tls :: "dsn_env \<Rightarrow> Config \<Rightarrow> error + Config" where
  "choose_tls env cf =
     (if cTLS cf \<noteq> None then Inr cf
      else let t = cTLSConfig cf; plain = \<lparr>tlsServerName = [], tlsSkipVerify = False, tlsRest = 0\<rparr>
        in if t = str ''false'' \<or> t = [] then Inr cf
           else if t = str ''true'' then Inr (cf\<lparr>cTLS := Some plain\<rparr>)
           else if t = str ''skip-verify'' then Inr (cf\<lparr>cTLS := Some (plain\<lparr>tlsSkipVerify := True\<rparr>)\<rparr>)
           else if t = str ''preferred''
           then Inr (cf\<lparr>cTLS := Some (plain\<lparr>tlsSkipVerify := True\<rparr>), cAllowFallbackToPlaintext := True\<rparr>)
           else case getTLSConfigClone t env of
               None \<Rightarrow> Inl (FmtError ''invalid value / unknown config name'')
             | Some c \<Rightarrow> Inr (cf\<lparr>cTLS := Some c\<rparr>))"

definition name_server :: "Config \<Rightarrow> Config" where
  "name_server cf = (case cTLS cf of
     None \<Rightarrow> cf
   | Some c \<Rightarrow>
       if tlsServerName c = [] \<and> \<not> tlsSkipVerify c
       then (case SplitHostPort (cAddr cf) of
           Inl _ \<Rightarrow> cf
         | Inr (host, _) \<Rightarrow> cf\<lparr>cTLS := Some (c\<lparr>tlsServerName := host\<rparr>)\<rparr>)
       else cf)"

definition find_key :: "dsn_env \<Rightarrow> Config \<Rightarrow> error + Config" where
  "find_key env cf =
     (if cServerPubKey cf = [] then Inr cf
      else case getServerPubKey (cServerPubKey cf) env of
          None \<Rightarrow> Inl (FmtError ''invalid value / unknown server pub key name'')
        | Some k \<Rightarrow> Inr (cf\<lparr>cPubKey := Some k\<rparr>))"

definition errInvalidDSNUnsafeCollation :: error where
  "errInvalidDSNUnsafeCollation =
     FmtError ''invalid DSN: interpolateParams can not be used with unsafe collations''"

definition normalize :: "dsn_env \<Rightarrow> Config \<Rightarrow> error + Config" where
  "normalize env cf =
     (if cInterpolateParams cf \<and> cCollation cf \<noteq> [] \<and> unsafeCollations (cCollation cf)
      then Inl errInvalidDSNUnsafeCollation
      else onOk (default_addr (if cNet cf = [] then cf\<lparr>cNet := str ''tcp''\<rparr> else cf)) (\<lambda>c1.
           onOk (choose_tls env c1) (\<lambda>c2. find_key env (name_server c2))))"

section \<open>\<open>FormatDSN\<close>\<close>

definition writeDSNParam :: "bytes \<times> bool \<Rightarrow> bytes \<times> bytes \<Rightarrow> bytes \<times> bool" where
  "writeDSNParam b p = (case (b, p) of ((buf, hasParam), (name, v)) \<Rightarrow>
     (buf @ (if hasParam then [0x26] else [0x3f]) @ name @ [0x3d] @ v, True))"

definition flag_param :: "string \<Rightarrow> bool \<Rightarrow> bool \<Rightarrow> (bytes \<times> bytes) list" where
  "flag_param name dflt b =
     (if b = dflt then [] else [(str name, if b then str ''true'' else str ''false'')])"

definition text_param :: "string \<Rightarrow> bytes \<Rightarrow> bool \<Rightarrow> (bytes \<times> bytes) list" where
  "text_param name v present = (if present then [(str name, v)] else [])"

text \<open>The keys of a map in order.\<close>

fun insert_key :: "bytes \<times> bytes \<Rightarrow> (bytes \<times> bytes) list \<Rightarrow> (bytes \<times> bytes) list" where
  "insert_key p [] = [p]"
| "insert_key p (q # qs) = (if ord_class.lexordp (fst q) (fst p) then q # insert_key p qs else p # q # qs)"

definition sort_params :: "(bytes \<times> bytes) list \<Rightarrow> (bytes \<times> bytes) list" where
  "sort_params ps = foldr insert_key ps []"

text \<open>The parameters in the order in which they are written.\<close>

definition known_params :: "dsn_env \<Rightarrow> Config \<Rightarrow> (bytes \<times> bytes) list" where
  "known_params env cf =
     flag_param ''allowAllFiles'' False (cAllowAllFiles cf) @
     flag_param ''allowCleartextPasswords'' False (cAllowCleartextPasswords cf) @
     flag_param ''allowFallbackToPlaintext'' False (cAllowFallbackToPlaintext cf) @
     flag_param ''allowNativePasswords'' True (cAllowNativePasswords cf) @
     flag_param ''allowOldPasswords'' False (cAllowOldPasswords cf) @
     flag_param ''checkConnLiveness'' True (cCheckConnLiveness cf) @
     flag_param ''clientFoundRows'' False (cClientFoundRows cf) @
     text_param ''collation'' (cCollation cf) (cCollation cf \<noteq> []) @
     flag_param ''columnsWithAlias'' False (cColumnsWithAlias cf) @
     flag_param ''interpolateParams'' False (cInterpolateParams cf) @
     (case cLoc cf of None \<Rightarrow> [] | Some l \<Rightarrow> text_param ''loc'' (QueryEscape l) (l \<noteq> str ''UTC'')) @
     flag_param ''multiStatements'' False (cMultiStatements cf) @
     flag_param ''parseTime'' False (cParseTime cf) @
     text_param ''readTimeout'' (durationText env (cReadTimeout cf)) (0 < cReadTimeout cf) @
     flag_param ''rejectReadOnly'' False (cRejectReadOnly cf) @
     text_param ''serverPubKey'' (QueryEscape (cServerPubKey cf)) (cServerPubKey cf \<noteq> []) @
     text_param ''timeout'' (durationText env (cTimeout cf)) (0 < cTimeout cf) @
     text_param ''tls'' (QueryEscape (cTLSConfig cf)) (cTLSConfig cf \<noteq> []) @
     text_param ''writeTimeout'' (durationText env (cWriteTimeout cf)) (0 < cWriteTimeout cf) @
     text_param ''maxAllowedPacket'' (itoa (cMaxAllowedPacket cf)) (cMaxAllowedPacket cf \<noteq> defaultMaxAllowedPacket)"

definition format_left :: "Config \<Rightarrow> bytes" where
  "format_left cf =
     (if cUser cf \<noteq> []
      then cUser cf @ (if cPasswd cf \<noteq> [] then 0x3a # cPasswd cf else []) @ [0x40] else []) @
     (if cNet cf \<noteq> []
      then cNet cf @ (if cAddr cf \<noteq> [] then [0x28] @ cAddr cf @ [0x29] else []) else [])"

definition FormatDSN :: "dsn_env \<Rightarrow> Config \<Rightarrow> bytes" where
  "FormatDSN env cf =
     fst (foldl writeDSNParam (format_left cf @ [0x2f] @ PathEscape (cDBName cf), False)
       (known_params env cf @ map (\<lambda>(k, v). (k, QueryEscape v)) (sort_params (cParams cf))))"

section \<open>\<open>ParseDSN\<close>\<close>

definition bool_param :: "bytes \<Rightarrow> (bool \<Rightarrow> Config) \<Rightarrow> (error + Config) option" where
  "bool_param v set_it = (case readBool v of
     Some b \<Rightarrow> Some (Inr (set_it b)) | None \<Rightarrow> Some (Inl (FmtError ''invalid bool value'')))"

definition tls_param :: "bytes \<Rightarrow> error + bytes" where
  "tls_param v = (case readBool v of
     Some b \<Rightarrow> Inr (if b then str ''true'' else str ''false'')
   | None \<Rightarrow>
       if lower v = str ''skip-verify'' \<or> lower v = str ''preferred'' then Inr (lower v)
       else case QueryUnescape v of
           Inl e \<Rightarrow> Inl (FmtError ''invalid value for TLS config name'') | Inr n \<Rightarrow> Inr n)"

text \<open>\<open>strconv.Atoi\<close>.\<close>

definition Atoi :: "bytes \<Rightarrow> error + int" where
  "Atoi s = parseInt 64 s"

fun set_key :: "bytes \<Rightarrow> bytes \<Rightarrow> (bytes \<times> bytes) list \<Rightarrow> (bytes \<times> bytes) list" where
  "set_key k v [] = [(k, v)]"
| "set_key k v (p # ps) = (if fst p = k then (k, v) # ps else p # set_key k v ps)"

text \<open>One parameter; \<open>strict\<close> panics.\<close>

definition set_param :: "dsn_env \<Rightarrow> bytes \<Rightarrow> bytes \<Rightarrow> Config \<Rightarrow> (error + Config) option" where
  "set_param env p v cf =
     (if p = str ''allowAllFiles'' then bool_param v (\<lambda>b. cf\<lparr>cAllowAllFiles := b\<rparr>)
      else if p = str ''allowCleartextPasswords'' then bool_param v (\<lambda>b. cf\<lparr>cAllowCleartextPasswords := b\<rparr>)
      else if p = str ''allowFallbackToPlaintext'' then bool_param v (\<lambda>b. cf\<lparr>cAllowFallbackToPlaintext := b\<rparr>)
      else if p = str ''allowNativePasswords'' then bool_param v (\<lambda>b. cf\<lparr>cAllowNativePasswords := b\<rparr>)
      else if p = str ''allowOldPasswords'' then bool_param v (\<lambda>b. cf\<lparr>cAllowOldPasswords := b\<rparr>)
      else if p = str ''checkConnLiveness'' then bool_param v (\<lambda>b. cf\<lparr>cCheckConnLiveness := b\<rparr>)
      else if p = str ''clientFoundRows'' then bool_param v (\<lambda>b. cf\<lparr>cClientFoundRows := b\<rparr>)
      else if p = str ''collation'' then Some (Inr (cf\<lparr>cCollation := v\<rparr>))
      else if p = str ''columnsWithAlias'' then bool_param v (\<lambda>b. cf\<lparr>cColumnsWithAlias := b\<rparr>)
      else if p = str ''compress'' then Some (Inl (FmtError ''compression not implemented yet''))
      else if p = str ''interpolateParams'' then bool_param v (\<lambda>b. cf\<lparr>cInterpolateParams := b\<rparr>)
      else if p = str ''loc''
      then Some (onOk (QueryUnescape v) (\<lambda>n. onOk (loadLocation env n) (\<lambda>l. Inr (cf\<lparr>cLoc := Some l\<rparr>))))
      else if p = str ''multiStatements'' then bool_param v (\<lambda>b. cf\<lparr>cMultiStatements := b\<rparr>)
      else if p = str ''parseTime'' then bool_param v (\<lambda>b. cf\<lparr>cParseTime := b\<rparr>)
      else if p = str ''readTimeout'' then Some (onOk (parseDuration env v) (\<lambda>d. Inr (cf\<lparr>cReadTimeout := d\<rparr>)))
      else if p = str ''rejectReadOnly'' then bool_param v (\<lambda>b. cf\<lparr>cRejectReadOnly := b\<rparr>)
      else if p = str ''serverPubKey''
      then Some (case QueryUnescape v of
          Inl e \<Rightarrow> Inl (FmtError ''invalid value for server pub key name'') | Inr n \<Rightarrow> Inr (cf\<lparr>cServerPubKey := n\<rparr>))
      else if p = str ''strict'' then None
      else if p = str ''timeout'' then Some (onOk (parseDuration env v) (\<lambda>d. Inr (cf\<lparr>cTimeout := d\<rparr>)))
      else if p = str ''tls'' then Some (onOk (tls_param v) (\<lambda>t. Inr (cf\<lparr>cTLSConfig := t\<rparr>)))
      else if p = str ''writeTimeout'' then Some (onOk (parseDuration env v) (\<lambda>d. Inr (cf\<lparr>cWriteTimeout := d\<rparr>)))
      else if p = str ''maxAllowedPacket'' then Some (onOk (Atoi v) (\<lambda>n. Inr (cf\<lparr>cMaxAllowedPacket := n\<rparr>)))
      else if p = str ''connectionAttributes'' then Some (Inr (cf\<lparr>cAttributes := v\<rparr>))
      else Some (onOk (QueryUnescape v) (\<lambda>x. Inr (cf\<lparr>cParams := set_key p x (cParams cf)\<rparr>))))"

text \<open>A part without an equals sign is skipped.\<close>

fun params_from :: "dsn_env \<Rightarrow> bytes list \<Rightarrow> Config \<Rightarrow> (error + Config) option" where
  "params_from env [] cf = Some (Inr cf)"
| "params_from env (v # vs) cf =
     (case find_sub [0x3d] v of
        None \<Rightarrow> params_from env vs cf
      | Some k \<Rightarrow> andThen (set_param env (take k v) (drop (k + 1) v) cf) (params_from env vs))"

definition parseDSNParams :: "dsn_env \<Rightarrow> bytes \<Rightarrow> Config \<Rightarrow> (error + Config) option" where
  "parseDSNParams env params cf = params_from env (split_byte 0x26 params) cf"

definition errInvalidDSNUnescaped :: error where
  "errInvalidDSNUnescaped = FmtError ''invalid DSN: did you forget to escape a param value?''"
definition errInvalidDSNAddr :: error where
  "errInvalidDSNAddr = FmtError ''invalid DSN: network address not terminated (missing closing brace)''"
definition errInvalidDSNNoSlash :: error where
  "errInvalidDSNNoSlash = FmtError ''invalid DSN: missing the slash separating the database name''"

text \<open>The part before the slash: user and password before the last at sign, then the network.\<close>

definition parse_user :: "bytes \<Rightarrow> Config \<Rightarrow> Config" where
  "parse_user up cf = (case find_sub [0x3a] up of
     Some k \<Rightarrow> cf\<lparr>cPasswd := drop (k + 1) up, cUser := take k up\<rparr>
   | None \<Rightarrow> cf\<lparr>cUser := up\<rparr>)"

definition parse_net :: "bytes \<Rightarrow> Config \<Rightarrow> error + Config" where
  "parse_net s cf = (case find_sub [0x28] s of
     None \<Rightarrow> Inr (cf\<lparr>cNet := s\<rparr>)
   | Some k \<Rightarrow>
       if last s \<noteq> 0x29
       then Inl (if 0x29 \<in> set (drop (k + 1) s) then errInvalidDSNUnescaped else errInvalidDSNAddr)
       else Inr (cf\<lparr>cAddr := butlast (drop (k + 1) s), cNet := take k s\<rparr>))"

definition parse_left :: "bytes \<Rightarrow> Config \<Rightarrow> error + Config" where
  "parse_left s cf =
     (if s = [] then Inr cf
      else case last_byte 0x40 s of
          None \<Rightarrow> parse_net s cf
        | Some j \<Rightarrow> parse_net (drop (j + 1) s) (parse_user (take j s) cf))"

text \<open>The part behind the slash.\<close>

definition parse_right :: "dsn_env \<Rightarrow> bytes \<Rightarrow> Config \<Rightarrow> (error + Config) option" where
  "parse_right env s cf =
     (let (dbname, params) = (case find_sub [0x3f] s of
            None \<Rightarrow> (s, None) | Some j \<Rightarrow> (take j s, Some (drop (j + 1) s)))
      in andThen (case params of None \<Rightarrow> Some (Inr cf) | Some ps \<Rightarrow> parseDSNParams env ps cf) (\<lambda>c.
           Some (case PathUnescape dbname of
               Inl e \<Rightarrow> Inl (FmtError ''invalid dbname'')
             | Inr n \<Rightarrow> Inr (c\<lparr>cDBName := n\<rparr>))))"

definition ParseDSN :: "dsn_env \<Rightarrow> bytes \<Rightarrow> (error + Config) option" where
  "ParseDSN env dsn =
     andThen (case last_byte 0x2f dsn of
         None \<Rightarrow> Some (if dsn \<noteq> [] then Inl errInvalidDSNNoSlash else Inr NewConfig)
       | Some i \<Rightarrow> andThen (Some (parse_left (take i dsn) NewConfig)) (parse_right env (drop (i + 1) dsn)))
     (\<lambda>cf. Some (normalize env cf))"

end
