(* ===== verification/DsnProps.thy ===== *)
theory DsnProps
  imports Dsn
begin

text \<open>
  What data source names promise: a configuration that has been written is read back, and a
  default port is added to an address.
\<close>

section \<open>Numbers\<close>

lemma uint_loop_snoc:
  "uint_loop lim a (xs @ [d]) = onOk (uint_loop lim a xs) (\<lambda>m. uint_loop lim m [d])"
  by (induction xs arbitrary: a) (auto simp: Let_def)

lemma ascii_digit:
  assumes "k < 10"
  shows "\<not> (of_nat (48 + k) :: byte) < 0x30" "\<not> 0x39 < (of_nat (48 + k) :: byte)" "uint (of_nat (48 + k) - 0x30 :: byte) = int k"
proof -
  have "unat (of_nat (48 + k) :: byte) = 48 + k"
    using assms by (simp only: unsigned_of_nat) (simp add: take_bit_nat_eq_self)
  moreover have "unat (of_nat k :: byte) = k" using assms by (simp add: unsigned_of_nat take_bit_nat_eq_self)
  ultimately show "\<not> (of_nat (48 + k) :: byte) < 0x30" "\<not> 0x39 < (of_nat (48 + k) :: byte)"
    "uint (of_nat (48 + k) - 0x30 :: byte) = int k"
    using assms by (simp_all add: word_less_nat_alt uint_nat del: unsigned_of_nat)
qed

lemma uint_loop_digits: "int n \<le> lim \<Longrightarrow> uint_loop lim 0 (digits_of n) = Inr (int n)"
proof (induction n rule: digits_of.induct)
  case (1 n)
  show ?case
  proof (cases "n < 10")
    case True
    then show ?thesis using 1(2) ascii_digit [of n] by (simp add: digits_of.simps Let_def)
  next
    case False
    have "uint_loop lim 0 (digits_of (n div 10)) = Inr (int (n div 10))"
      using 1 False by simp
    moreover have "int (n div 10) * 10 + int (n mod 10) = int n"
      by (metis of_nat_add of_nat_mult of_nat_numeral div_mult_mod_eq)
    ultimately show ?thesis
      using 1(2) False ascii_digit [of "n mod 10"]
      by (subst digits_of.simps) (simp add: uint_loop_snoc Let_def)
  qed
qed

lemma digits_bytes: "c \<in> set (digits_of n) \<Longrightarrow> 0x30 \<le> c \<and> c \<le> 0x39"
proof (induction n rule: digits_of.induct)
  case (1 n)
  then show ?case using ascii_digit [of n] ascii_digit [of "n mod 10"]
    by (subst (asm) (2) digits_of.simps) (auto simp: not_less split: if_splits)
qed

lemma digits_nonempty [simp]: "digits_of n \<noteq> []"
  by (subst digits_of.simps) simp

lemma Atoi_itoa:
  assumes "- (2 ^ 63) \<le> n" and "n < 2 ^ 63"
  shows "Atoi (itoa n) = Inr n"
proof (cases "n < 0")
  case True
  then have "uint_loop (2 ^ 64 - 1) 0 (digits_of (nat (- n))) = Inr (- n)"
    using uint_loop_digits [of "nat (- n)" "2 ^ 64 - 1"] assms by simp
  then show ?thesis using True assms
    by (simp add: Atoi_def parseInt_def itoa_def str_def parseUint_def)
next
  case False
  then have "uint_loop (2 ^ 64 - 1) 0 (digits_of (nat n)) = Inr n"
    using uint_loop_digits [of "nat n" "2 ^ 64 - 1"] assms by simp
  moreover have "hd (digits_of (nat n)) \<noteq> 0x2d" "hd (digits_of (nat n)) \<noteq> 0x2b"
    using digits_bytes [of "hd (digits_of (nat n))" "nat n"] by auto
  ultimately show ?thesis using False assms
    by (simp add: Atoi_def parseInt_def itoa_def parseUint_def)
qed

section \<open>The parameters as text\<close>

definition param_text :: "bytes \<times> bytes \<Rightarrow> bytes" where
  "param_text p = fst p @ 0x3d # snd p"

fun amp_join :: "bytes list \<Rightarrow> bytes" where
  "amp_join [] = []"
| "amp_join [x] = x"
| "amp_join (x # xs) = x @ 0x26 # amp_join xs"

definition query_text :: "(bytes \<times> bytes) list \<Rightarrow> bytes" where
  "query_text ps = (if ps = [] then [] else 0x3f # amp_join (map param_text ps))"

lemma write_params_more:
  "foldl writeDSNParam (b, True) ps = (b @ concat (map (\<lambda>p. 0x26 # param_text p) ps), True)"
  by (induction ps arbitrary: b) (auto simp: writeDSNParam_def param_text_def)

lemma amp_join_concat: "amp_join (x # xs) = x @ concat (map ((#) 0x26) xs)"
  by (induction xs arbitrary: x) auto

lemma write_params: "fst (foldl writeDSNParam (b, False) ps) = b @ query_text ps"
  by (cases ps)
    (auto simp: query_text_def amp_join_concat writeDSNParam_def write_params_more param_text_def comp_def)

lemma split_head: "d \<notin> set x \<Longrightarrow> split_byte d x = [x]"
  "d \<notin> set x \<Longrightarrow> split_byte d (x @ d # y) = x # split_byte d y"
  by (induction x) auto

lemma split_join: "xs \<noteq> [] \<Longrightarrow> \<forall>x \<in> set xs. 0x26 \<notin> set x \<Longrightarrow> split_byte 0x26 (amp_join xs) = xs"
  by (induction xs rule: amp_join.induct) (auto simp: split_head)

fun set_all :: "dsn_env \<Rightarrow> (bytes \<times> bytes) list \<Rightarrow> Config \<Rightarrow> (error + Config) option" where
  "set_all env [] c = Some (Inr c)"
| "set_all env (p # ps) c = andThen (set_param env (fst p) (snd p) c) (set_all env ps)"

lemma set_all_append: "set_all env (ps @ qs) c = andThen (set_all env ps c) (set_all env qs)"
proof (induction ps arbitrary: c)
  case (Cons p ps)
  then show ?case
    by (cases "set_param env (fst p) (snd p) c"; cases "the (set_param env (fst p) (snd p) c)") auto
qed simp

text \<open>A parameter whose name and value do not disturb the text around it.\<close>

definition clean_param :: "bytes \<times> bytes \<Rightarrow> bool" where
  "clean_param p \<longleftrightarrow> set (fst p) \<inter> {0x2f, 0x26, 0x3d} = {} \<and> set (snd p) \<inter> {0x2f, 0x26} = {}"

lemma params_from_texts:
  "list_all clean_param ps \<Longrightarrow> params_from env (map param_text ps) c = set_all env ps c"
proof (induction ps arbitrary: c)
  case (Cons p ps)
  then have "find_sub [0x3d] (param_text p) = Some (length (fst p))"
    using find_byte(2) [where d = "0x3d" and s = "fst p" and r = "snd p"] by (simp add: param_text_def clean_param_def)
  moreover have "params_from env (map param_text ps) = set_all env ps"
    using Cons by (auto simp: fun_eq_iff)
  ultimately show ?case by (simp add: param_text_def [of p])
qed simp

lemma query_text_clean: "list_all clean_param ps \<Longrightarrow> 0x2f \<notin> set (query_text ps)"
proof (induction ps)
  case (Cons p ps)
  then show ?case
    by (cases ps) (auto simp: query_text_def param_text_def clean_param_def)
qed (simp add: query_text_def)

lemma parseDSNParams_texts:
  assumes "list_all clean_param ps" and "ps \<noteq> []"
  shows "parseDSNParams env (amp_join (map param_text ps)) c = set_all env ps c"
proof -
  have "\<forall>x \<in> set (map param_text ps). 0x26 \<notin> set x"
    using assms(1) by (auto simp: list_all_iff clean_param_def param_text_def)
  then show ?thesis using assms params_from_texts split_join [of "map param_text ps"]
    by (simp add: parseDSNParams_def)
qed

section \<open>The known parameters\<close>

lemma readBool_literals:
  "readBool (str ''true'') = Some True" "readBool (str ''false'') = Some False"
  by (simp_all add: readBool_def str_eq_iff)

lemmas set_simps = set_param_def bool_param_def readBool_literals str_eq_iff

lemma set_flags:
  "cAllowAllFiles c = False \<Longrightarrow> set_all env (flag_param ''allowAllFiles'' False b) c = Some (Inr (c\<lparr>cAllowAllFiles := b\<rparr>))"
  "cAllowCleartextPasswords c = False \<Longrightarrow>
     set_all env (flag_param ''allowCleartextPasswords'' False b) c = Some (Inr (c\<lparr>cAllowCleartextPasswords := b\<rparr>))"
  "cAllowFallbackToPlaintext c = False \<Longrightarrow>
     set_all env (flag_param ''allowFallbackToPlaintext'' False b) c = Some (Inr (c\<lparr>cAllowFallbackToPlaintext := b\<rparr>))"
  "cAllowNativePasswords c = True \<Longrightarrow>
     set_all env (flag_param ''allowNativePasswords'' True b) c = Some (Inr (c\<lparr>cAllowNativePasswords := b\<rparr>))"
  "cAllowOldPasswords c = False \<Longrightarrow>
     set_all env (flag_param ''allowOldPasswords'' False b) c = Some (Inr (c\<lparr>cAllowOldPasswords := b\<rparr>))"
  "cCheckConnLiveness c = True \<Longrightarrow>
     set_all env (flag_param ''checkConnLiveness'' True b) c = Some (Inr (c\<lparr>cCheckConnLiveness := b\<rparr>))"
  "cClientFoundRows c = False \<Longrightarrow>
     set_all env (flag_param ''clientFoundRows'' False b) c = Some (Inr (c\<lparr>cClientFoundRows := b\<rparr>))"
  "cColumnsWithAlias c = False \<Longrightarrow>
     set_all env (flag_param ''columnsWithAlias'' False b) c = Some (Inr (c\<lparr>cColumnsWithAlias := b\<rparr>))"
  "cInterpolateParams c = False \<Longrightarrow>
     set_all env (flag_param ''interpolateParams'' False b) c = Some (Inr (c\<lparr>cInterpolateParams := b\<rparr>))"
  "cMultiStatements c = False \<Longrightarrow>
     set_all env (flag_param ''multiStatements'' False b) c = Some (Inr (c\<lparr>cMultiStatements := b\<rparr>))"
  "cParseTime c = False \<Longrightarrow> set_all env (flag_param ''parseTime'' False b) c = Some (Inr (c\<lparr>cParseTime := b\<rparr>))"
  "cRejectReadOnly c = False \<Longrightarrow>
     set_all env (flag_param ''rejectReadOnly'' False b) c = Some (Inr (c\<lparr>cRejectReadOnly := b\<rparr>))"
  by (cases b; cases c; simp add: flag_param_def set_simps)+

text \<open>The values that are read back as they are.\<close>

definition duration_ok :: "dsn_env \<Rightarrow> int \<Rightarrow> bool" where
  "duration_ok env d \<longleftrightarrow> 0 \<le> d \<and> (0 < d \<longrightarrow> parseDuration env (durationText env d) = Inr d \<and>
     set (durationText env d) \<inter> {0x2f, 0x26} = {})"

definition location_ok :: "dsn_env \<Rightarrow> bytes option \<Rightarrow> bool" where
  "location_ok env l \<longleftrightarrow> (\<exists>n. l = Some n \<and> (n \<noteq> str ''UTC'' \<longrightarrow> loadLocation env n = Inr n))"

definition tls_ok :: "bytes \<Rightarrow> bool" where
  "tls_ok t \<longleftrightarrow> (readBool t \<noteq> None \<longrightarrow> t \<in> {str ''true'', str ''false''}) \<and>
     (lower t \<in> {str ''skip-verify'', str ''preferred''} \<longrightarrow> lower t = t)"

lemma in_take_drop: "c \<in> set r \<Longrightarrow> c \<in> set (take n r) \<or> c \<in> set (drop n r)"
  by (metis Un_iff append_take_drop_id set_append)

lemma lower_plain: "lower s = str lit \<Longrightarrow> 0x25 \<notin> set (str lit) \<Longrightarrow> 0x2b \<notin> set (str lit) \<Longrightarrow> 0x25 \<notin> set s \<and> 0x2b \<notin> set s"
proof -
  have "c \<in> set s \<Longrightarrow> c = 0x25 \<or> c = 0x2b \<Longrightarrow> c \<in> set (lower s)" for c
  proof (induction s rule: lower.induct)
    case (2 d r)
    then show ?case using in_take_drop [of c r 1] in_take_drop [of c r 2] by (auto split: if_splits)
  qed simp
  then show "lower s = str lit \<Longrightarrow> 0x25 \<notin> set (str lit) \<Longrightarrow> 0x2b \<notin> set (str lit) \<Longrightarrow> 0x25 \<notin> set s \<and> 0x2b \<notin> set s"
    by metis
qed

lemma tls_back:
  assumes "tls_ok t"
  shows "tls_param (QueryEscape t) = Inr t"
proof -
  let ?e = "QueryEscape t"
  have u: "QueryUnescape ?e = Inr t" by (simp add: QueryEscape_def QueryUnescape_def unescape_escape)
  have same: "?e = t" if "readBool ?e \<noteq> None \<or> lower ?e \<in> {str ''skip-verify'', str ''preferred''}"
  proof -
    have "0x25 \<notin> set ?e \<and> 0x2b \<notin> set ?e"
    proof (cases "readBool ?e")
      case None
      with that show ?thesis
        using lower_plain [of ?e "''skip-verify''"] lower_plain [of ?e "''preferred''"] by (auto simp: str_def)
    next
      case (Some b)
      then show ?thesis by (auto simp: readBool_def str_def split: if_splits)
    qed
    then show ?thesis using escape_plain [of True t] by (simp add: QueryEscape_def)
  qed
  show ?thesis
  proof (cases "readBool ?e")
    case None
    show ?thesis
    proof (cases "lower ?e \<in> {str ''skip-verify'', str ''preferred''}")
      case True
      then show ?thesis using None same assms by (auto simp: tls_param_def tls_ok_def)
    next
      case False
      then show ?thesis using None u by (auto simp: tls_param_def)
    qed
  next
    case (Some b)
    then have "?e = t" "t \<in> {str ''true'', str ''false''}" using same assms by (auto simp: tls_ok_def)
    with Some show ?thesis
      by (auto simp: tls_param_def readBool_literals)
  qed
qed

lemma set_text:
  assumes "present \<Longrightarrow> set_param env (str name) v c = Some (Inr c')" and "\<not> present \<Longrightarrow> c' = c"
  shows "set_all env (text_param name v present) c = Some (Inr c')"
  using assms by (cases present) (simp_all add: text_param_def)

lemma set_texts:
  "cCollation c = [] \<Longrightarrow> set_all env (text_param ''collation'' v (v \<noteq> [])) c = Some (Inr (c\<lparr>cCollation := v\<rparr>))"
  "cReadTimeout c = 0 \<Longrightarrow> duration_ok env d \<Longrightarrow>
     set_all env (text_param ''readTimeout'' (durationText env d) (0 < d)) c = Some (Inr (c\<lparr>cReadTimeout := d\<rparr>))"
  "cTimeout c = 0 \<Longrightarrow> duration_ok env d \<Longrightarrow>
     set_all env (text_param ''timeout'' (durationText env d) (0 < d)) c = Some (Inr (c\<lparr>cTimeout := d\<rparr>))"
  "cWriteTimeout c = 0 \<Longrightarrow> duration_ok env d \<Longrightarrow>
     set_all env (text_param ''writeTimeout'' (durationText env d) (0 < d)) c = Some (Inr (c\<lparr>cWriteTimeout := d\<rparr>))"
  "cServerPubKey c = [] \<Longrightarrow>
     set_all env (text_param ''serverPubKey'' (QueryEscape v) (v \<noteq> [])) c = Some (Inr (c\<lparr>cServerPubKey := v\<rparr>))"
  "cTLSConfig c = [] \<Longrightarrow> tls_ok v \<Longrightarrow>
     set_all env (text_param ''tls'' (QueryEscape v) (v \<noteq> [])) c = Some (Inr (c\<lparr>cTLSConfig := v\<rparr>))"
  "cMaxAllowedPacket c = defaultMaxAllowedPacket \<Longrightarrow> - (2 ^ 63) \<le> n \<Longrightarrow> n < 2 ^ 63 \<Longrightarrow>
     set_all env (text_param ''maxAllowedPacket'' (itoa n) (n \<noteq> defaultMaxAllowedPacket)) c =
       Some (Inr (c\<lparr>cMaxAllowedPacket := n\<rparr>))"
  "cLoc c = Some (str ''UTC'') \<Longrightarrow> location_ok env l \<Longrightarrow>
     set_all env (case l of None \<Rightarrow> [] | Some n \<Rightarrow> text_param ''loc'' (QueryEscape n) (n \<noteq> str ''UTC'')) c =
       Some (Inr (c\<lparr>cLoc := l\<rparr>))"
  apply (rule set_text; cases c; simp add: set_simps)
  apply (rule set_text; cases c; simp add: set_simps duration_ok_def)
  apply (rule set_text; cases c; simp add: set_simps duration_ok_def)
  apply (rule set_text; cases c; simp add: set_simps duration_ok_def)
  apply (rule set_text; cases c; simp add: set_simps QueryEscape_def QueryUnescape_def unescape_escape)
  apply (rule set_text; cases c; simp add: set_simps tls_back)
  apply (rule set_text; cases c; simp add: set_simps Atoi_itoa)
  apply (cases l; simp add: location_ok_def)
  apply (rule set_text; cases c; simp add: set_simps QueryEscape_def QueryUnescape_def unescape_escape)
  done

definition values_ok :: "dsn_env \<Rightarrow> Config \<Rightarrow> bool" where
  "values_ok env cf \<longleftrightarrow> location_ok env (cLoc cf) \<and> duration_ok env (cReadTimeout cf) \<and> duration_ok env (cTimeout cf) \<and>
     duration_ok env (cWriteTimeout cf) \<and> tls_ok (cTLSConfig cf) \<and> - (2 ^ 63) \<le> cMaxAllowedPacket cf \<and>
     cMaxAllowedPacket cf < 2 ^ 63 \<and> set (cCollation cf) \<inter> {0x2f, 0x26} = {}"

lemma set_known:
  assumes "values_ok env cf"
  shows "set_all env (known_params env cf) (NewConfig\<lparr>cUser := u, cPasswd := pw, cNet := n, cAddr := a\<rparr>) =
    Some (Inr (cf\<lparr>cUser := u, cPasswd := pw, cNet := n, cAddr := a, cDBName := [], cParams := [], cAttributes := [],
      cPubKey := None, cTLS := None\<rparr>))"
  using assms
  by (simp add: known_params_def set_all_append NewConfig_def set_flags set_texts values_ok_def)

section \<open>The other parameters\<close>

definition known_names :: "bytes list" where
  "known_names = map str [''allowAllFiles'', ''allowCleartextPasswords'', ''allowFallbackToPlaintext'',
     ''allowNativePasswords'', ''allowOldPasswords'', ''checkConnLiveness'', ''clientFoundRows'', ''collation'',
     ''columnsWithAlias'', ''compress'', ''interpolateParams'', ''loc'', ''multiStatements'', ''parseTime'',
     ''readTimeout'', ''rejectReadOnly'', ''serverPubKey'', ''strict'', ''timeout'', ''tls'', ''writeTimeout'',
     ''maxAllowedPacket'', ''connectionAttributes'']"

lemma set_other:
  "p \<notin> set known_names \<Longrightarrow> set_param env p (QueryEscape v) c = Some (Inr (c\<lparr>cParams := set_key p v (cParams c)\<rparr>))"
  by (simp add: known_names_def set_param_def QueryEscape_def QueryUnescape_def unescape_escape)

lemma set_key_new: "k \<notin> fst ` set ps \<Longrightarrow> set_key k v ps = ps @ [(k, v)]"
  by (induction ps) auto

lemma set_others:
  "fst ` set ps \<inter> set known_names = {} \<Longrightarrow> distinct (map fst (cParams c @ ps)) \<Longrightarrow>
     set_all env (map (\<lambda>(k, v). (k, QueryEscape v)) ps) c = Some (Inr (c\<lparr>cParams := cParams c @ ps\<rparr>))"
proof (induction ps arbitrary: c)
  case Nil
  then show ?case by (cases c) simp
next
  case (Cons p ps)
  obtain k v where p: "p = (k, v)" by (cases p)
  then have "set_key k v (cParams c) = cParams c @ [(k, v)]" "k \<notin> set known_names"
    using Cons.prems by (auto intro: set_key_new)
  then show ?case using Cons p by (simp add: set_other)
qed

lemma insert_key_set: "set (insert_key p qs) = insert p (set qs)" "length (insert_key p qs) = Suc (length qs)"
  by (induction qs) auto

lemma sort_params_set: "set (sort_params ps) = set ps" "length (sort_params ps) = length ps"
  by (induction ps) (auto simp: sort_params_def insert_key_set)

lemma sort_params_distinct: "distinct (map fst ps) \<Longrightarrow> distinct (map fst (sort_params ps))"
  by (metis sort_params_set card_distinct distinct_card length_map list.set_map)

section \<open>Nothing disturbs the separators\<close>

lemma clean_texts:
  "list_all clean_param (flag_param name d b) \<longleftrightarrow> b = d \<or> set (str name) \<inter> {0x2f, 0x26, 0x3d} = {}"
  "list_all clean_param (text_param name v present) \<longleftrightarrow>
     \<not> present \<or> set (str name) \<inter> {0x2f, 0x26, 0x3d} = {} \<and> set v \<inter> {0x2f, 0x26} = {}"
  by (auto simp: flag_param_def text_param_def clean_param_def str_def)

lemma query_clean: "set (QueryEscape v) \<inter> {0x2f, 0x26} = {}"
  using escape_kept [of "0x2f" True v] escape_kept [of "0x26" True v]
  by (auto simp: QueryEscape_def kept_def unreserved_def)

lemma itoa_clean: "set (itoa n) \<inter> {0x2f, 0x26} = {}"
  using digits_bytes [of "0x2f"] digits_bytes [of "0x26"] by (auto simp: itoa_def str_def)

lemma known_clean: "values_ok env cf \<Longrightarrow> list_all clean_param (known_params env cf)"
  by (simp add: known_params_def clean_texts query_clean itoa_clean values_ok_def duration_ok_def split: option.split)
    (simp add: str_def)

section \<open>User, network and address\<close>

text \<open>
  The name has no colon, the network no opening bracket, and neither network nor address an at
  sign; a password needs a user, an address a network.  The password may hold anything.
\<close>

definition left_ok :: "Config \<Rightarrow> bool" where
  "left_ok cf \<longleftrightarrow> 0x3a \<notin> set (cUser cf) \<and> (cUser cf = [] \<longrightarrow> cPasswd cf = []) \<and> 0x28 \<notin> set (cNet cf) \<and>
     0x40 \<notin> set (cNet cf) \<union> set (cAddr cf) \<and> (cNet cf = [] \<longrightarrow> cAddr cf = [])"

definition net_text :: "Config \<Rightarrow> bytes" where
  "net_text cf = (if cNet cf \<noteq> []
     then cNet cf @ (if cAddr cf \<noteq> [] then [0x28] @ cAddr cf @ [0x29] else []) else [])"

lemma parse_net_text:
  assumes "left_ok cf" and "cNet c = []" and "cAddr c = []"
  shows "parse_net (net_text cf) c = Inr (c\<lparr>cNet := cNet cf, cAddr := cAddr cf\<rparr>)"
proof (cases "cAddr cf = []")
  case True
  then show ?thesis using assms find_byte(1) [of "0x28" "cNet cf"]
    by (cases c) (auto simp: parse_net_def net_text_def left_ok_def)
next
  case False
  then have "net_text cf = cNet cf @ 0x28 # cAddr cf @ [0x29]"
    "find_sub [0x28] (cNet cf @ 0x28 # cAddr cf @ [0x29]) = Some (length (cNet cf))"
    using assms find_byte(2) [where d = "0x28" and s = "cNet cf" and r = "cAddr cf @ [0x29]"]
    by (auto simp: net_text_def left_ok_def)
  then show ?thesis by (simp add: parse_net_def butlast_append)
qed

lemma parse_left_text:
  assumes "left_ok cf"
  shows "parse_left (format_left cf) NewConfig =
    Inr (NewConfig\<lparr>cUser := cUser cf, cPasswd := cPasswd cf, cNet := cNet cf, cAddr := cAddr cf\<rparr>)"
proof -
  have n: "format_left cf = (if cUser cf \<noteq> []
      then cUser cf @ (if cPasswd cf \<noteq> [] then 0x3a # cPasswd cf else []) @ [0x40] else []) @ net_text cf"
    by (simp add: format_left_def net_text_def)
  have at: "0x40 \<notin> set (net_text cf)" using assms by (auto simp: net_text_def left_ok_def)
  have new: "cNet NewConfig = []" "cAddr NewConfig = []" "cUser NewConfig = []" "cPasswd NewConfig = []"
    by (simp_all add: NewConfig_def)
  show ?thesis
  proof (cases "cUser cf = []")
    case True
    then have "cPasswd cf = []" "format_left cf = net_text cf" using assms n by (auto simp: left_ok_def)
    then show ?thesis
      using True at last_byte(1) [OF at] parse_net_text [OF assms new(1,2)] assms
      by (auto simp: parse_left_def NewConfig_def net_text_def left_ok_def)
  next
    case False
    define up where "up = cUser cf @ (if cPasswd cf \<noteq> [] then 0x3a # cPasswd cf else [])"
    have f: "format_left cf = up @ 0x40 # net_text cf" using False n by (simp add: up_def)
    have "parse_user up NewConfig = NewConfig\<lparr>cUser := cUser cf, cPasswd := cPasswd cf\<rparr>"
      using assms find_byte(1) [of "0x3a" "cUser cf"]
        find_byte(2) [where d = "0x3a" and s = "cUser cf" and r = "cPasswd cf"]
      by (auto simp: up_def parse_user_def left_ok_def NewConfig_def)
    then show ?thesis
      using f last_byte(2) [OF at, of up] parse_net_text [OF assms, of "parse_user up NewConfig"] new
      by (simp add: parse_left_def)
  qed
qed

section \<open>Properties\<close>

definition dsn_ok :: "dsn_env \<Rightarrow> Config \<Rightarrow> bool" where
  "dsn_ok env cf \<longleftrightarrow> left_ok cf \<and> values_ok env cf \<and> distinct (map fst (cParams cf)) \<and>
     (\<forall>k \<in> fst ` set (cParams cf). k \<notin> set known_names \<and> set k \<inter> {0x2f, 0x26, 0x3d} = {})"

lemma parse_right_text:
  assumes "list_all clean_param ps" and "set_all env ps c = Some (Inr c')"
  shows "parse_right env (PathEscape db @ query_text ps) c = Some (Inr (c'\<lparr>cDBName := db\<rparr>))"
proof -
  have q: "0x3f \<notin> set (PathEscape db)"
    using escape_kept [of "0x3f" False db] by (auto simp: PathEscape_def kept_def unreserved_def)
  have un: "PathUnescape (PathEscape db) = Inr db" by (simp add: PathUnescape_def PathEscape_def unescape_escape)
  show ?thesis
  proof (cases "ps = []")
    case True
    then show ?thesis using assms(2) un find_byte(1) [OF q] by (simp add: parse_right_def query_text_def)
  next
    case False
    then have "find_sub [0x3f] (PathEscape db @ query_text ps) = Some (length (PathEscape db))"
      using find_byte(2) [OF q] by (simp add: query_text_def)
    then show ?thesis using assms(2) un False parseDSNParams_texts [OF assms(1) False]
      by (simp add: parse_right_def query_text_def)
  qed
qed

text \<open>
  C33: A data source name is read back: for a configuration whose user, network and address are free of the
  characters that separate them, with a password only beside a user and an address only beside a network, whose
  collation and parameter names are plain and whose durations, time zone and TLS name the environment can read (\<open>dsn_ok\<close>),
  parsing what \<open>FormatDSN\<close> writes gives the normalised configuration with the parameters in order, for any
  password, any database name and any value of the escaped parameters.  Lost are only what the text has no place for,
  the TLS and key objects, which normalisation looks up again, and the connection attributes, which are not written.
\<close>

theorem dsn_roundtrip:
  assumes "dsn_ok env cf"
  shows "ParseDSN env (FormatDSN env cf) = Some (normalize env (cf\<lparr>cAttributes := [], cPubKey := None, cTLS := None,
    cParams := sort_params (cParams cf)\<rparr>))"
proof -
  let ?sorted = "sort_params (cParams cf)"
  define others where "others = map (\<lambda>(k, v). (k, QueryEscape v)) ?sorted"
  define ps where "ps = known_params env cf @ others"
  let ?db = "PathEscape (cDBName cf)"
  have ok: "left_ok cf" "values_ok env cf" "distinct (map fst (cParams cf))" using assms by (simp_all add: dsn_ok_def)
  have keys: "k \<notin> set known_names \<and> set k \<inter> {0x2f, 0x26, 0x3d} = {}" if "k \<in> fst ` set ?sorted" for k
    using assms that by (auto simp: dsn_ok_def sort_params_set)
  have "list_all clean_param others"
    using keys query_clean by (fastforce simp: list_all_iff others_def clean_param_def)
  then have clean: "list_all clean_param ps" using known_clean [OF ok(2)] by (simp add: ps_def)
  have db: "0x2f \<notin> set ?db"
    using escape_kept [of "0x2f" False "cDBName cf"] by (auto simp: PathEscape_def kept_def unreserved_def)
  have whole: "FormatDSN env cf = format_left cf @ 0x2f # (?db @ query_text ps)"
    by (simp add: FormatDSN_def write_params ps_def others_def del: foldl_append)
  have cut: "last_byte 0x2f (FormatDSN env cf) = Some (length (format_left cf))"
    unfolding whole by (rule last_byte(2)) (use db query_text_clean [OF clean] in auto)
  let ?c0 = "NewConfig\<lparr>cUser := cUser cf, cPasswd := cPasswd cf, cNet := cNet cf, cAddr := cAddr cf\<rparr>"
  let ?c1 = "cf\<lparr>cDBName := [], cParams := [], cAttributes := [], cPubKey := None, cTLS := None\<rparr>"
  have "set_all env (known_params env cf) ?c0 = Some (Inr ?c1)" using set_known [OF ok(2)] by simp
  moreover have "set_all env others ?c1 = Some (Inr (?c1\<lparr>cParams := ?sorted\<rparr>))"
    using set_others [of ?sorted ?c1] keys sort_params_distinct [OF ok(3)] by (auto simp: others_def)
  ultimately have all: "set_all env ps ?c0 = Some (Inr (?c1\<lparr>cParams := ?sorted\<rparr>))"
    by (simp add: ps_def set_all_append)
  have "parse_right env (?db @ query_text ps) ?c0 = Some (Inr (?c1\<lparr>cParams := ?sorted, cDBName := cDBName cf\<rparr>))"
    by (rule parse_right_text [OF clean all])
  moreover have "?c1\<lparr>cParams := ?sorted, cDBName := cDBName cf\<rparr> =
    cf\<lparr>cAttributes := [], cPubKey := None, cTLS := None, cParams := ?sorted\<rparr>" by simp
  ultimately show ?thesis
    using cut parse_left_text [OF ok(1)] by (simp add: ParseDSN_def whole)
qed

definition demo_env :: dsn_env where
  "demo_env = \<lparr>loadLocation = Inr, parseDuration = (\<lambda>s. if s = str ''30s'' then Inr (30 * 10 ^ 9) else Inl errSyntax),
     durationText = (\<lambda>_. str ''30s''), tlsRegistry = (\<lambda>_. None), keyRegistry = (\<lambda>_. None)\<rparr>"

definition demo_config :: Config where
  "demo_config = NewConfig\<lparr>cUser := str ''root'', cPasswd := str ''p@:/w'', cNet := str ''tcp'', cAddr := str ''db:3306'',
     cDBName := str ''a/b'', cReadTimeout := 30 * 10 ^ 9, cAttributes := str ''k:v'', cParams := [(str ''charset'', str ''utf8'')]\<rparr>"

theorem dsn_roundtrip_witness:
  "ParseDSN demo_env (FormatDSN demo_env demo_config) = Some (Inr (demo_config\<lparr>cAttributes := []\<rparr>))"
proof -
  have "dsn_ok demo_env demo_config"
    by (simp add: dsn_ok_def left_ok_def values_ok_def demo_config_def demo_env_def NewConfig_def location_ok_def
        duration_ok_def tls_ok_def readBool_def known_names_def defaultMaxAllowedPacket_def str_def of_char_inj)
  moreover have "normalize demo_env (demo_config\<lparr>cAttributes := [], cPubKey := None, cTLS := None,
      cParams := sort_params (cParams demo_config)\<rparr>) = Inr (demo_config\<lparr>cAttributes := []\<rparr>)"
    by (simp add: normalize_def demo_config_def NewConfig_def default_addr_def choose_tls_def name_server_def find_key_def
        ensureHavePort_def SplitHostPort_def last_byte_def sort_params_def str_def)
  ultimately show ?thesis using dsn_roundtrip by metis
qed

text \<open>An address with a host and a port keeps it; a host alone gets the default port.\<close>

lemma ensureHavePort_host:
  assumes "set h \<inter> {0x3a, 0x5b, 0x5d} = {}"
  shows "ensureHavePort h = h @ [0x3a] @ str ''3306''"
    and "set p \<inter> {0x3a, 0x5b, 0x5d} = {} \<Longrightarrow> ensureHavePort (h @ 0x3a # p) = h @ 0x3a # p"
  using assms last_byte(1) [of "0x3a" h] last_byte(2) [of "0x3a" p h]
  by (cases h; auto simp: ensureHavePort_def SplitHostPort_def JoinHostPort_def)+

text \<open>
  An IPv6 address in brackets without a port is spoilt: the default port is added around a second
  pair of brackets, and the result is no address any more.
\<close>

theorem bracketed_host_spoilt:
  assumes "0x3a \<in> set h" and "set h \<inter> {0x5b, 0x5d} = {}"
  shows "ensureHavePort ([0x5b] @ h @ [0x5d]) = [0x5b, 0x5b] @ h @ [0x5d, 0x5d, 0x3a] @ str ''3306'' \<and>
    (\<exists>e. SplitHostPort (ensureHavePort ([0x5b] @ h @ [0x5d])) = Inl e)"
proof -
  let ?a = "[0x5b] @ h @ [0x5d]" and ?b = "[0x5b, 0x5b] @ h @ [0x5d, 0x5d, 0x3a] @ str ''3306''"
  obtain i where i: "last_byte 0x3a ?a = Some i"
  proof -
    obtain u v where "h = u @ 0x3a # v" "0x3a \<notin> set v"
      using assms(1) split_list_last by metis
    then show thesis using last_byte(2) [of "0x3a" "v @ [0x5d]" "0x5b # u"] that by simp
  qed
  have f: "find_sub [0x5d] ?a = Some (length h + 1)" "find_sub [0x5d] ?b = Some (length h + 2)"
    using find_byte(2) [where d = "0x5d" and s = "0x5b # h" and r = "[]"]
      find_byte(2) [where d = "0x5d" and s = "0x5b # 0x5b # h" and r = "[0x5d, 0x3a] @ str ''3306''"] assms(2)
    by auto
  have "SplitHostPort ?a = Inl (addrErr ''missing port in address'')"
    unfolding SplitHostPort_def i option.case f by simp
  then have b: "ensureHavePort ?a = ?b" using assms(1) by (simp add: ensureHavePort_def JoinHostPort_def)
  have l: "last_byte 0x3a ?b = Some (length h + 4)"
    using last_byte(2) [of "0x3a" "str ''3306''" "[0x5b, 0x5b] @ h @ [0x5d, 0x5d]"] by (simp add: str_def)
  have "?b ! (length h + 2 + 1) = 0x5d" by (simp add: nth_append)
  then have "?b ! (length h + 2 + 1) \<noteq> 0x3a" "length h + 2 + 1 \<noteq> length ?b" "length h + 2 + 1 \<noteq> length h + 4" "hd ?b = 0x5b"
    by simp_all
  then have "SplitHostPort ?b = Inl (addrErr ''missing port in address'')"
    unfolding SplitHostPort_def l option.case f by (simp only: if_True if_False onOk_simps refl simp_thms)
  with b show ?thesis by metis
qed

theorem bracketed_host_spoilt_witness:
  "ensureHavePort (str ''[::1]'') = str ''[[::1]]:3306''"
  using bracketed_host_spoilt [of "str ''::1''"] by (simp add: str_def)

end
