(* ===== verification/Auth.thy ===== *)
theory Auth
  imports Dsn
begin

text \<open>
  The connection phase: the server's greeting, the client's response and the authentication
  methods (\<open>mysql/auth.go\<close>, the handshake packets of \<open>mysql/packets.go\<close>).  The hash functions, RSA
  and the decoding of keys are the library's and arguments of the model.
\<close>

section \<open>The library's cryptography\<close>

text \<open>
  \<open>oaep\<close> encrypts with a key, \<open>parseKey\<close> gives \<open>None\<close> for a key that is not an RSA key, \<open>tlsClient\<close> is the
  handshake of TLS, which gives the network of the encrypted connection.
\<close>

record crypto =
  sha1 :: "bytes \<Rightarrow> bytes"
  sha256 :: "bytes \<Rightarrow> bytes"
  oaep :: "nat \<Rightarrow> bytes \<Rightarrow> error + bytes"
  pemDecode :: "bytes \<Rightarrow> bytes option"
  parseKey :: "bytes \<Rightarrow> error + nat option"
  tlsClient :: "tlsconf \<Rightarrow> net \<Rightarrow> error + net"

section \<open>The old password hash\<close>

record myRnd =
  seed1 :: u32
  seed2 :: u32

definition myRndMaxVal :: u32 where "myRndMaxVal = 0x3FFFFFFF"

definition newMyRnd :: "u32 \<Rightarrow> u32 \<Rightarrow> myRnd" where
  "newMyRnd s1 s2 = \<lparr>seed1 = s1 mod myRndMaxVal, seed2 = s2 mod myRndMaxVal\<rparr>"

definition NextByte :: "myRnd \<Rightarrow> byte \<times> myRnd" where
  "NextByte r =
     (let s1 = (seed1 r * 3 + seed2 r) mod myRndMaxVal;
          s2 = (s1 + seed2 r + 33) mod myRndMaxVal
      in (ucast (((ucast s1 :: u64) * 31) div ucast myRndMaxVal), \<lparr>seed1 = s1, seed2 = s2\<rparr>))"

fun hash_loop :: "bytes \<Rightarrow> u32 \<Rightarrow> u32 \<Rightarrow> u32 \<Rightarrow> u32 \<times> u32" where
  "hash_loop [] add r0 r1 = (r0 AND 0x7FFFFFFF, r1 AND 0x7FFFFFFF)"
| "hash_loop (c # cs) add r0 r1 =
     (if c = 0x20 \<or> c = 0x09 then hash_loop cs add r0 r1
      else let tmp = ucast c;
               r0' = r0 XOR (((r0 AND 63) + add) * tmp + push_bit 8 r0);
               r1' = r1 + (push_bit 8 r1 XOR r0')
           in hash_loop cs (add + tmp) r0' r1')"

definition pwHash :: "bytes \<Rightarrow> u32 \<times> u32" where
  "pwHash password = hash_loop password 7 1345345333 0x12345671"

fun next_bytes :: "nat \<Rightarrow> myRnd \<Rightarrow> bytes \<times> myRnd" where
  "next_bytes 0 r = ([], r)"
| "next_bytes (Suc n) r = (let (b, r1) = NextByte r; (bs, r2) = next_bytes n r1 in (b # bs, r2))"

definition scrambleOldPassword :: "gslice \<Rightarrow> bytes \<Rightarrow> bytes option" where
  "scrambleOldPassword scramble password = do {
     s \<leftarrow> slice scramble 0 8;
     let hashPw = pwHash password;
     let hashSc = pwHash (fst s);
     let (out, r) = next_bytes 8 (newMyRnd (fst hashPw XOR fst hashSc) (snd hashPw XOR snd hashSc));
     let mk = fst (NextByte r);
     Some (map (\<lambda>b. (b + 64) XOR mk) out) }"

section \<open>The hashed passwords\<close>

definition xor_bytes :: "bytes \<Rightarrow> bytes \<Rightarrow> bytes" where
  "xor_bytes xs ys = map2 (XOR) xs ys"

definition scramblePassword :: "crypto \<Rightarrow> bytes \<Rightarrow> bytes \<Rightarrow> bytes" where
  "scramblePassword cr scramble password =
     (if password = [] then []
      else let stage1 = sha1 cr password; hash = sha1 cr stage1
           in xor_bytes (sha1 cr (scramble @ hash)) stage1)"

definition scrambleSHA256Password :: "crypto \<Rightarrow> bytes \<Rightarrow> bytes \<Rightarrow> bytes" where
  "scrambleSHA256Password cr scramble password =
     (if password = [] then []
      else let message1 = sha256 cr password; message1Hash = sha256 cr message1
           in xor_bytes message1 (sha256 cr (message1Hash @ scramble)))"

text \<open>The password with a zero byte, masked by the seed over and over; an empty seed panics.\<close>

definition masked :: "bytes \<Rightarrow> bytes \<Rightarrow> bytes" where
  "masked seed plain = map (\<lambda>i. plain ! i XOR seed ! (i mod length seed)) [0..<length plain]"

definition encryptPassword :: "crypto \<Rightarrow> bytes \<Rightarrow> bytes \<Rightarrow> nat \<Rightarrow> (error + bytes) option" where
  "encryptPassword cr password seed pub =
     (if seed = [] then None else Some (oaep cr pub (masked seed (password @ [0]))))"

section \<open>Choosing the answer\<close>

definition auth :: "crypto \<Rightarrow> Config \<Rightarrow> gslice \<Rightarrow> bytes \<Rightarrow> (error + bytes) option" where
  "auth cr cf authData plugin =
     (if plugin = str ''caching_sha2_password'' then Some (Inr (scrambleSHA256Password cr (fst authData) (cPasswd cf)))
      else if plugin = str ''mysql_old_password'' then
        if \<not> cAllowOldPasswords cf then Some (Inl ErrOldPassword)
        else if cPasswd cf = [] then Some (Inr [])
        else do { s \<leftarrow> slice authData 0 8; r \<leftarrow> scrambleOldPassword s (cPasswd cf); Some (Inr (r @ [0])) }
      else if plugin = str ''mysql_clear_password'' then
        if \<not> cAllowCleartextPasswords cf then Some (Inl ErrCleartextPassword) else Some (Inr (cPasswd cf @ [0]))
      else if plugin = str ''mysql_native_password'' then
        if \<not> cAllowNativePasswords cf then Some (Inl ErrNativePassword)
        else do { s \<leftarrow> slice authData 0 20; Some (Inr (scramblePassword cr (fst s) (cPasswd cf))) }
      else if plugin = str ''sha256_password'' then
        if cPasswd cf = [] then Some (Inr [0])
        else if cTLS cf \<noteq> None then Some (Inr (cPasswd cf @ [0]))
        else (case cPubKey cf of
            None \<Rightarrow> Some (Inr [1])
          | Some k \<Rightarrow> encryptPassword cr (cPasswd cf) (fst authData) k)
      else Some (Inl ErrUnknownPlugin))"

section \<open>The greeting\<close>

definition minProtocolVersion :: byte where "minProtocolVersion = 10"

definition clientLongPassword :: u32 where "clientLongPassword = 1"
definition clientFoundRows :: u32 where "clientFoundRows = 2"
definition clientLongFlag :: u32 where "clientLongFlag = 4"
definition clientConnectWithDB :: u32 where "clientConnectWithDB = 8"
definition clientLocalFiles :: u32 where "clientLocalFiles = 0x80"
definition clientProtocol41 :: u32 where "clientProtocol41 = 0x200"
definition clientSSL :: u32 where "clientSSL = 0x800"
definition clientTransactions :: u32 where "clientTransactions = 0x2000"
definition clientSecureConn :: u32 where "clientSecureConn = 0x8000"
definition clientMultiStatements :: u32 where "clientMultiStatements = 0x10000"
definition clientMultiResults :: u32 where "clientMultiResults = 0x20000"
definition clientPluginAuth :: u32 where "clientPluginAuth = 0x80000"
definition clientConnectAttrs :: u32 where "clientConnectAttrs = 0x100000"
definition clientPluginAuthLenEncClientData :: u32 where "clientPluginAuthLenEncClientData = 0x200000"

lemmas client_flags = clientLongPassword_def clientFoundRows_def clientLongFlag_def clientConnectWithDB_def
  clientLocalFiles_def clientProtocol41_def clientSSL_def clientTransactions_def clientSecureConn_def
  clientMultiStatements_def clientMultiResults_def clientPluginAuth_def clientConnectAttrs_def
  clientPluginAuthLenEncClientData_def

definition until_nul :: "bytes \<Rightarrow> bytes" where
  "until_nul s = (case find_sub [0] s of None \<Rightarrow> s | Some e \<Rightarrow> take e s)"

text \<open>\<open>bytes.IndexByte(s, 0)\<close>.\<close>

definition index_nul :: "bytes \<Rightarrow> int" where
  "index_nul s = (case find_sub [0] s of None \<Rightarrow> - 1 | Some e \<Rightarrow> int e)"

text \<open>
  The cipher, the plugin and the server's flags.  A server without TLS switches TLS off in the
  configuration when that is allowed.
\<close>

definition greeting :: "gslice \<Rightarrow> Config \<Rightarrow> ((error + bytes \<times> bytes \<times> u32) \<times> Config) option" where
  "greeting data cf = do {
     d1 \<leftarrow> slice_from data 1;
     let pos = 1 + index_nul (fst d1) + 1 + 4;
     part1 \<leftarrow> slice data pos (pos + 8);
     let pos = pos + 9;
     lower2 \<leftarrow> le16_at data pos;
     let flags = (ucast lower2 :: u32);
     if flags AND clientProtocol41 = 0 then Some (Inl ErrOldProtocol, cf)
     else if flags AND clientSSL = 0 \<and> cTLS cf \<noteq> None \<and> \<not> cAllowFallbackToPlaintext cf
     then Some (Inl ErrNoTLS, cf)
     else let cf1 = (if flags AND clientSSL = 0 then cf\<lparr>cTLS := None\<rparr> else cf); pos = pos + 2
       in if pos < int (length (fst data)) then do {
            let pos = pos + (1 + 2 + 2 + 1 + 10);
            part2 \<leftarrow> slice data pos (pos + 12);
            rest \<leftarrow> slice_from data (pos + 13);
            Some (Inr (fst part1 @ fst part2, until_nul (fst rest), flags), cf1) }
          else Some (Inr (fst part1, [], flags), cf1) }"

definition readHandshakePacket :: "Config \<Rightarrow> conn \<Rightarrow> ((error + bytes \<times> bytes \<times> u32) \<times> Config \<times> conn) option" where
  "readHandshakePacket cf mc = do {
     (r, mc1) \<leftarrow> readPacket mc;
     case r of
       Inl e \<Rightarrow> Some (Inl (if e = ErrInvalidConn then DriverErrBadConn else e), cf, mc1)
     | Inr data \<Rightarrow> do {
         d0 \<leftarrow> idx (fst data) 0;
         if d0 = iERR then do { (e, mc2) \<leftarrow> handleErrorPacket data mc1; Some (Inl e, cf, mc2) }
         else if d0 < minProtocolVersion then Some (Inl (FmtError ''unsupported protocol version''), cf, mc1)
         else do { (g, cf1) \<leftarrow> greeting data cf; Some (g, cf1, mc1) } } }"

section \<open>The response\<close>

definition client_flag_set :: "Config \<Rightarrow> u32 \<Rightarrow> bytes \<Rightarrow> u32" where
  "client_flag_set cf flags authRespLEI =
     clientProtocol41 OR clientSecureConn OR clientLongPassword OR clientTransactions OR clientLocalFiles OR
     clientPluginAuth OR clientMultiResults OR clientConnectAttrs OR (flags AND clientLongFlag) OR
     (if cClientFoundRows cf then clientFoundRows else 0) OR
     (if cTLS cf \<noteq> None then clientSSL else 0) OR
     (if cMultiStatements cf then clientMultiStatements else 0) OR
     (if 1 < length authRespLEI then clientPluginAuthLenEncClientData else 0) OR
     (if cDBName cf \<noteq> [] then clientConnectWithDB else 0)"

definition response_head :: "Config \<Rightarrow> u32 \<Rightarrow> byte \<Rightarrow> bytes" where
  "response_head cf cflags coll = putle 4 cflags @ [0, 0, 0, 0] @ [coll] @ replicate 23 0"

definition response_user :: "Config \<Rightarrow> bytes \<Rightarrow> bytes \<Rightarrow> bytes" where
  "response_user cf lenc authResp =
     cUser cf @ [0] @ lenc @ authResp @ (if cDBName cf \<noteq> [] then cDBName cf @ [0] else [])"

text \<open>
  The plugin and the attributes in the \<open>room\<close> bytes left: \<open>copy\<close> takes what fits, and writing a single
  byte behind the end panics.
\<close>

definition response_tail :: "nat \<Rightarrow> bytes \<Rightarrow> bytes \<Rightarrow> bytes option" where
  "response_tail space plugin attrs =
     (if length plugin + 2 \<le> space
      then Some (plugin @ [0] @ [of_nat (length attrs)] @ take (space - (length plugin + 2)) attrs) else None)"

definition start_tls :: "crypto \<Rightarrow> tlsconf \<Rightarrow> conn \<Rightarrow> error option \<times> conn" where
  "start_tls cr t mc = (case tlsClient cr t (cnet mc) of
     Inl e \<Rightarrow> (Some e, mc) | Inr nc \<Rightarrow> (None, mc\<lparr>cnet := nc\<rparr>))"

definition writeHandshakeResponsePacket :: "crypto \<Rightarrow> Config \<Rightarrow> bytes \<Rightarrow> u32 \<Rightarrow> bytes \<Rightarrow> bytes \<Rightarrow> conn \<Rightarrow>
    (error option \<times> conn) option" where
  "writeHandshakeResponsePacket cr cf attrs flags authResp plugin mc =
     (let lenc = appendLengthEncodedInteger [] (of_nat (length authResp));
          cflags = client_flag_set cf flags lenc;
          rest = response_user cf lenc authResp;
          pktLen = 4 + 4 + 1 + 23 + length rest + 21 + 1 + 1 + length attrs
      in do {
           data \<leftarrow> takeSmallBuffer (pktLen + 4) (cbuf mc);
           case data of
             Inl e \<Rightarrow> Some (Some ErrBadConnNoWrite, mc)
           | Inr (a, off, len) \<Rightarrow>
               (case collations (if cCollation cf = [] then defaultCollation else cCollation cf) of
                  None \<Rightarrow> Some (Some (FmtError ''unknown collation''), put (a, off, len) 4 (putle 4 cflags @ [0, 0, 0, 0, 0]) mc)
                | Some coll \<Rightarrow> do {
                    let mc1 = put (a, off, len) 4 (response_head cf cflags coll) mc;
                    (e, mc2) \<leftarrow> (case cTLS cf of
                        None \<Rightarrow> Some (None, mc1)
                      | Some t \<Rightarrow> do {
                          (e, m) \<leftarrow> writePacket (a, off, 36) mc1;
                          Some (if e = None then start_tls cr t m else (e, m)) });
                    if e \<noteq> None then Some (e, mc2)
                    else do {
                      t \<leftarrow> response_tail (21 + 1 + 1 + length attrs) plugin attrs;
                      let body = rest @ t;
                      writePacket (a, off, 36 + length body) (put (a, off, len) 36 body mc2) } }) })"

definition writeAuthSwitchPacket :: "bytes \<Rightarrow> conn \<Rightarrow> (error option \<times> conn) option" where
  "writeAuthSwitchPacket authData mc = do {
     data \<leftarrow> takeSmallBuffer (4 + length authData) (cbuf mc);
     case data of
       Inl e \<Rightarrow> Some (Some ErrBadConnNoWrite, mc)
     | Inr r \<Rightarrow> writePacket r (put r 4 authData mc) }"

section \<open>The server's verdict\<close>

text \<open>The data for a plugin, \<open>None\<close> for nil, and the plugin asked for.\<close>

definition readAuthResult :: "conn \<Rightarrow> ((error + gslice option \<times> bytes) \<times> conn) option" where
  "readAuthResult mc = do {
     (r, mc1) \<leftarrow> readPacket mc;
     case r of
       Inl e \<Rightarrow> Some (Inl e, mc1)
     | Inr data \<Rightarrow> do {
         d0 \<leftarrow> idx (fst data) 0;
         if d0 = iOK then do {
           (e, mc2) \<leftarrow> handleOkPacket data mc1;
           Some (case e of Some err \<Rightarrow> Inl err | None \<Rightarrow> Inr (None, []), mc2) }
         else if d0 = iAuthMoreData then do { d \<leftarrow> slice_from data 1; Some (Inr (Some d, []), mc1) }
         else if d0 = iEOF then
           if length (fst data) = 1 then Some (Inr (None, str ''mysql_old_password''), mc1)
           else if index_nul (fst data) < 0 then Some (Inl ErrMalformPkt, mc1)
           else do {
             p \<leftarrow> slice data 1 (index_nul (fst data));
             d \<leftarrow> slice_from data (index_nul (fst data) + 1);
             Some (Inr (Some d, fst p), mc1) }
         else do { (e, mc2) \<leftarrow> handleErrorPacket data mc1; Some (Inl e, mc2) } } }"

definition orFail :: "(error option \<times> conn) option \<Rightarrow> (conn \<Rightarrow> (error option \<times> conn) option) \<Rightarrow>
    (error option \<times> conn) option" where
  "orFail m f = do { (e, mc) \<leftarrow> m; case e of Some err \<Rightarrow> Some (Some err, mc) | None \<Rightarrow> f mc }"

definition sendEncryptedPassword :: "crypto \<Rightarrow> Config \<Rightarrow> bytes \<Rightarrow> nat \<Rightarrow> conn \<Rightarrow> (error option \<times> conn) option" where
  "sendEncryptedPassword cr cf seed pub mc = do {
     enc \<leftarrow> encryptPassword cr (cPasswd cf) seed pub;
     case enc of Inl e \<Rightarrow> Some (Some e, mc) | Inr b \<Rightarrow> writeAuthSwitchPacket b mc }"

text \<open>A key in PEM form; a key of another kind panics at the type assertion.\<close>

definition decode_key :: "crypto \<Rightarrow> bytes \<Rightarrow> (error + nat) option" where
  "decode_key cr d = (case pemDecode cr d of
     None \<Rightarrow> Some (Inl (FmtError ''no pem data found''))
   | Some b \<Rightarrow> (case parseKey cr b of
       Inl e \<Rightarrow> Some (Inl e) | Inr None \<Rightarrow> None | Inr (Some k) \<Rightarrow> Some (Inr k)))"

definition cachingSha2PasswordRequestPublicKey :: byte where "cachingSha2PasswordRequestPublicKey = 2"
definition cachingSha2PasswordFastAuthSuccess :: byte where "cachingSha2PasswordFastAuthSuccess = 3"
definition cachingSha2PasswordPerformFullAuthentication :: byte where
  "cachingSha2PasswordPerformFullAuthentication = 4"

definition request_key :: "crypto \<Rightarrow> conn \<Rightarrow> ((error + nat) \<times> conn) option" where
  "request_key cr mc = do {
     data \<leftarrow> takeSmallBuffer (4 + 1) (cbuf mc);
     case data of
       Inl e \<Rightarrow> Some (Inl e, mc)
     | Inr r \<Rightarrow> do {
         (e, mc1) \<leftarrow> writePacket r (put r 4 [cachingSha2PasswordRequestPublicKey] mc);
         case e of
           Some err \<Rightarrow> Some (Inl err, mc1)
         | None \<Rightarrow> do {
             (p, mc2) \<leftarrow> readPacket mc1;
             case p of
               Inl err \<Rightarrow> Some (Inl err, mc2)
             | Inr d \<Rightarrow> do {
                 d0 \<leftarrow> idx (fst d) 0;
                 if d0 \<noteq> iAuthMoreData then Some (Inl (FmtError ''unexpect resp from server''), mc2)
                 else do { d1 \<leftarrow> slice_from d 1; k \<leftarrow> decode_key cr (fst d1); Some (k, mc2) } } } } }"

definition full_authentication :: "crypto \<Rightarrow> Config \<Rightarrow> bytes \<Rightarrow> conn \<Rightarrow> (error option \<times> conn) option" where
  "full_authentication cr cf old mc =
     (if cTLS cf \<noteq> None \<or> cNet cf = str ''unix''
      then orFail (writeAuthSwitchPacket (cPasswd cf @ [0]) mc) readResultOK
      else do {
        (k, mc1) \<leftarrow> (case cPubKey cf of Some k \<Rightarrow> Some (Inr k, mc) | None \<Rightarrow> request_key cr mc);
        case k of
          Inl e \<Rightarrow> Some (Some e, mc1)
        | Inr pub \<Rightarrow> orFail (sendEncryptedPassword cr cf old pub mc1) readResultOK })"

text \<open>What the data of the last packet mean to the plugin.\<close>

definition finish_auth :: "crypto \<Rightarrow> Config \<Rightarrow> bytes \<Rightarrow> gslice option \<Rightarrow> bytes \<Rightarrow> conn \<Rightarrow> (error option \<times> conn) option" where
  "finish_auth cr cf plugin authData old mc =
     (let d = (case authData of None \<Rightarrow> [] | Some s \<Rightarrow> fst s)
      in if plugin = str ''caching_sha2_password'' then
           if d = [] then Some (None, mc)
           else if length d \<noteq> 1 then Some (Some ErrMalformPkt, mc)
           else if hd d = cachingSha2PasswordFastAuthSuccess then readResultOK mc
           else if hd d = cachingSha2PasswordPerformFullAuthentication then full_authentication cr cf old mc
           else Some (Some ErrMalformPkt, mc)
         else if plugin = str ''sha256_password'' then
           if d = [] then Some (None, mc)
           else do {
             k \<leftarrow> decode_key cr d;
             case k of
               Inl e \<Rightarrow> Some (Some e, mc)
             | Inr pub \<Rightarrow> orFail (sendEncryptedPassword cr cf old pub mc) readResultOK }
         else Some (None, mc))"

text \<open>\<open>copy(oldAuthData, authData)\<close>.\<close>

definition copy_over :: "bytes \<Rightarrow> bytes \<Rightarrow> bytes" where
  "copy_over dst src = take (length dst) src @ drop (length src) dst"

text \<open>A plugin may be switched once.\<close>

definition handleAuthResult :: "crypto \<Rightarrow> Config \<Rightarrow> bytes \<Rightarrow> bytes \<Rightarrow> conn \<Rightarrow> (error option \<times> conn) option" where
  "handleAuthResult cr cf old plugin mc = do {
     (r, mc1) \<leftarrow> readAuthResult mc;
     case r of
       Inl e \<Rightarrow> Some (Some e, mc1)
     | Inr (authData, newPlugin) \<Rightarrow>
         if newPlugin = [] then finish_auth cr cf plugin authData old mc1
         else do {
           let data = (case authData of None \<Rightarrow> (old, []) | Some d \<Rightarrow> d);
           let old1 = (case authData of None \<Rightarrow> old | Some d \<Rightarrow> copy_over old (fst d));
           a \<leftarrow> auth cr cf data newPlugin;
           case a of
             Inl e \<Rightarrow> Some (Some e, mc1)
           | Inr authResp \<Rightarrow> orFail (writeAuthSwitchPacket authResp mc1) (\<lambda>mc2. do {
               (r2, mc3) \<leftarrow> readAuthResult mc2;
               case r2 of
                 Inl e \<Rightarrow> Some (Some e, mc3)
               | Inr (authData2, newPlugin2) \<Rightarrow>
                   if newPlugin2 \<noteq> [] then Some (Some ErrMalformPkt, mc3)
                   else finish_auth cr cf newPlugin authData2 old1 mc3 }) } }"

end
