(* ===== verification/AuthProps.thy ===== *)
theory AuthProps
  imports Frames Auth DsnProps
begin

text \<open>
  What the connection phase promises: the greeting is read as the server wrote it, the answer to a
  native or SHA-256 challenge is the one the server checks, and without TLS a password is used
  through the hash functions only.
\<close>

section \<open>The generator of the old hash\<close>

definition seeds_ok :: "myRnd \<Rightarrow> bool" where
  "seeds_ok r \<longleftrightarrow> unat (seed1 r) < 2 ^ 30 - 1 \<and> unat (seed2 r) < 2 ^ 30 - 1"

lemma newMyRnd_ok: "seeds_ok (newMyRnd s1 s2)"
  by (simp add: seeds_ok_def newMyRnd_def myRndMaxVal_def unat_mod)

text \<open>The same step on numbers that cannot overflow.\<close>

definition next_ref :: "nat \<times> nat \<Rightarrow> nat \<times> nat \<times> nat" where
  "next_ref s = (let s1 = (fst s * 3 + snd s) mod (2 ^ 30 - 1); s2 = (s1 + snd s + 33) mod (2 ^ 30 - 1)
     in (s1 * 31 div (2 ^ 30 - 1), s1, s2))"

lemma unat_sum: "unat (a :: 'a::len word) + unat b < 2 ^ LENGTH('a) \<Longrightarrow> unat (a + b) = unat a + unat b"
  and unat_prod: "unat (a :: 'a::len word) * unat b < 2 ^ LENGTH('a) \<Longrightarrow> unat (a * b) = unat a * unat b"
  by (simp_all add: unat_word_ariths)

lemma NextByte_ref:
  assumes "seeds_ok r"
  shows "(case NextByte r of (b, r') \<Rightarrow> (unat b, unat (seed1 r'), unat (seed2 r'))) = next_ref (unat (seed1 r), unat (seed2 r))"
    and "seeds_ok (snd (NextByte r))" and "unat (fst (NextByte r)) < 31"
proof -
  let ?M = "2 ^ 30 - 1 :: nat"
  have m: "unat myRndMaxVal = ?M" by (simp add: myRndMaxVal_def)
  define s1 where "s1 = (seed1 r * 3 + seed2 r) mod myRndMaxVal"
  define s2 where "s2 = (s1 + seed2 r + 33) mod myRndMaxVal"
  have r: "unat (seed1 r) < ?M" "unat (seed2 r) < ?M" using assms by (simp_all add: seeds_ok_def)
  have "unat (seed1 r * 3) = unat (seed1 r) * 3" using r by (subst unat_prod) simp_all
  then have "unat (seed1 r * 3 + seed2 r) = unat (seed1 r) * 3 + unat (seed2 r)" using r by (subst unat_sum) simp_all
  then have u1: "unat s1 = (unat (seed1 r) * 3 + unat (seed2 r)) mod ?M" by (simp add: s1_def unat_mod m)
  then have l1: "unat s1 < ?M" by simp
  have "unat (s1 + seed2 r) = unat s1 + unat (seed2 r)" using r l1 by (subst unat_sum) simp_all
  then have "unat (s1 + seed2 r + 33) = unat s1 + unat (seed2 r) + 33" using r l1 by (subst unat_sum) simp_all
  then have u2: "unat s2 = (unat s1 + unat (seed2 r) + 33) mod ?M" by (simp add: s2_def unat_mod m)
  let ?w = "((ucast s1 :: u64) * 31) div ucast myRndMaxVal"
  have c: "unat (ucast s1 :: u64) = unat s1" "unat (ucast myRndMaxVal :: u64) = ?M"
    using l1 by (simp_all add: unsigned_ucast_eq take_bit_nat_eq_self myRndMaxVal_def)
  have "unat ((ucast s1 :: u64) * 31) = unat s1 * 31" using l1 c by (subst unat_prod) simp_all
  then have w: "unat ?w = unat s1 * 31 div ?M" by (simp add: unat_div c)
  have "unat s1 * 31 div ?M < 31" using l1 by (simp add: less_mult_imp_div_less)
  then have b: "unat (ucast ?w :: byte) = unat s1 * 31 div ?M" "unat s1 * 31 div ?M < 31"
    using w by (simp_all add: unsigned_ucast_eq take_bit_nat_eq_self)
  have n: "NextByte r = (ucast ?w, \<lparr>seed1 = s1, seed2 = s2\<rparr>)" by (simp add: NextByte_def s1_def s2_def Let_def)
  show "(case NextByte r of (b, r') \<Rightarrow> (unat b, unat (seed1 r'), unat (seed2 r'))) = next_ref (unat (seed1 r), unat (seed2 r))"
    using b(1) u1 u2 by (simp add: n next_ref_def Let_def)
  show "seeds_ok (snd (NextByte r))" using u1 u2 by (simp add: n seeds_ok_def)
  show "unat (fst (NextByte r)) < 31" using b by (simp add: n)
qed

fun ref_bytes :: "nat \<Rightarrow> nat \<times> nat \<Rightarrow> nat list \<times> nat \<times> nat" where
  "ref_bytes 0 s = ([], s)"
| "ref_bytes (Suc n) s = (let (b, s1) = next_ref s; (bs, s2) = ref_bytes n s1 in (b # bs, s2))"

lemma next_bytes_ref:
  "seeds_ok r \<Longrightarrow> next_bytes n r = (bs, r') \<Longrightarrow> seeds_ok r' \<and>
     ref_bytes n (unat (seed1 r), unat (seed2 r)) = (map unat bs, unat (seed1 r'), unat (seed2 r'))"
proof (induction n arbitrary: r bs)
  case (Suc n)
  obtain b r1 where s: "NextByte r = (b, r1)" by fastforce
  have "next_ref (unat (seed1 r), unat (seed2 r)) = (unat b, unat (seed1 r1), unat (seed2 r1))" "seeds_ok r1"
    using NextByte_ref(1,2) [OF Suc.prems(1)] s by simp_all
  moreover obtain bs1 where "next_bytes n r1 = (bs1, r')" "bs = b # bs1"
    using Suc.prems(2) s by (auto simp: Let_def split: prod.splits)
  ultimately show ?case using Suc.IH [of r1 bs1] by (simp add: Let_def)
qed simp

lemma length_ref_bytes: "length (fst (ref_bytes n s)) = n"
  by (induction n arbitrary: s) (simp_all add: Let_def case_prod_unfold)

text \<open>
  C36: The old password hash never overflows: its 32-bit generator gives what the generator on
  unbounded numbers gives, so the answer is the reference one, eight bytes long, for every
  password and every challenge of at least eight bytes.
\<close>

theorem old_hash_reference:
  assumes "8 \<le> length s"
  shows "scrambleOldPassword (s, sp) p =
    (let hp = pwHash p; hs = pwHash (take 8 s); m = 2 ^ 30 - 1;
         (bs, st) = ref_bytes 8 (unat (fst hp XOR fst hs) mod m, unat (snd hp XOR snd hs) mod m)
     in Some (map (\<lambda>b. (of_nat b + 64) XOR of_nat (fst (next_ref st))) bs))"
proof -
  let ?r = "newMyRnd (fst (pwHash p) XOR fst (pwHash (take 8 s))) (snd (pwHash p) XOR snd (pwHash (take 8 s)))"
  obtain bs r' where n: "next_bytes 8 ?r = (bs, r')" by fastforce
  have seeds: "unat (seed1 ?r) = unat (fst (pwHash p) XOR fst (pwHash (take 8 s))) mod (2 ^ 30 - 1)"
    "unat (seed2 ?r) = unat (snd (pwHash p) XOR snd (pwHash (take 8 s))) mod (2 ^ 30 - 1)"
    by (simp_all add: newMyRnd_def myRndMaxVal_def unat_mod)
  have r: "seeds_ok r'" "ref_bytes 8 (unat (seed1 ?r), unat (seed2 ?r)) = (map unat bs, unat (seed1 r'), unat (seed2 r'))"
    using next_bytes_ref [OF newMyRnd_ok n] by simp_all
  have "unat (fst (NextByte r')) = fst (next_ref (unat (seed1 r'), unat (seed2 r')))"
    using NextByte_ref(1) [OF r(1)] by (auto simp: case_prod_unfold prod_eq_iff)
  from this [symmetric] have "of_nat (fst (next_ref (unat (seed1 r'), unat (seed2 r')))) = fst (NextByte r')"
    by simp
  moreover have "slice (s, sp) 0 8 = Some (take 8 s, drop 8 (s @ sp))" using assms by (simp add: slice_def)
  ultimately show ?thesis
    using r(2) n by (simp add: scrambleOldPassword_def seeds Let_def comp_def)
qed

theorem old_hash_reference_witness:
  "\<exists>out. scrambleOldPassword (str ''abcdefgh'', []) (str ''secret'') = Some out \<and> length out = 8"
  using old_hash_reference [of "str ''abcdefgh''" "[]" "str ''secret''"] length_ref_bytes [of 8]
  by (simp only: Let_def case_prod_unfold length_map) (simp add: str_def)

section \<open>The answer and the server's check\<close>

lemma xor_bytes_twice:
  "length xs = length ys \<Longrightarrow> xor_bytes (xor_bytes xs ys) xs = ys \<and> xor_bytes (xor_bytes xs ys) ys = xs"
proof (induction xs ys rule: list_induct2)
  case (Cons x xs y ys)
  have "(x XOR y) XOR x = y" "(x XOR y) XOR y = x"
    by (simp_all add: xor.assoc) (simp add: xor.commute [of y x] xor.left_commute)
  with Cons show ?case by (simp add: xor_bytes_def)
qed (simp add: xor_bytes_def)

text \<open>
  A server that knows only the hash of the hash of a password takes its mask off the answer and
  checks that the hash of the rest is what it knows.
\<close>

definition native_check :: "crypto \<Rightarrow> bytes \<Rightarrow> bytes \<Rightarrow> bytes \<Rightarrow> bool" where
  "native_check cr stored challenge answer \<longleftrightarrow>
     sha1 cr (xor_bytes answer (sha1 cr (challenge @ stored))) = stored"

definition sha2_check :: "crypto \<Rightarrow> bytes \<Rightarrow> bytes \<Rightarrow> bytes \<Rightarrow> bool" where
  "sha2_check cr stored challenge answer \<longleftrightarrow>
     sha256 cr (xor_bytes answer (sha256 cr (stored @ challenge))) = stored"

text \<open>
  The answer to a challenge is the one the server accepts: for the native method and for
  caching SHA-2, a server that stores the hash of the hash of the password finds it in the answer
  to its challenge, whatever the password and the challenge.
\<close>

theorem answer_accepted:
  assumes "\<And>x. length (sha1 cr x) = 20" and "\<And>x. length (sha256 cr x) = 32" and "cPasswd cf \<noteq> []"
    and "cAllowNativePasswords cf" and "length challenge = 20"
  shows "(\<exists>a. auth cr cf (challenge, sp) (str ''mysql_native_password'') = Some (Inr a) \<and>
      native_check cr (sha1 cr (sha1 cr (cPasswd cf))) challenge a) \<and>
    (\<exists>a. auth cr cf (challenge, sp) (str ''caching_sha2_password'') = Some (Inr a) \<and>
      sha2_check cr (sha256 cr (sha256 cr (cPasswd cf))) challenge a)"
proof -
  have sl: "slice (challenge, sp) 0 20 = Some (challenge, sp)" using assms(5) by (simp add: slice_def)
  let ?h = "sha1 cr (challenge @ sha1 cr (sha1 cr (cPasswd cf)))" and ?s = "sha1 cr (cPasswd cf)"
  have "xor_bytes (xor_bytes ?h ?s) ?h = ?s" using xor_bytes_twice [of ?h ?s] assms(1) by simp
  then have "native_check cr (sha1 cr (sha1 cr (cPasswd cf))) challenge (scramblePassword cr challenge (cPasswd cf))"
    using assms(3) by (simp add: native_check_def scramblePassword_def Let_def)
  moreover let ?g = "sha256 cr (sha256 cr (sha256 cr (cPasswd cf)) @ challenge)" and ?t = "sha256 cr (cPasswd cf)"
  have "xor_bytes (xor_bytes ?t ?g) ?g = ?t" using xor_bytes_twice [of ?t ?g] assms(2) by simp
  then have "sha2_check cr (sha256 cr (sha256 cr (cPasswd cf))) challenge (scrambleSHA256Password cr challenge (cPasswd cf))"
    using assms(3) by (simp add: sha2_check_def scrambleSHA256Password_def Let_def)
  ultimately show ?thesis using sl assms(4) by (auto simp: auth_def str_eq_iff)
qed

text \<open>Functions of the right lengths stand for the hashes.\<close>

definition demo_crypto :: crypto where
  "demo_crypto = \<lparr>sha1 = (\<lambda>x. take 20 (x @ replicate 20 1)), sha256 = (\<lambda>x. take 32 (x @ replicate 32 2)),
     oaep = (\<lambda>k x. Inr (of_nat k # x)), pemDecode = Some, parseKey = (\<lambda>_. Inr (Some 7)), tlsClient = (\<lambda>_. Inr)\<rparr>"

theorem answer_accepted_witness:
  "\<exists>a. auth demo_crypto (demo_config\<lparr>cPasswd := str ''secret''\<rparr>) (replicate 20 9, []) (str ''mysql_native_password'') =
      Some (Inr a) \<and> native_check demo_crypto (sha1 demo_crypto (sha1 demo_crypto (str ''secret''))) (replicate 20 9) a"
proof -
  let ?cf = "demo_config\<lparr>cPasswd := str ''secret''\<rparr>"
  have "length (sha1 demo_crypto x) = 20" "length (sha256 demo_crypto x) = 32" for x by (simp_all add: demo_crypto_def)
  moreover have "cPasswd ?cf \<noteq> []" "cAllowNativePasswords ?cf" "length (replicate 20 (9::byte)) = 20"
    by (simp_all add: demo_config_def NewConfig_def str_def)
  ultimately show ?thesis using answer_accepted [of demo_crypto ?cf "replicate 20 9" "[]"] by simp
qed

section \<open>The greeting as the server writes it\<close>

definition greeting_packet :: "bytes \<Rightarrow> bytes \<Rightarrow> u16 \<Rightarrow> bytes \<Rightarrow> bytes \<Rightarrow> bytes \<Rightarrow> bytes" where
  "greeting_packet ver cid flags mid salt plugin =
     10 # ver @ [0] @ cid @ take 8 salt @ [0] @ putle 2 flags @ mid @ replicate 10 0 @ drop 8 salt @ [0] @ plugin @ [0]"

text \<open>The greeting of a server before version 4.1.1: it ends with the flags.\<close>

definition short_greeting :: "bytes \<Rightarrow> bytes \<Rightarrow> u16 \<Rightarrow> bytes \<Rightarrow> bytes" where
  "short_greeting ver cid flags salt = 10 # ver @ [0] @ cid @ salt @ [0] @ putle 2 flags"

lemma slice_mid: "a = int (length pre) \<Longrightarrow> b = a + int (length x) \<Longrightarrow> slice (pre @ x @ r, sp) a b = Some (x, r @ sp)"
  by (simp add: slice_def nat_add_distrib)

lemma nul_after: "0 \<notin> set s \<Longrightarrow> find_sub [0] (s @ 0 # r) = Some (length s)"
  by (rule find_byte(2))

text \<open>The first part of both greetings.\<close>

lemma greeting_start:
  assumes "0 \<notin> set ver" and "length cid = 4" and "length salt8 = 8" and "d = 10 # ver @ [0] @ cid @ salt8 @ [0] @ putle 2 flags @ r"
  shows "slice_from (d, sp) 1 = Some (tl d, sp)" and "index_nul (tl d) = int (length ver)"
    and "slice (d, sp) (int (length ver) + 6) (int (length ver) + 14) = Some (salt8, [0] @ putle 2 flags @ r @ sp)"
    and "le16_at (d, sp) (int (length ver) + 15) = Some (flags :: u16)"
    and "length d = length ver + 17 + length r"
proof -
  show "slice_from (d, sp) 1 = Some (tl d, sp)" by (simp add: slice_from_def assms(4))
  show "index_nul (tl d) = int (length ver)" using nul_after [OF assms(1)] by (simp add: index_nul_def assms(4))
  show "slice (d, sp) (int (length ver) + 6) (int (length ver) + 14) = Some (salt8, [0] @ putle 2 flags @ r @ sp)"
    using slice_mid [of "int (length ver) + 6" "10 # ver @ [0] @ cid" "int (length ver) + 14" salt8 "[0] @ putle 2 flags @ r" sp]
      assms by simp
  show "le16_at (d, sp) (int (length ver) + 15) = Some (flags :: u16)"
    using slice_mid [of "int (length ver) + 15" "10 # ver @ [0] @ cid @ salt8 @ [0]" "int (length ver) + 15 + 2" "putle 2 flags" r sp]
      assms by (simp add: le16_at_def getle_putle_id)
  show "length d = length ver + 17 + length r" using assms by simp
qed

text \<open>Whether the server's flags suit the configuration, and the configuration afterwards.\<close>

definition flags_ok :: "Config \<Rightarrow> u32 \<Rightarrow> bool" where
  "flags_ok cf fl \<longleftrightarrow> fl AND clientProtocol41 \<noteq> 0 \<and>
     (fl AND clientSSL = 0 \<longrightarrow> cTLS cf = None \<or> cAllowFallbackToPlaintext cf)"

definition after_greeting :: "Config \<Rightarrow> u32 \<Rightarrow> Config" where
  "after_greeting cf fl = (if fl AND clientSSL = 0 then cf\<lparr>cTLS := None\<rparr> else cf)"

theorem greeting_read:
  assumes "0 \<notin> set ver" and "length cid = 4" and "length mid = 6" and "length salt = 20" and "0 \<notin> set plugin"
    and "flags_ok cf (ucast flags)"
  shows "greeting (greeting_packet ver cid flags mid salt plugin, sp) cf =
    Some (Inr (salt, plugin, ucast flags), after_greeting cf (ucast flags))"
proof -
  define r where "r = mid @ replicate 10 0 @ drop 8 salt @ [0] @ plugin @ [0]"
  define d where "d = greeting_packet ver cid flags mid salt plugin"
  have d: "d = 10 # ver @ [0] @ cid @ take 8 salt @ [0] @ putle 2 flags @ r"
    by (simp add: d_def greeting_packet_def r_def)
  have l8: "length (take 8 salt) = 8" using assms(4) by simp
  note st = greeting_start(1,3,4) [OF assms(1,2) l8 d, of sp] greeting_start(2,5) [OF assms(1,2) l8 d]
  let ?n = "int (length ver)"
  let ?pre = "10 # ver @ [0] @ cid @ take 8 salt @ [0] @ putle 2 flags @ mid @ replicate 10 0"
  have d2: "d = ?pre @ drop 8 salt @ [0] @ plugin @ [0]" by (simp add: d r_def)
  have p2: "slice (d, sp) (?n + 33) (?n + 45) = Some (drop 8 salt, [0] @ plugin @ [0] @ sp)"
    unfolding d2 using slice_mid [of "?n + 33" ?pre "?n + 45" "drop 8 salt" "[0] @ plugin @ [0]" sp] assms by simp
  have "slice_from ((?pre @ drop 8 salt @ [0]) @ (plugin @ [0]), sp) (int (length (?pre @ drop 8 salt @ [0]))) =
      Some (plugin @ [0], sp)"
    by (rule slice_from_append)
  then have p3: "slice_from (d, sp) (?n + 46) = Some (plugin @ [0], sp)" unfolding d2 using assms by (simp add: add.commute)
  have "until_nul (plugin @ [0]) = plugin" using nul_after [OF assms(5), of "[]"] by (simp add: until_nul_def)
  moreover have "?n + 17 < int (length d)" using st(5) assms by (simp add: r_def)
  moreover have "1 + ?n + 1 + 4 = ?n + 6" "?n + 6 + 8 = ?n + 14" "?n + 6 + 9 = ?n + 15" "?n + 15 + 2 = ?n + 17"
    "?n + 17 + (1 + 2 + 2 + 1 + 10) = ?n + 33" "?n + 33 + 12 = ?n + 45" "?n + 33 + 13 = ?n + 46" by simp_all
  moreover have "take 8 salt @ drop 8 salt = salt" by simp
  ultimately show ?thesis
    unfolding d_def [symmetric] greeting_def
    using assms(6)
    by (simp only: Let_def fst_conv st Some_bind p2 p3 if_True)
      (auto simp: flags_ok_def after_greeting_def)
qed

lemma short_greeting_read:
  assumes "0 \<notin> set ver" and "length cid = 4" and "length salt = 8" and "flags_ok cf (ucast flags)"
  shows "greeting (short_greeting ver cid flags salt, sp) cf =
    Some (Inr (salt, [], ucast flags), after_greeting cf (ucast flags))"
proof -
  define d where "d = short_greeting ver cid flags salt"
  have d: "d = 10 # ver @ [0] @ cid @ salt @ [0] @ putle 2 flags @ []" by (simp add: d_def short_greeting_def)
  note st = greeting_start(1,3,4) [OF assms(1-3) d, of sp] greeting_start(2,5) [OF assms(1-3) d]
  let ?n = "int (length ver)"
  have "1 + ?n + 1 + 4 = ?n + 6" "?n + 6 + 8 = ?n + 14" "?n + 6 + 9 = ?n + 15" "?n + 15 + 2 = ?n + 17"
    "\<not> ?n + 17 < int (length d)" using st(5) by simp_all
  then show ?thesis
    unfolding d_def [symmetric] greeting_def
    using assms(4)
    by (simp only: Let_def fst_conv st Some_bind if_False)
      (auto simp: flags_ok_def after_greeting_def)
qed

section \<open>What a server learns\<close>

text \<open>Two passwords that no hash and no encryption tells apart.\<close>

definition alike :: "crypto \<Rightarrow> bytes \<Rightarrow> bytes \<Rightarrow> bool" where
  "alike cr p q \<longleftrightarrow> (p = [] \<longleftrightarrow> q = []) \<and> sha1 cr p = sha1 cr q \<and> sha256 cr p = sha256 cr q \<and> pwHash p = pwHash q \<and>
     (\<forall>k seed. oaep cr k (masked seed (p @ [0])) = oaep cr k (masked seed (q @ [0])))"

definition no_cleartext :: "Config \<Rightarrow> bool" where
  "no_cleartext cf \<longleftrightarrow> \<not> cAllowCleartextPasswords cf \<and> cTLS cf = None \<and> cNet cf \<noteq> str ''unix''"

lemma auth_alike:
  "no_cleartext cf \<Longrightarrow> alike cr (cPasswd cf) q \<Longrightarrow> auth cr (cf\<lparr>cPasswd := q\<rparr>) d plugin = auth cr cf d plugin"
  by (auto simp: auth_def no_cleartext_def alike_def scrambleSHA256Password_def scramblePassword_def
      scrambleOldPassword_def encryptPassword_def Let_def split: option.split)

lemma send_alike: "alike cr (cPasswd cf) q \<Longrightarrow> sendEncryptedPassword cr (cf\<lparr>cPasswd := q\<rparr>) = sendEncryptedPassword cr cf"
  by (auto simp: sendEncryptedPassword_def encryptPassword_def alike_def fun_eq_iff)

lemma full_alike:
  assumes "no_cleartext cf" and "alike cr (cPasswd cf) q"
  shows "full_authentication cr (cf\<lparr>cPasswd := q\<rparr>) = full_authentication cr cf"
  using assms(1) unfolding fun_eq_iff full_authentication_def send_alike [OF assms(2)]
  by (simp add: no_cleartext_def)

lemma finish_alike:
  assumes "no_cleartext cf" and "alike cr (cPasswd cf) q"
  shows "finish_auth cr (cf\<lparr>cPasswd := q\<rparr>) = finish_auth cr cf"
  unfolding fun_eq_iff finish_auth_def full_alike [OF assms] send_alike [OF assms(2)] by simp

text \<open>
  C35: Without TLS, off a unix socket and with clear text not allowed, the password leaves the driver through SHA-1,
  SHA-256, the old hash and RSA encryption only: whatever a server asks for, the whole exchange is the same for
  any two passwords, both empty or both not, that have the same hashes and, under every key and seed, the same
  encryption.
\<close>

theorem password_only_hashed:
  assumes "no_cleartext cf" and "alike cr (cPasswd cf) q"
  shows "auth cr (cf\<lparr>cPasswd := q\<rparr>) d plugin = auth cr cf d plugin \<and>
    handleAuthResult cr (cf\<lparr>cPasswd := q\<rparr>) old plugin mc = handleAuthResult cr cf old plugin mc"
  unfolding handleAuthResult_def auth_alike [OF assms] finish_alike [OF assms] by simp

definition blind_crypto :: crypto where
  "blind_crypto = demo_crypto\<lparr>sha1 := (\<lambda>_. replicate 20 3), sha256 := (\<lambda>_. replicate 32 4), oaep := (\<lambda>_ _. Inr [5])\<rparr>"

theorem password_only_hashed_witness:
  "auth blind_crypto (demo_config\<lparr>cPasswd := str ''a b''\<rparr>) (replicate 20 1, []) (str ''mysql_native_password'') =
   auth blind_crypto (demo_config\<lparr>cPasswd := str ''ab''\<rparr>) (replicate 20 1, []) (str ''mysql_native_password'')"
proof -
  let ?cf = "demo_config\<lparr>cPasswd := str ''ab''\<rparr>"
  have "no_cleartext ?cf" by (simp add: no_cleartext_def demo_config_def NewConfig_def str_eq_iff)
  moreover have "alike blind_crypto (cPasswd ?cf) (str ''a b'')"
    by (simp add: alike_def blind_crypto_def pwHash_def str_def)
  ultimately show ?thesis
    using password_only_hashed [of ?cf blind_crypto "str ''a b''" "(replicate 20 1, [])" "str ''mysql_native_password''"
        "[]" "fresh_conn []"] by simp
qed

end
