(* ===== verification/Driver.thy ===== *)
theory Driver
  imports Auth
begin

text \<open>
  The connector (\<open>mysql/connector.go\<close>) and the driver's entry points (\<open>mysql/driver.go\<close>): connection
  attributes, dialling, and the whole of \<open>Connect\<close>.
\<close>

section \<open>Connection attributes\<close>

text \<open>The platform: the operating system, the architecture and the process number.\<close>

record platform =
  osName :: bytes
  archName :: bytes
  processId :: int

text \<open>\<open>strings.SplitN(s, ":", 2)\<close>.\<close>

definition split_two :: "bytes \<Rightarrow> bytes list" where
  "split_two s = (case find_sub [0x3a] s of None \<Rightarrow> [s] | Some k \<Rightarrow> [take k s, drop (k + 1) s])"

definition user_attributes :: "bytes \<Rightarrow> bytes list" where
  "user_attributes textAttributes =
     concat (map (\<lambda>a. let attr = split_two a in if length attr \<noteq> 2 then [] else attr) (split_byte 0x2c textAttributes))"

definition default_attributes :: "platform \<Rightarrow> bytes list" where
  "default_attributes pf =
     [str ''_client_name'', str ''Go-MySQL-Driver'', str ''_os'', osName pf, str ''_platform'', archName pf,
      str ''_pid'', itoa (processId pf)]"

definition encodeConnectionAttributes :: "platform \<Rightarrow> bytes \<Rightarrow> bytes" where
  "encodeConnectionAttributes pf textAttributes =
     foldl appendLengthEncodedString [] (default_attributes pf @ user_attributes textAttributes)"

section \<open>Connectors\<close>

record connector =
  kCfg :: Config
  kAttributes :: bytes

definition newConnector :: "platform \<Rightarrow> Config \<Rightarrow> error + connector" where
  "newConnector pf cf =
     (let a = encodeConnectionAttributes pf (cAttributes cf)
      in if 250 < length a then Inl (FmtError ''connection attributes are longer than 250 bytes'')
         else Inr \<lparr>kCfg = cf, kAttributes = a\<rparr>)"

definition CreateConnector :: "dsn_env \<Rightarrow> platform \<Rightarrow> bytes \<Rightarrow> (error + connector) option" where
  "CreateConnector env pf d = andThen (ParseDSN env d) (\<lambda>cf. Some (newConnector pf cf))"

definition OpenConnector :: "dsn_env \<Rightarrow> platform \<Rightarrow> bytes \<Rightarrow> (error + connector) option" where
  "OpenConnector env pf d = andThen (ParseDSN env d) (\<lambda>cf. Some (newConnector pf cf))"

text \<open>The configuration given is cloned, so the caller's is left alone.\<close>

definition NewConnector :: "dsn_env \<Rightarrow> platform \<Rightarrow> Config \<Rightarrow> error + connector" where
  "NewConnector env pf cf = onOk (normalize env cf) (newConnector pf)"

section \<open>Dialling\<close>

text \<open>
  The registered dial functions by network, and the library's dialler.  What they give stands for a
  connection of which only the network and its environment count.
\<close>

record dialler =
  dials :: "bytes \<Rightarrow> (bytes \<Rightarrow> error + conn) option"
  netDial :: "bytes \<Rightarrow> bytes \<Rightarrow> error + conn"

definition RegisterDialContext :: "bytes \<Rightarrow> (bytes \<Rightarrow> error + conn) \<Rightarrow> dialler \<Rightarrow> dialler" where
  "RegisterDialContext n dial d = d\<lparr>dials := (dials d)(n := Some dial)\<rparr>"

definition DeregisterDialContext :: "bytes \<Rightarrow> dialler \<Rightarrow> dialler" where
  "DeregisterDialContext n d = d\<lparr>dials := (dials d)(n := None)\<rparr>"

definition RegisterDial :: "bytes \<Rightarrow> (bytes \<Rightarrow> error + conn) \<Rightarrow> dialler \<Rightarrow> dialler" where
  "RegisterDial n dial d = RegisterDialContext n dial d"

definition dial_server :: "dialler \<Rightarrow> Config \<Rightarrow> error + conn" where
  "dial_server d cf = (case dials d (cNet cf) of
     Some dial \<Rightarrow> dial (cAddr cf) | None \<Rightarrow> netDial d (cNet cf) (cAddr cf))"

section \<open>\<open>Connect\<close>\<close>

definition conn_config :: "Config \<Rightarrow> config" where
  "conn_config cf = \<lparr>checkConnLiveness = cCheckConnLiveness cf, rejectReadOnly = cRejectReadOnly cf,
     columnsWithAlias = cColumnsWithAlias cf, allowAllFiles = cAllowAllFiles cf, interpolates = cInterpolateParams cf\<rparr>"

text \<open>A new connection over a network: everything but the network's part is set.\<close>

definition new_conn :: "Config \<Rightarrow> conn \<Rightarrow> conn" where
  "new_conn cf c = c\<lparr>cbuf := newBuffer\<lparr>btimeout := cReadTimeout cf\<rparr>, sent := [], netConn := True, netClosed := False,
     cfg := conn_config cf, affectedRows := [], insertIds := [], maxAllowedPacket := int maxPacketSize,
     maxWriteSize := int maxPacketSize - 1, parseTime := cParseTime cf, writeTimeout := cWriteTimeout cf,
     cstatus := 0, sequence := 0, creset := False, canceled := None, closed := False\<rparr>"

definition defaultAuthPlugin :: bytes where "defaultAuthPlugin = str ''mysql_native_password''"

text \<open>The plugin asked for, or the default one if it cannot be used.\<close>

definition first_answer :: "crypto \<Rightarrow> Config \<Rightarrow> bytes \<Rightarrow> bytes \<Rightarrow> (error + bytes \<times> bytes) option" where
  "first_answer cr cf authData plugin =
     (let p = (if plugin = [] then defaultAuthPlugin else plugin)
      in do {
           a \<leftarrow> auth cr cf (authData, []) p;
           case a of
             Inr r \<Rightarrow> Some (Inr (p, r))
           | Inl _ \<Rightarrow> andThen (auth cr cf (authData, []) defaultAuthPlugin) (\<lambda>r. Some (Inr (defaultAuthPlugin, r))) })"

definition set_limits :: "int \<Rightarrow> conn \<Rightarrow> conn" where
  "set_limits m mc = mc\<lparr>maxAllowedPacket := m,
     maxWriteSize := (if m < int maxPacketSize then m else maxWriteSize mc)\<rparr>"

text \<open>The session is set up: the packet size, asked of the server if need be, and the parameters.\<close>

definition set_up :: "Config \<Rightarrow> conn \<Rightarrow> ((error + conn) \<times> conn) option" where
  "set_up cf mc = do {
     (r, mc1) \<leftarrow> (if 0 < cMaxAllowedPacket cf then Some (Inr (cMaxAllowedPacket cf), mc)
        else do {
          (v, m) \<leftarrow> getSystemVar (str ''max_allowed_packet'') mc;
          Some (case v of Inl e \<Rightarrow> Inl e | Inr b \<Rightarrow> Inr (wrap64 (stringToInt b - 1)), m) });
     case r of
       Inl e \<Rightarrow> do { (_, mc2) \<leftarrow> Close mc1; Some (Inl e, mc2) }
     | Inr m \<Rightarrow> do {
         (e, mc2) \<leftarrow> handleParams (cCollation cf) (cParams cf) (set_limits m mc1);
         case e of
           Some err \<Rightarrow> do { (_, mc3) \<leftarrow> Close mc2; Some (Inl err, mc3) }
         | None \<Rightarrow> Some (Inr mc2, mc2) } }"

text \<open>
  The connection phase on a new connection: the result, the connection as it was left, and the
  configuration, which the connector shares with the connection.
\<close>

definition handshake :: "crypto \<Rightarrow> connector \<Rightarrow> conn \<Rightarrow> ((error + unit) \<times> Config \<times> conn) option" where
  "handshake cr k mc = do {
     (g, cf, mc1) \<leftarrow> readHandshakePacket (kCfg k) mc;
     case g of
       Inl e \<Rightarrow> Some (Inl e, cf, cleanup mc1)
     | Inr (authData, plugin, flags) \<Rightarrow> do {
         a \<leftarrow> first_answer cr cf authData plugin;
         case a of
           Inl e \<Rightarrow> Some (Inl e, cf, cleanup mc1)
         | Inr (p, authResp) \<Rightarrow> do {
             (e, mc2) \<leftarrow> writeHandshakeResponsePacket cr cf (kAttributes k) flags authResp p mc1;
             case e of
               Some err \<Rightarrow> Some (Inl err, cf, cleanup mc2)
             | None \<Rightarrow> do {
                 (e2, mc3) \<leftarrow> handleAuthResult cr cf authData p mc2;
                 Some (case e2 of Some err \<Rightarrow> (Inl err, cf, cleanup mc3) | None \<Rightarrow> (Inr (), cf, mc3)) } } } }"

definition Connect :: "crypto \<Rightarrow> dialler \<Rightarrow> connector \<Rightarrow> ((error + conn) \<times> connector) option" where
  "Connect cr d k =
     (case dial_server d (kCfg k) of
        Inl e \<Rightarrow> Some (Inl e, k)
      | Inr c \<Rightarrow> do {
          (r, cf, mc) \<leftarrow> handshake cr k (new_conn (kCfg k) c);
          let k1 = k\<lparr>kCfg := cf\<rparr>;
          case r of
            Inl e \<Rightarrow> Some (Inl e, k1)
          | Inr _ \<Rightarrow> do { (s, mc1) \<leftarrow> set_up cf mc; Some (s, k1) } })"

definition driver_Open :: "crypto \<Rightarrow> dialler \<Rightarrow> dsn_env \<Rightarrow> platform \<Rightarrow> bytes \<Rightarrow> (error + conn) option" where
  "driver_Open cr d env pf name = do {
     c \<leftarrow> CreateConnector env pf name;
     case c of
       Inl e \<Rightarrow> Some (Inl e)
     | Inr k \<Rightarrow> do { (r, _) \<leftarrow> Connect cr d k; Some r } }"

end
