(* ===== verification/DriverProps.thy ===== *)
theory DriverProps
  imports AuthProps Driver
begin

text \<open>
  What \<open>Connect\<close> promises: with a server that greets, waits and accepts it gives a connection that
  is ready for commands; and what it does to old servers and to the shared configuration.
\<close>

section \<open>A script that goes on\<close>

text \<open>A read that succeeds on what has arrived succeeds the same when more will arrive.\<close>

definition later :: "read_event list \<Rightarrow> net \<Rightarrow> net" where
  "later evs nc = nc\<lparr>script := script nc @ evs\<rparr>"

definition arriving_later :: "read_event list \<Rightarrow> conn \<Rightarrow> conn" where
  "arriving_later evs mc = mc\<lparr>cnet := later evs (cnet mc)\<rparr>"

lemma later_fields [simp]: "deadlineErr (later evs nc) = deadlineErr nc" "script (later evs nc) = script nc @ evs"
  by (simp_all add: later_def)

lemma fill_loop_later:
  "fill_loop need c n evs1 = (None, c', n', evs') \<Longrightarrow> n < need \<Longrightarrow>
     fill_loop need c n (evs1 @ evs) = (None, c', n', evs' @ evs)"
  by (induction need c n evs1 rule: fill_loop.induct) (auto simp: Let_def split: if_splits option.splits)

lemma readNext_later:
  assumes "readNext need b nc = (Inr r, b', nc')"
  shows "readNext need b (later evs nc) = (Inr r, b', later evs nc')"
proof (cases "blen b < need")
  case False
  then show ?thesis using assms by (auto simp: readNext_def)
next
  case True
  have "blen b < need" by fact
  obtain e b1 nc1 where f: "fill need b nc = (e, b1, nc1)" by (cases "fill need b nc")
  then have e: "e = None" using assms True by (auto simp: readNext_def split: option.splits)
  obtain c n evs1 where l: "fill_loop need (mem (fill_move need b) ! cur (fill_move need b)) (blen b) (script nc) = (None, c, n, evs1)"
    "\<not> (0 < btimeout b \<and> deadlineErr nc \<noteq> None)"
    using f e by (auto simp: fill_def Let_def split: if_splits prod.splits)
  have "fill need b (later evs nc) = (None, b1, later evs nc1)"
    using f e l fill_loop_later [OF l(1) True, of evs] by (auto simp: fill_def Let_def later_def)
  then show ?thesis using assms f e True by (auto simp: readNext_def)
qed

lemma conn_read_later:
  "conn_read n mc = (Inr r, mc') \<Longrightarrow> conn_read n (arriving_later evs mc) = (Inr r, arriving_later evs mc')"
  using readNext_later [of n "cbuf mc" "cnet mc" r]
  by (auto simp: conn_read_def arriving_later_def split: prod.splits)

lemma later_conn [simp]:
  "content (arriving_later evs mc) r = content mc r" "sequence (arriving_later evs mc) = sequence mc"
  "view (cbuf (arriving_later evs mc)) r = view (cbuf mc) r" "cbuf (arriving_later evs mc) = cbuf mc"
  "(arriving_later evs mc)\<lparr>sequence := x\<rparr> = arriving_later evs (mc\<lparr>sequence := x\<rparr>)"
  by (simp_all add: arriving_later_def content_def)

lemma read_failed_Inl: "read_failed mc \<noteq> Some (Inr v, mc')"
  by (auto simp: read_failed_def split: option.splits)

lemma read_loop_later:
  "read_loop prev mc = Some (Inr v, mc') \<Longrightarrow> read_loop prev (arriving_later evs mc) = Some (Inr v, arriving_later evs mc')"
proof (induction prev mc rule: read_loop.induct)
  case (1 prev mc)
  obtain ref mc1 where r: "conn_read 4 mc = (Inr ref, mc1)"
    using 1(2) read_failed_Inl by (subst (asm) read_loop.simps) (auto split: prod.splits sum.splits)
  define mc2 where "mc2 = mc1\<lparr>sequence := sequence mc1 + 1\<rparr>"
  let ?data = "content mc1 ref"
  have s: "?data ! 3 = sequence mc1"
    using 1(2) r by (subst (asm) read_loop.simps) (auto simp: Let_def split: if_splits)
  show ?case
  proof (cases "pkt_len ?data = 0")
    case True
    then show ?thesis using 1(2) r s conn_read_later [OF r, of evs]
      by (subst read_loop.simps, subst (asm) read_loop.simps) (auto simp: Let_def split: option.splits)
  next
    case False
    obtain ref2 mc3 where r2: "conn_read (pkt_len ?data) mc2 = (Inr ref2, mc3)"
      using 1(2) r s False read_failed_Inl
      by (subst (asm) read_loop.simps) (auto simp: Let_def mc2_def split: prod.splits sum.splits)
    note l = conn_read_later [OF r, of evs] conn_read_later [OF r2, of evs]
    show ?thesis
    proof (cases "pkt_len ?data < maxPacketSize")
      case True
      then show ?thesis using 1(2) r s False r2 l
        by (subst read_loop.simps, subst (asm) read_loop.simps) (auto simp: Let_def mc2_def split: option.splits)
    next
      case long: False
      let ?p = "Some ((case prev of None \<Rightarrow> [] | Some p \<Rightarrow> p) @ content mc3 ref2)"
      have "read_loop ?p mc3 = Some (Inr v, mc')"
        using 1(2) r s False r2 long by (subst (asm) read_loop.simps) (auto simp: Let_def mc2_def)
      then have "read_loop ?p (arriving_later evs mc3) = Some (Inr v, arriving_later evs mc')"
        using 1(1) [OF r [symmetric] refl refl refl _ refl False r2 [unfolded mc2_def, symmetric] refl long] s by simp
      then show ?thesis using r s False r2 long l
        by (subst read_loop.simps) (auto simp: Let_def mc2_def)
    qed
  qed
qed


lemma readPacket_later:
  "readPacket mc = Some (Inr v, mc') \<Longrightarrow> readPacket (arriving_later evs mc) = Some (Inr v, arriving_later evs mc')"
  by (simp add: readPacket_def read_loop_later)

lemma later_reads:
  assumes "readable mc" and "clean evs"
  shows "readable (arriving_later evs mc)" and "incoming (arriving_later evs mc) = incoming mc @ arriving evs"
  using assms by (auto simp: readable_def incoming_def arriving_later_def src_fine_def src_rest_def arriving_def clean_def)

text \<open>What is read before the rest arrives leaves nothing in the buffer.\<close>

lemma nothing_pending: "readable mc \<Longrightarrow> incoming mc = [] \<Longrightarrow> blen (cbuf mc) = 0"
  using length_pending [of "cbuf mc"] by (simp add: readable_def incoming_def src_rest_def)

lemma readPacket_waiting:
  assumes "readable mc" and "incoming mc = frames (sequence mc) p" and "p \<noteq> []" and "length p < maxPacketSize" and "clean evs"
  shows "\<exists>v b nc. readPacket (arriving_later evs mc) = Some (Inr v, mc\<lparr>cbuf := b, cnet := nc, sequence := sequence mc + 1\<rparr>) \<and>
    fst v = p \<and> blen b = 0 \<and> readable (mc\<lparr>cbuf := b, cnet := nc\<rparr>) \<and> incoming (mc\<lparr>cbuf := b, cnet := nc\<rparr>) = arriving evs"
proof -
  have one: "of_nat (frame_count p) = (1 :: byte)" using assms(4) by (simp add: frame_count_def)
  obtain v b nc where r: "readPacket mc = Some (Inr v, mc\<lparr>cbuf := b, cnet := nc, sequence := sequence mc + 1\<rparr>)"
    and v: "fst v = p" "incoming (mc\<lparr>cbuf := b, cnet := nc\<rparr>) = []" "readable (mc\<lparr>cbuf := b, cnet := nc\<rparr>)"
    using read_loop_frames [OF assms(1), of p "[]" None] assms(2,3) one
    by (auto simp: readPacket_def collected_def)
  have "readPacket (arriving_later evs mc) =
      Some (Inr v, mc\<lparr>cbuf := b, cnet := later evs nc, sequence := sequence mc + 1\<rparr>)"
    using readPacket_later [OF r, of evs] by (simp add: arriving_later_def)
  moreover have "blen b = 0" using nothing_pending [OF v(3,2)] by simp
  moreover have "mc\<lparr>cbuf := b, cnet := later evs nc\<rparr> = arriving_later evs (mc\<lparr>cbuf := b, cnet := nc\<rparr>)"
    by (simp add: arriving_later_def)
  ultimately show ?thesis
    using later_reads [OF v(3) assms(5)] v(1,2) by (intro exI [of _ v] exI [of _ b] exI [of _ "later evs nc"]) simp
qed

section \<open>The response\<close>

text \<open>The payload of the handshake response.\<close>

definition response :: "Config \<Rightarrow> bytes \<Rightarrow> u32 \<Rightarrow> byte \<Rightarrow> bytes \<Rightarrow> bytes \<Rightarrow> bytes" where
  "response cf attrs flags coll answer plugin =
     (let lenc = appendLengthEncodedInteger [] (of_nat (length answer))
      in response_head cf (client_flag_set cf flags lenc) coll @ response_user cf lenc answer @
         plugin @ [0] @ [of_nat (length attrs)] @ attrs)"

lemma put_put:
  "off + n + length x + length y \<le> length (mem (cbuf mc) ! a) \<Longrightarrow> a < length (mem (cbuf mc)) \<Longrightarrow>
     put (a, off, l2) (n + length x) y (put (a, off, l1) n x mc) = put (a, off, l3) n (x @ y) mc"
  by (cases x) (auto simp: put_def overwrite_def min_def drop_append take_Cons' ac_simps)

lemma response_sent:
  assumes "writable mc" and "idle mc" and "\<not> creset mc" and "cTLS cf = None"
    and "collations (if cCollation cf = [] then defaultCollation else cCollation cf) = Some coll"
    and "length plugin \<le> 21"
    and "length (response cf attrs flags coll answer plugin) + 25 - length plugin \<le> defaultBufSize"
    and "int (length (response cf attrs flags coll answer plugin)) \<le> maxAllowedPacket mc"
  shows "\<exists>b. writeHandshakeResponsePacket cr cf attrs flags answer plugin mc =
      Some (None, mc\<lparr>cbuf := b, sent := sent mc @ frames (sequence mc) (response cf attrs flags coll answer plugin),
        sequence := sequence mc + 1\<rparr>) \<and> blen b = 0 \<and> buf_inv b"
proof -
  define lenc where "lenc = appendLengthEncodedInteger [] (of_nat (length answer))"
  define head where "head = response_head cf (client_flag_set cf flags lenc) coll"
  define rest where "rest = response_user cf lenc answer"
  define body where "body = rest @ plugin @ [0] @ [of_nat (length attrs)] @ attrs"
  have resp: "response cf attrs flags coll answer plugin = head @ body"
    by (simp add: response_def Let_def head_def rest_def body_def lenc_def)
  have lh: "length head = 32" by (simp add: head_def response_head_def)
  have lb: "length body = length rest + length plugin + 2 + length attrs" by (simp add: body_def)
  let ?a = "cur (cbuf mc)"
  have room: "?a < length (mem (cbuf mc))" "defaultBufSize \<le> length (mem (cbuf mc) ! ?a)"
    using idle_room assms(2) by (simp_all add: idle_def)
  let ?n = "4 + 4 + 1 + 23 + length rest + 21 + 1 + 1 + length attrs + 4"
  have n: "?n \<le> defaultBufSize" using assms(6,7) lh lb by (simp add: resp)
  then have take: "takeSmallBuffer ?n (cbuf mc) = Some (Inr (?a, 0, ?n))"
    using room(2) assms(2) by (simp add: takeSmallBuffer_def idle_def)
  have tail: "response_tail (21 + 1 + 1 + length attrs) plugin attrs = Some (plugin @ [0] @ [of_nat (length attrs)] @ attrs)"
    using assms(6) by (simp add: response_tail_def)
  have "put (?a, 0, ?n) (4 + length head) body (put (?a, 0, ?n) 4 head mc) = put (?a, 0, 4 + length (head @ body)) 4 (head @ body) mc"
    using room n lh lb assms(6) by (intro put_put) auto
  then have p: "put (?a, 0, ?n) 36 body (put (?a, 0, ?n) 4 head mc) = put (?a, 0, 4 + length (head @ body)) 4 (head @ body) mc"
    using lh by simp
  obtain b where w: "writePacket (?a, 0, 4 + length (head @ body)) (put (?a, 0, 4 + length (head @ body)) 4 (head @ body) mc) =
      Some (None, mc\<lparr>cbuf := b, sent := sent mc @ frames (sequence mc) (head @ body),
        sequence := sequence mc + of_nat (frame_count (head @ body))\<rparr>)" "blen b = blen (cbuf mc)" "buf_inv b"
    using write_args [OF assms(1,3), of "head @ body" ?a] assms(2,8) room n lh lb assms(6)
    by (auto simp: resp idle_def)
  have one: "of_nat (frame_count (head @ body)) = (1 :: byte)"
    using n lh lb assms(6) by (simp add: frame_count_def defaultBufSize_def maxPacketSize_def)
  have eq: "36 + length body = 4 + length (head @ body)" using lh by simp
  have wh: "writeHandshakeResponsePacket cr cf attrs flags answer plugin mc =
      writePacket (?a, 0, 36 + length body) (put (?a, 0, ?n) 36 body (put (?a, 0, ?n) 4 head mc))"
    unfolding writeHandshakeResponsePacket_def Let_def lenc_def [symmetric] rest_def [symmetric]
    by (simp only: take assms(4,5) Some_bind sum.case option.case prod.case head_def [symmetric] tail body_def [symmetric] simp_thms if_False)
  show ?thesis unfolding wh eq p resp using w assms(2) one by (auto simp: idle_def)
qed

section \<open>The whole connection phase\<close>

definition ok_packet :: "u64 \<Rightarrow> u64 \<Rightarrow> u16 \<Rightarrow> bytes \<Rightarrow> bytes" where
  "ok_packet a i st rest = 0 # lei a @ lei i @ putle 2 st @ rest"

lemma ok_packet_read:
  "handleOkPacket (ok_packet a i st rest, sp) mc =
     Some (None, mc\<lparr>affectedRows := set_last (sint a) (affectedRows mc), insertIds := set_last (sint i) (insertIds mc), cstatus := st\<rparr>)"
proof -
  let ?d = "ok_packet a i st rest"
  have "slice_from (([0] @ lei a) @ lei i @ putle 2 st @ rest, sp) (int (length ([0] @ lei a))) = Some (lei i @ putle 2 st @ rest, sp)"
    by (rule slice_from_append)
  then have "slice_from (?d, sp) (1 + int (length (lei a))) = Some (lei i @ putle 2 st @ rest, sp)"
    by (simp add: ok_packet_def)
  moreover have "slice_from (?d, sp) 1 = Some (lei a @ lei i @ putle 2 st @ rest, sp)"
    by (simp add: ok_packet_def slice_from_def)
  moreover have "slice (([0] @ lei a @ lei i) @ putle 2 st @ rest, sp) (1 + int (length (lei a)) + int (length (lei i)))
      (1 + int (length (lei a)) + int (length (lei i)) + 2) = Some (putle 2 st, rest @ sp)"
    by (rule slice_mid) simp_all
  then have "slice (?d, sp) (1 + int (length (lei a)) + int (length (lei i)))
      (1 + int (length (lei a)) + int (length (lei i)) + 2) = Some (putle 2 st, rest @ sp)"
    by (simp add: ok_packet_def)
  moreover have "readStatus (putle 2 st) = Some st"
    using getle_putle_id [of 2 st] by (simp add: readStatus_def idx_def eval_nat_numeral getle_forms)
  ultimately show ?thesis by (simp add: handleOkPacket_def readLEI_lei)
qed

text \<open>A network without errors, of which the peer sends the rest after a pause.\<close>

definition peer :: "conn \<Rightarrow> read_event list \<Rightarrow> read_event list \<Rightarrow> bool" where
  "peer c evs1 evs2 \<longleftrightarrow> wresults c = [] \<and> wdeadlineErr c = None \<and> deadlineErr (cnet c) = None \<and>
     script (cnet c) = evs1 @ evs2 \<and> clean evs1 \<and> clean evs2"

lemma new_conn_peer:
  assumes "peer c evs1 evs2"
  obtains mc where "new_conn cf c = arriving_later evs2 mc" "readable mc" "incoming mc = arriving evs1" "writable mc"
    "sequence mc = 0" "sent mc = []" "\<not> creset mc" "\<not> closed mc" "maxAllowedPacket mc = int maxPacketSize"
    "affectedRows mc = []" "insertIds mc = []" "canceled mc = None"
proof
  let ?mc = "(new_conn cf c)\<lparr>cnet := (cnet c)\<lparr>script := evs1\<rparr>\<rparr>"
  show "new_conn cf c = arriving_later evs2 ?mc"
    using assms by (simp add: arriving_later_def later_def new_conn_def peer_def)
  show "readable ?mc" "incoming ?mc = arriving evs1" "writable ?mc"
    using assms newBuffer_inv
    by (simp_all add: peer_def new_conn_def readable_def incoming_def writable_def src_fine_def src_rest_def pending_def newBuffer_def buf_inv_def addr_ok_def roomy_def)
qed (simp_all add: new_conn_def)

text \<open>A connection between two packets, with nothing unread.\<close>

definition ready :: "conn \<Rightarrow> bool" where
  "ready mc \<longleftrightarrow> writable mc \<and> readable mc \<and> idle mc \<and> \<not> creset mc \<and> \<not> closed mc \<and> canceled mc = None \<and>
     affectedRows mc = [] \<and> insertIds mc = []"

lemma length_greeting:
  assumes "length cid = 4" and "length mid = 6" and "length salt = 20"
  shows "length (greeting_packet ver cid flags mid salt plugin) = length ver + length plugin + 47"
  using assms by (simp add: greeting_packet_def)

lemma greeting_arrives:
  assumes "peer c evs1 evs2" and "arriving evs1 = frames 0 g" and "hd g = 10" and "g \<noteq> []" and "length g < maxPacketSize"
    and "\<And>sp. greeting (g, sp) cf = Some (Inr r, cf1)"
  shows "\<exists>mc. readHandshakePacket cf (new_conn cf0 c) = Some (Inr r, cf1, mc) \<and> ready mc \<and> incoming mc = arriving evs2 \<and>
    sequence mc = 1 \<and> sent mc = [] \<and> maxAllowedPacket mc = int maxPacketSize"
proof -
  obtain m where m: "new_conn cf0 c = arriving_later evs2 m" "readable m" "incoming m = arriving evs1" "writable m"
    "sequence m = 0" "sent m = []" "\<not> creset m" "\<not> closed m" "maxAllowedPacket m = int maxPacketSize"
    "affectedRows m = []" "insertIds m = []" "canceled m = None"
    by (rule new_conn_peer [OF assms(1)])
  have "clean evs2" using assms(1) by (simp add: peer_def)
  then obtain v b nc where v: "readPacket (new_conn cf0 c) = Some (Inr v, m\<lparr>cbuf := b, cnet := nc, sequence := 1\<rparr>)"
    "fst v = g" "blen b = 0" "readable (m\<lparr>cbuf := b, cnet := nc\<rparr>)" "incoming (m\<lparr>cbuf := b, cnet := nc\<rparr>) = arriving evs2"
    using readPacket_waiting [OF m(2) _ assms(4,5), of evs2] m(1,3,5) assms(2) by auto
  let ?mc = "m\<lparr>cbuf := b, cnet := nc, sequence := 1\<rparr>"
  have same: "incoming ?mc = incoming (m\<lparr>cbuf := b, cnet := nc\<rparr>)" "readable ?mc = readable (m\<lparr>cbuf := b, cnet := nc\<rparr>)"
    by (simp_all add: incoming_def readable_def)
  obtain sp where sp: "v = (g, sp)" using v(2) by (cases v) simp
  have "idx g 0 = Some 10" using assms(3,4) by (cases g) (auto simp: idx_def)
  then have "readHandshakePacket cf (new_conn cf0 c) = Some (Inr r, cf1, ?mc)"
    using assms(6) [of sp] by (simp add: readHandshakePacket_def v(1) sp iERR_def minProtocolVersion_def)
  moreover have "ready ?mc"
    using v(3,4) m by (auto simp: ready_def idle_def same writable_def readable_def)
  ultimately show ?thesis using v(5) m by (auto simp: same)
qed

lemma accepted:
  assumes "ready mc" and "incoming mc = frames (sequence mc) (ok_packet a i st rest)"
    and "length (ok_packet a i st rest) < maxPacketSize"
  shows "\<exists>b nc. handleAuthResult cr cf old plugin mc =
      Some (None, mc\<lparr>cbuf := b, cnet := nc, sequence := sequence mc + 1, cstatus := st\<rparr>) \<and>
    incoming (mc\<lparr>cbuf := b, cnet := nc\<rparr>) = [] \<and> readable (mc\<lparr>cbuf := b, cnet := nc\<rparr>) \<and> blen b = 0"
proof -
  let ?p = "ok_packet a i st rest"
  have "?p \<noteq> []" and d0: "idx ?p 0 = Some 0" by (simp_all add: ok_packet_def idx_def)
  then obtain v b nc where v: "readPacket mc = Some (Inr v, mc\<lparr>cbuf := b, cnet := nc, sequence := sequence mc + 1\<rparr>)"
    "fst v = ?p" "readable (mc\<lparr>cbuf := b, cnet := nc\<rparr>)" "incoming (mc\<lparr>cbuf := b, cnet := nc\<rparr>) = []" "blen b = 0"
    using readPacket_waiting [of mc ?p "[]"] assms by (auto simp: ready_def arriving_later_def later_def arriving_def)
  obtain sp where sp: "v = (?p, sp)" using v(2) by (cases v) simp
  have "readAuthResult mc = Some (Inr (None, []), mc\<lparr>cbuf := b, cnet := nc, sequence := sequence mc + 1, cstatus := st\<rparr>)"
    using assms(1) by (simp add: readAuthResult_def v(1) sp d0 iOK_def ok_packet_read set_last_def ready_def)
  then show ?thesis using v by (auto simp: handleAuthResult_def finish_auth_def)
qed

lemma collations_str: "collations (str n) = map_option of_nat (map_of collation_names n)"
proof -
  have "map_of (map (\<lambda>(m, i). (str m, i)) xs) (str n) = map_of xs n" for xs :: "(string \<times> nat) list"
    by (induction xs) (auto simp: str_eq_iff)
  then show ?thesis by (simp add: collations_def)
qed

lemma default_collation: "collations defaultCollation = Some 45"
  unfolding defaultCollation_def collations_str by code_simp

section \<open>Properties\<close>

text \<open>A server that greets, waits for the response, and accepts it.\<close>

definition accepting :: "connector \<Rightarrow> conn \<Rightarrow> bytes \<Rightarrow> bytes \<Rightarrow> u16 \<Rightarrow> u16 \<Rightarrow> bool" where
  "accepting k c salt plugin flags st \<longleftrightarrow>
     (\<exists>evs1 evs2 ver cid mid a i rest. peer c evs1 evs2 \<and>
        arriving evs1 = frames 0 (greeting_packet ver cid flags mid salt plugin) \<and> 0 \<notin> set ver \<and> length ver < 256 \<and>
        length cid = 4 \<and> length mid = 6 \<and> length salt = 20 \<and> 0 \<notin> set plugin \<and> length plugin \<le> 21 \<and>
        flags_ok (kCfg k) (ucast flags) \<and>
        arriving evs2 = frames 2 (ok_packet a i st rest) \<and> length rest < 2 ^ 16)"

lemma connect_accepted:
  assumes "dial_server d (kCfg k) = Inr c" and "accepting k c salt plugin flags st"
    and "cf = after_greeting (kCfg k) (ucast flags)" and "cTLS cf = None"
    and "p = (if plugin = [] then defaultAuthPlugin else plugin)" and "auth cr cf (salt, []) p = Some (Inr answer)"
    and "collations (if cCollation cf = [] then defaultCollation else cCollation cf) = Some coll"
    and "length (response cf (kAttributes k) (ucast flags) coll answer p) \<le> 4000"
    and "0 < cMaxAllowedPacket cf" and "cParams cf = []"
  shows "\<exists>mc. Connect cr d k = Some (Inr mc, k\<lparr>kCfg := cf\<rparr>) \<and>
    sent mc = frames 1 (response cf (kAttributes k) (ucast flags) coll answer p) \<and>
    ready mc \<and> incoming mc = [] \<and> cstatus mc = st \<and> maxAllowedPacket mc = cMaxAllowedPacket cf"
proof -
  obtain evs1 evs2 ver cid mid a i rest where acc: "peer c evs1 evs2"
    "arriving evs1 = frames 0 (greeting_packet ver cid flags mid salt plugin)" "0 \<notin> set ver" "length ver < 256"
    "length cid = 4" "length mid = 6" "length salt = 20" "0 \<notin> set plugin" "length plugin \<le> 21"
    "flags_ok (kCfg k) (ucast flags)" "arriving evs2 = frames 2 (ok_packet a i st rest)" "length rest < 2 ^ 16"
    using assms(2) by (auto simp: accepting_def)
  let ?g = "greeting_packet ver cid flags mid salt plugin" and ?ok = "ok_packet a i st rest"
  let ?r = "response cf (kAttributes k) (ucast flags) coll answer p"
  have lg: "length ?g < maxPacketSize" using length_greeting [OF acc(5,6,7)] acc(4,9) by (simp add: maxPacketSize_def)
  have lo: "length ?ok < maxPacketSize"
    using acc(12) length_lei [of a] length_lei [of i] by (simp add: ok_packet_def maxPacketSize_def)
  have lp: "length p \<le> 21" using assms(5) acc(9) by (simp add: defaultAuthPlugin_def str_def)
  obtain m where m: "readHandshakePacket (kCfg k) (new_conn (kCfg k) c) = Some (Inr (salt, plugin, ucast flags), cf, m)"
    "ready m" "incoming m = arriving evs2" "sequence m = 1" "sent m = []" "maxAllowedPacket m = int maxPacketSize"
    using greeting_arrives [OF acc(1,2) _ _ lg greeting_read [OF acc(3,5,6,7,8,10)], of "kCfg k"] assms(3)
    by (auto simp: greeting_packet_def)
  have first: "first_answer cr cf salt plugin = Some (Inr (p, answer))"
    using assms(5,6) by (simp add: first_answer_def Let_def)
  have small: "length ?r + 25 - length p \<le> defaultBufSize" "int (length ?r) \<le> maxAllowedPacket m"
    using assms(8) m(6) by (simp_all add: defaultBufSize_def maxPacketSize_def)
  obtain b where w: "writeHandshakeResponsePacket cr cf (kAttributes k) (ucast flags) answer p m =
      Some (None, m\<lparr>cbuf := b, sent := frames 1 ?r, sequence := 2\<rparr>)" "blen b = 0" "buf_inv b"
    using response_sent [of m cf coll p "kAttributes k" "ucast flags" answer cr, OF _ _ _ assms(4,7) lp small] m(2,4,5)
    by (auto simp: ready_def)
  let ?m2 = "m\<lparr>cbuf := b, sent := frames 1 ?r, sequence := 2\<rparr>"
  have in2: "incoming ?m2 = arriving evs2"
    using m(2,3) w(2) by (simp add: ready_def idle_def incoming_def src_rest_def pending_def)
  have r2: "ready ?m2" using m(2) w by (auto simp: ready_def idle_def readable_def writable_def src_fine_def)
  obtain b2 nc where h: "handleAuthResult cr cf salt p ?m2 =
      Some (None, ?m2\<lparr>cbuf := b2, cnet := nc, sequence := sequence ?m2 + 1, cstatus := st\<rparr>)"
    "incoming (?m2\<lparr>cbuf := b2, cnet := nc\<rparr>) = []" "readable (?m2\<lparr>cbuf := b2, cnet := nc\<rparr>)" "blen b2 = 0"
    using accepted [OF r2, of a i st rest cr cf salt p] in2 acc(11) lo by auto
  let ?m3 = "?m2\<lparr>cbuf := b2, cnet := nc, sequence := sequence ?m2 + 1, cstatus := st\<rparr>"
  let ?m4 = "set_limits (cMaxAllowedPacket cf) ?m3"
  have "Connect cr d k = Some (Inr ?m4, k\<lparr>kCfg := cf\<rparr>)"
    using assms(9,10) by (simp add: Connect_def assms(1) handshake_def m(1) first w(1) h(1) set_up_def handleParams_def Let_def)
  moreover have "ready ?m4" using h r2 by (auto simp: ready_def set_limits_def writable_def readable_def idle_def)
  moreover have "incoming ?m4 = []" using h(2) by (simp add: set_limits_def incoming_def)
  ultimately show ?thesis by (auto simp: set_limits_def)
qed

text \<open>
  C13: \<open>Connect\<close> reaches a server that accepts the user, for a configuration without TLS and without parameters to
  set, as the proxy's is, and a response of at most 4000 bytes: it answers the greeting with one packet, the response
  of the protocol with the answer of the server's method, numbered 1, and gives a connection that is idle and open,
  with nothing unread, the server's status and the configured limits, ready for \<open>command_sends_frames\<close>.  The
  configuration is kept as the greeting left it.
\<close>

theorem connect_succeeds:
  assumes "dial_server d (kCfg k) = Inr c" and "accepting k c salt plugin flags st"
    and "cf = after_greeting (kCfg k) (ucast flags)" and "cTLS cf = None"
    and "p = (if plugin = [] then defaultAuthPlugin else plugin)" and "auth cr cf (salt, []) p = Some (Inr answer)"
    and "collations (if cCollation cf = [] then defaultCollation else cCollation cf) = Some coll"
    and "length (response cf (kAttributes k) (ucast flags) coll answer p) \<le> 4000"
    and "0 < cMaxAllowedPacket cf" and "cParams cf = []"
  shows "\<exists>mc. Connect cr d k = Some (Inr mc, k\<lparr>kCfg := cf\<rparr>) \<and>
    sent mc = frames 1 (response cf (kAttributes k) (ucast flags) coll answer p) \<and>
    ready mc \<and> incoming mc = [] \<and> cstatus mc = st \<and> maxAllowedPacket mc = cMaxAllowedPacket cf"
  using assms by (rule connect_accepted)

text \<open>A server as in the tests: the greeting without TLS, then the packet that accepts.\<close>

definition demo_greeting :: "u16 \<Rightarrow> bytes" where
  "demo_greeting flags = greeting_packet (str ''8.0'') [1, 0, 0, 0] flags [33, 2, 0, 0, 0, 21] (replicate 20 7) defaultAuthPlugin"

definition demo_server :: "u16 \<Rightarrow> conn" where
  "demo_server flags = fresh_conn [(frames 0 (demo_greeting flags), None), (frames 2 (ok_packet 0 0 2 []), None)]"

definition demo_dialler :: "u16 \<Rightarrow> dialler" where
  "demo_dialler flags = \<lparr>dials = (\<lambda>_. None), netDial = (\<lambda>_ _. Inr (demo_server flags))\<rparr>"

definition demo_connector :: "tlsconf option \<Rightarrow> connector" where
  "demo_connector t = \<lparr>kCfg = NewConfig\<lparr>cUser := str ''root'', cPasswd := str ''secret'', cNet := str ''tcp'',
     cAddr := str ''db:3306'', cTLS := t, cAllowFallbackToPlaintext := True\<rparr>, kAttributes = []\<rparr>"

lemma demo_fields:
  "cTLS (kCfg (demo_connector t)) = t" "cCollation (kCfg (demo_connector t)) = []" "cParams (kCfg (demo_connector t)) = []"
  "0 < cMaxAllowedPacket (kCfg (demo_connector t))" "cAllowNativePasswords (kCfg (demo_connector t))"
  "cPasswd (kCfg (demo_connector t)) = str ''secret''" "cDBName (kCfg (demo_connector t)) = []"
  "cUser (kCfg (demo_connector t)) = str ''root''" "kAttributes (demo_connector t) = []"
  "cAllowFallbackToPlaintext (kCfg (demo_connector t))" "(demo_connector t)\<lparr>kCfg := kCfg (demo_connector u)\<rparr> = demo_connector u"
  by (simp_all add: demo_connector_def NewConfig_def defaultMaxAllowedPacket_def)

lemma demo_peer:
  "peer (demo_server flags) [(frames 0 (demo_greeting flags), None)] [(frames 2 (ok_packet 0 0 2 []), None)]"
  "arriving [(x, None)] = x" "0 \<notin> set (str ''8.0'')" "length (str ''8.0'') < 256" "0 \<notin> set defaultAuthPlugin"
  "length defaultAuthPlugin \<le> 21" "length (replicate 20 (7 :: byte)) = 20" "length [1 :: byte, 0, 0, 0] = 4"
  "length [33 :: byte, 2, 0, 0, 0, 21] = 6" "dial_server (demo_dialler flags) cf = Inr (demo_server flags)"
  by (simp_all add: peer_def demo_server_def fresh_conn_def arriving_def str_def defaultAuthPlugin_def
      dial_server_def demo_dialler_def)

lemma demo_accepting:
  assumes "flags_ok (kCfg k) (ucast flags)"
  shows "accepting k (demo_server flags) (replicate 20 7) defaultAuthPlugin flags 2"
  using assms demo_peer(1) [of flags] demo_peer(2-9) unfolding accepting_def demo_greeting_def
  by (intro exI [of _ "[(frames 0 (demo_greeting flags), None)]"] exI [of _ "[(frames 2 (ok_packet 0 0 2 []), None)]"]
      exI [of _ "str ''8.0''"] exI [of _ "[1, 0, 0, 0]"] exI [of _ "[33, 2, 0, 0, 0, 21]"] exI [of _ 0] exI [of _ "[]"])
    (simp add: demo_greeting_def)

lemma response_length:
  "length (response cf attrs flags coll answer plugin) \<le>
     length (cUser cf) + length answer + length (cDBName cf) + length plugin + length attrs + 45"
  using length_lei [of "of_nat (length answer)"]
  by (simp add: response_def Let_def response_head_def response_user_def lei_def)

abbreviation demo_answer :: bytes where
  "demo_answer \<equiv> scramblePassword demo_crypto (replicate 20 7) (str ''secret'')"

lemma demo_premises:
  "auth demo_crypto (kCfg (demo_connector t)) (replicate 20 7, []) defaultAuthPlugin = Some (Inr demo_answer)"
  "collations (if cCollation (kCfg (demo_connector t)) = [] then defaultCollation else cCollation (kCfg (demo_connector t))) = Some 45"
  "length (response (kCfg (demo_connector t)) (kAttributes (demo_connector u)) flags 45 demo_answer defaultAuthPlugin) \<le> 4000"
  "flags_ok (kCfg (demo_connector t)) (ucast (0x8200 :: u16))"
  "kCfg (demo_connector None) = after_greeting (kCfg (demo_connector t)) (ucast (0x8200 :: u16))"
proof -
  show "auth demo_crypto (kCfg (demo_connector t)) (replicate 20 7, []) defaultAuthPlugin = Some (Inr demo_answer)"
    by (simp add: auth_def defaultAuthPlugin_def str_eq_iff slice_def demo_fields)
  show "collations (if cCollation (kCfg (demo_connector t)) = [] then defaultCollation else cCollation (kCfg (demo_connector t))) = Some 45"
    by (simp add: demo_fields default_collation)
  have "length demo_answer \<le> 20" by (simp add: scramblePassword_def demo_crypto_def Let_def xor_bytes_def)
  then show "length (response (kCfg (demo_connector t)) (kAttributes (demo_connector u)) flags 45 demo_answer defaultAuthPlugin) \<le> 4000"
    using response_length [of "kCfg (demo_connector t)" "kAttributes (demo_connector u)" flags 45 demo_answer defaultAuthPlugin]
    by (simp add: demo_fields defaultAuthPlugin_def str_def)
qed (simp_all add: flags_ok_def client_flags demo_fields after_greeting_def demo_connector_def)

theorem connect_succeeds_witness:
  "\<exists>mc. Connect demo_crypto (demo_dialler 0x8200) (demo_connector None) = Some (Inr mc, demo_connector None) \<and>
     ready mc \<and> cstatus mc = 2"
  using connect_succeeds [OF demo_peer(10) demo_accepting [OF demo_premises(4)] demo_premises(5) demo_fields(1) _
      demo_premises(1,2,3) demo_fields(4,3)]
  by (auto simp: demo_fields defaultAuthPlugin_def)

section \<open>Old servers\<close>

text \<open>
  The greeting of an old server ends with the flags and has a salt of eight bytes only.  The default
  method slices twenty bytes of it, so that \<open>Connect\<close> panics instead of reporting an error.
\<close>

theorem short_greeting_panics:
  assumes "dial_server d (kCfg k) = Inr c" and "peer c evs1 evs2"
    and "arriving evs1 = frames 0 (short_greeting ver cid flags salt)"
    and "0 \<notin> set ver" and "length ver < 256" and "length cid = 4" and "length salt = 8"
    and "flags_ok (kCfg k) (ucast flags)" and "cAllowNativePasswords (kCfg k)"
  shows "Connect cr d k = None"
proof -
  let ?cf = "after_greeting (kCfg k) (ucast flags)"
  have l: "length (short_greeting ver cid flags salt) < maxPacketSize"
    using assms by (simp add: short_greeting_def maxPacketSize_def)
  obtain m where "readHandshakePacket (kCfg k) (new_conn (kCfg k) c) = Some (Inr (salt, [], ucast flags), ?cf, m)"
    using greeting_arrives [OF assms(2,3) _ _ l short_greeting_read [OF assms(4,6,7,8)], of "kCfg k"]
    by (auto simp: short_greeting_def)
  moreover have "slice (salt, []) 0 20 = None" using assms(7) by (simp add: slice_def)
  then have "first_answer cr ?cf salt [] = None"
    using assms(9) by (simp add: first_answer_def Let_def auth_def defaultAuthPlugin_def str_eq_iff after_greeting_def)
  ultimately show ?thesis by (simp add: Connect_def assms(1) handshake_def)
qed

theorem short_greeting_panics_witness:
  "Connect demo_crypto \<lparr>dials = (\<lambda>_. None), netDial = (\<lambda>_ _. Inr (fresh_conn
     [(frames 0 (short_greeting (str ''4.0'') [1, 0, 0, 0] 0x200 (replicate 8 7)), None)]))\<rparr> (demo_connector None) = None"
  (is "Connect _ ?d _ = None")
proof (rule short_greeting_panics [where ver = "str ''4.0''" and cid = "[1, 0, 0, 0]" and flags = "0x200" and salt = "replicate 8 7"])
  show "dial_server ?d (kCfg (demo_connector None)) = Inr (fresh_conn
     [(frames 0 (short_greeting (str ''4.0'') [1, 0, 0, 0] 0x200 (replicate 8 7)), None)])"
    by (simp add: dial_server_def)
  show "peer (fresh_conn [(frames 0 (short_greeting (str ''4.0'') [1, 0, 0, 0] 0x200 (replicate 8 7)), None)])
     [(frames 0 (short_greeting (str ''4.0'') [1, 0, 0, 0] 0x200 (replicate 8 7)), None)] []"
    by (simp add: peer_def fresh_conn_def)
  show "flags_ok (kCfg (demo_connector None)) (ucast (0x200 :: u16))"
    by (simp add: flags_ok_def client_flags demo_connector_def NewConfig_def)
qed (simp_all add: arriving_def str_def demo_connector_def NewConfig_def)

section \<open>The shared configuration\<close>

text \<open>Everything but the handshake's TLS switch.\<close>

lemma crypto_fields:
  "sha1 (cr\<lparr>tlsClient := f\<rparr>) = sha1 cr" "sha256 (cr\<lparr>tlsClient := f\<rparr>) = sha256 cr" "oaep (cr\<lparr>tlsClient := f\<rparr>) = oaep cr"
  "pemDecode (cr\<lparr>tlsClient := f\<rparr>) = pemDecode cr" "parseKey (cr\<lparr>tlsClient := f\<rparr>) = parseKey cr"
  by simp_all

lemma tls_unused:
  "auth (cr\<lparr>tlsClient := f\<rparr>) = auth cr" "sendEncryptedPassword (cr\<lparr>tlsClient := f\<rparr>) = sendEncryptedPassword cr"
  "decode_key (cr\<lparr>tlsClient := f\<rparr>) = decode_key cr"
  unfolding fun_eq_iff auth_def sendEncryptedPassword_def encryptPassword_def scrambleSHA256Password_def
      scramblePassword_def decode_key_def crypto_fields by simp_all

lemma handle_tls_unused: "handleAuthResult (cr\<lparr>tlsClient := f\<rparr>) = handleAuthResult cr"
proof -
  have r: "request_key (cr\<lparr>tlsClient := f\<rparr>) = request_key cr"
    unfolding fun_eq_iff request_key_def tls_unused by simp
  have a: "full_authentication (cr\<lparr>tlsClient := f\<rparr>) = full_authentication cr"
    unfolding fun_eq_iff full_authentication_def tls_unused r by simp
  have f: "finish_auth (cr\<lparr>tlsClient := f\<rparr>) = finish_auth cr"
    unfolding fun_eq_iff finish_auth_def tls_unused a by simp
  show ?thesis unfolding fun_eq_iff handleAuthResult_def tls_unused f by simp
qed

lemma plain_response:
  assumes "cTLS cf = None"
  shows "writeHandshakeResponsePacket (cr\<lparr>tlsClient := f\<rparr>) cf = writeHandshakeResponsePacket cr cf"
  unfolding fun_eq_iff writeHandshakeResponsePacket_def Let_def assms option.case by simp

lemma greeting_config: "greeting data cf = Some (g, cf') \<Longrightarrow> cf' = cf \<or> cf' = cf\<lparr>cTLS := None\<rparr>"
  by (auto simp: greeting_def Let_def split: if_splits Option.bind_splits)

lemma handshake_config:
  assumes "readHandshakePacket cf mc = Some (g, cf', mc')"
  shows "cf' = cf \<or> cf' = cf\<lparr>cTLS := None\<rparr>"
proof -
  obtain r mc1 where r: "readPacket mc = Some (r, mc1)"
    using assms by (auto simp: readHandshakePacket_def bind_eq_Some_conv)
  show ?thesis
  proof (cases r)
    case (Inr data)
    then show ?thesis using assms r
      by (auto simp: readHandshakePacket_def bind_eq_Some_conv dest: greeting_config split: if_splits)
  qed (use assms r in \<open>simp add: readHandshakePacket_def\<close>)
qed

lemma plain_handshake:
  assumes "cTLS (kCfg k) = None"
  shows "handshake (cr\<lparr>tlsClient := f\<rparr>) k mc = handshake cr k mc"
proof (cases "readHandshakePacket (kCfg k) mc")
  case (Some r)
  obtain g cf m where r: "r = (g, cf, m)" by (cases r)
  then have "cTLS cf = None" using handshake_config Some assms by fastforce
  then show ?thesis
    unfolding handshake_def Some r Some_bind prod.case first_answer_def tls_unused plain_response [OF \<open>cTLS cf = None\<close>]
      handle_tls_unused by simp
qed (simp add: handshake_def)

lemma handshake_reads:
  assumes "handshake cr k mc = Some (r, cf, mc')"
  shows "\<exists>g m. readHandshakePacket (kCfg k) mc = Some (g, cf, m)"
proof -
  obtain g cf1 m where h: "readHandshakePacket (kCfg k) mc = Some (g, cf1, m)"
    using assms by (auto simp: handshake_def bind_eq_Some_conv)
  have "cf1 = cf"
  proof (cases g)
    case (Inl e)
    then show ?thesis using assms h by (simp add: handshake_def)
  next
    case (Inr t)
    obtain s p f where t: "t = (s, p, f)" by (cases t)
    obtain a where a: "first_answer cr cf1 s p = Some a"
      using assms h Inr t by (auto simp: handshake_def bind_eq_Some_conv)
    show ?thesis
    proof (cases a)
      case (Inl e)
      then show ?thesis using assms h Inr t a by (simp add: handshake_def)
    next
      case r2: (Inr q)
      then show ?thesis using assms h Inr t a
        by (auto simp: handshake_def bind_eq_Some_conv split: option.splits prod.splits)
    qed
  qed
  then show ?thesis using h by blast
qed

text \<open>
  C32: A server without TLS switches TLS off for good where plain text is allowed: the connector shares
  its configuration with the connection, so that no later connection of the connector (of the pool) uses
  TLS, whatever the servers then offer.
\<close>

theorem tls_downgrade_persists:
  assumes "dial_server d (kCfg k) = Inr c" and "peer c evs1 evs2"
    and "arriving evs1 = frames 0 (greeting_packet ver cid flags mid salt plugin)"
    and "0 \<notin> set ver" and "length ver < 256" and "length cid = 4" and "length mid = 6" and "length salt = 20"
    and "0 \<notin> set plugin" and "length plugin < 256"
    and "cAllowFallbackToPlaintext (kCfg k)" and "ucast flags AND clientProtocol41 \<noteq> 0" and "ucast flags AND clientSSL = 0"
    and "Connect cr d k = Some (r, k')"
  shows "cTLS (kCfg k') = None \<and> Connect (cr'\<lparr>tlsClient := f\<rparr>) d' k' = Connect cr' d' k'"
proof -
  let ?cf = "after_greeting (kCfg k) (ucast flags)"
  have l: "length (greeting_packet ver cid flags mid salt plugin) < maxPacketSize"
    using length_greeting [OF assms(6,7,8)] assms(5,10) by (simp add: maxPacketSize_def)
  have ok: "flags_ok (kCfg k) (ucast flags)" using assms(11,12) by (simp add: flags_ok_def)
  obtain m where m: "readHandshakePacket (kCfg k) (new_conn (kCfg k) c) = Some (Inr (salt, plugin, ucast flags), ?cf, m)"
    using greeting_arrives [OF assms(2,3) _ _ l greeting_read [OF assms(4,6,7,8,9) ok], of "kCfg k"]
    by (auto simp: greeting_packet_def)
  obtain x where "handshake cr k (new_conn (kCfg k) c) = Some x"
    using assms(14) by (cases "handshake cr k (new_conn (kCfg k) c)") (auto simp: Connect_def assms(1))
  then obtain h mc where h: "handshake cr k (new_conn (kCfg k) c) = Some (h, ?cf, mc)"
    using handshake_reads m by (cases x) fastforce
  then have "k' = k\<lparr>kCfg := ?cf\<rparr>"
    using assms(14) by (auto simp: Connect_def assms(1) Let_def split: sum.splits Option.bind_splits)
  then have n: "cTLS (kCfg k') = None" using assms(13) by (simp add: after_greeting_def)
  moreover have "Connect (cr'\<lparr>tlsClient := f\<rparr>) d' k' = Connect cr' d' k'"
    unfolding Connect_def plain_handshake [OF n] by simp
  ultimately show ?thesis by blast
qed

theorem tls_downgrade_persists_witness:
  "\<exists>mc k'. Connect demo_crypto (demo_dialler 0x8200) (demo_connector (Some \<lparr>tlsServerName = [], tlsSkipVerify = True, tlsRest = 0\<rparr>)) =
      Some (Inr mc, k') \<and> cTLS (kCfg k') = None"
proof -
  let ?k = "demo_connector (Some \<lparr>tlsServerName = [], tlsSkipVerify = True, tlsRest = 0\<rparr>)"
  obtain mc where c: "Connect demo_crypto (demo_dialler 0x8200) ?k = Some (Inr mc, demo_connector None)"
    using connect_accepted [OF demo_peer(10) demo_accepting [OF demo_premises(4)] demo_premises(5) demo_fields(1) _
        demo_premises(1,2,3) demo_fields(4,3)]
    by (auto simp: demo_fields defaultAuthPlugin_def)
  have "ucast (0x8200 :: u16) AND clientProtocol41 \<noteq> 0" "ucast (0x8200 :: u16) AND clientSSL = 0"
    "arriving [(frames 0 (demo_greeting 0x8200), None)] =
      frames 0 (greeting_packet (str ''8.0'') [1, 0, 0, 0] 0x8200 [33, 2, 0, 0, 0, 21] (replicate 20 7) defaultAuthPlugin)"
    by (simp_all add: client_flags demo_peer demo_greeting_def)
  moreover have "length defaultAuthPlugin < 256" using demo_peer(6) by linarith
  ultimately show ?thesis
    using tls_downgrade_persists [OF demo_peer(10) demo_peer(1) _ demo_peer(3,4,8,9,7,5) _ demo_fields(10) _ _ c] c by blast
qed

end
