(* ===== verification/Replicas.thy ===== *)
theory Replicas
  imports MysqlProxy Driver DsnProps
begin

text \<open>
  The proxy's set-up and the driver together: what the driver makes of the data source names
  \<open>initMysqlDB\<close> writes.
\<close>

section \<open>A replica of the proxy\<close>

lemma unescape_plain: "0x25 \<notin> set s \<Longrightarrow> url_unescape False s = Inr s"
  by (induction s) auto

lemma itoa_plain: "set (itoa n) \<inter> {0x3a, 0x5b, 0x5d} = {}"
  using digits_bytes [of "0x3a"] digits_bytes [of "0x5b"] digits_bytes [of "0x5d"] by (auto simp: itoa_def str_def)

text \<open>An address with a host in brackets and a port is left as it is.\<close>

lemma bracketed_address:
  assumes "set h \<inter> {0x5b, 0x5d} = {}" and "set p \<inter> {0x3a, 0x5b, 0x5d} = {}"
  shows "ensureHavePort (([0x5b] @ h @ [0x5d]) @ 0x3a # p) = ([0x5b] @ h @ [0x5d]) @ 0x3a # p"
proof -
  let ?a = "([0x5b] @ h @ [0x5d]) @ 0x3a # p"
  have l: "last_byte 0x3a ?a = Some (length h + 2)"
    using last_byte(2) [of "0x3a" p "[0x5b] @ h @ [0x5d]"] assms(2) by simp
  have f: "find_sub [0x5d] ?a = Some (length h + 1)"
    using find_byte(2) [where d = "0x5d" and s = "0x5b # h" and r = "0x3a # p"] assms(1) by auto
  have n: "0x5b \<notin> set (drop 1 ?a)" "0x5d \<notin> set (drop (length h + 1 + 1) ?a)" using assms by auto
  have "\<exists>r. SplitHostPort ?a = Inr r"
    using n unfolding SplitHostPort_def l f by simp
  then show ?thesis by (auto simp: ensureHavePort_def)
qed

text \<open>
  Settings of a replica without the characters that mean something in a data source name.  The host is a
  name, an IPv4 address, or an IPv6 address in brackets; the password is free.
\<close>

definition plain_host :: "bytes \<Rightarrow> bool" where
  "plain_host h \<longleftrightarrow> set h \<inter> {0x3a, 0x5b, 0x5d, 0x40} = {} \<or> (\<exists>a. h = [0x5b] @ a @ [0x5d] \<and> set a \<inter> {0x5b, 0x5d, 0x40} = {})"

definition plain_replica :: "secondary \<Rightarrow> bool" where
  "plain_replica s \<longleftrightarrow> 0x3a \<notin> set (sUser s) \<and> plain_host (sHost s) \<and> set (sDbName s) \<inter> {0x2f, 0x3f, 0x25} = {}"

lemma plain_host_address: "plain_host h \<Longrightarrow> ensureHavePort (h @ 0x3a # itoa n) = h @ 0x3a # itoa n"
  unfolding plain_host_def using ensureHavePort_host(2) [of h "itoa n"] bracketed_address [of _ "itoa n"] itoa_plain [of n]
  by auto

text \<open>
  C14: For a replica whose user has no colon, whose database name has no slash, question mark or percent sign, and whose
  host is a name, an IPv4 address or an IPv6 address in brackets, the data source name \<open>initMysqlDB\<close> writes is read by
  \<open>CreateConnector\<close> as exactly that user, password, address and database, with the defaults for everything else, whatever
  the password; only connection attributes of more than 250 bytes are refused.
\<close>

theorem replica_dsn_parses:
  assumes "plain_replica s"
  shows "CreateConnector env pf (MysqlProxy.dsn s) = Some
    (if 250 < length (encodeConnectionAttributes pf []) then Inl (FmtError ''connection attributes are longer than 250 bytes'')
     else Inr
       \<lparr>kCfg = NewConfig\<lparr>cUser := sUser s, cPasswd := sPassword s, cNet := str ''tcp'',
          cAddr := sHost s @ str '':'' @ itoa (sPort s), cDBName := sDbName s\<rparr>,
        kAttributes = encodeConnectionAttributes pf []\<rparr>)"
proof -
  define up where "up = sUser s @ 0x3a # sPassword s"
  define addr where "addr = sHost s @ 0x3a # itoa (sPort s)"
  define left where "left = up @ 0x40 # [0x28] @ addr @ [0x29]"
  have d: "MysqlProxy.dsn s = left @ 0x2f # sDbName s"
    by (simp add: dsn_def left_def up_def addr_def str_def)
  have at: "last_byte 0x40 left = Some (length up)"
    unfolding left_def using assms digits_bytes [of "0x40"]
    by (intro last_byte(2)) (auto simp: addr_def plain_replica_def plain_host_def itoa_def str_def)
  have u: "parse_user up NewConfig = NewConfig\<lparr>cUser := sUser s, cPasswd := sPassword s\<rparr>"
    using assms find_byte(2) [of "0x3a" "sUser s" "sPassword s"] by (simp add: up_def parse_user_def plain_replica_def)
  have "parse_net ([0x28] @ addr @ [0x29]) c = Inr (c\<lparr>cAddr := addr, cNet := []\<rparr>)" for c
    by (simp add: parse_net_def)
  then have l: "parse_left left NewConfig = Inr (NewConfig\<lparr>cUser := sUser s, cPasswd := sPassword s, cAddr := addr, cNet := []\<rparr>)"
    using at u by (simp add: parse_left_def left_def)
  have r: "parse_right env (sDbName s) c = Some (Inr (c\<lparr>cDBName := sDbName s\<rparr>))" for c
    using assms find_byte(1) [of "0x3f" "sDbName s"] unescape_plain [of "sDbName s"]
    by (simp add: parse_right_def PathUnescape_def plain_replica_def)
  have "0x2f \<notin> set (sDbName s)" using assms by (auto simp: plain_replica_def)
  then have "last_byte 0x2f (MysqlProxy.dsn s) = Some (length left)" unfolding d by (rule last_byte(2))
  moreover have "ensureHavePort addr = addr"
    unfolding addr_def using assms by (intro plain_host_address) (simp add: plain_replica_def)
  then have "normalize env (NewConfig\<lparr>cUser := sUser s, cPasswd := sPassword s, cAddr := addr, cNet := [], cDBName := sDbName s\<rparr>) =
      Inr (NewConfig\<lparr>cUser := sUser s, cPasswd := sPassword s, cNet := str ''tcp'', cAddr := addr, cDBName := sDbName s\<rparr>)"
    by (simp add: normalize_def NewConfig_def default_addr_def choose_tls_def name_server_def find_key_def addr_def str_eq_iff)
  ultimately have "ParseDSN env (MysqlProxy.dsn s) =
      Some (Inr (NewConfig\<lparr>cUser := sUser s, cPasswd := sPassword s, cNet := str ''tcp'', cAddr := addr, cDBName := sDbName s\<rparr>))"
    using l r by (simp add: ParseDSN_def d)
  then show ?thesis
    by (simp add: CreateConnector_def newConnector_def NewConfig_def Let_def addr_def str_def)
qed

theorem replica_dsn_parses_witness:
  "\<exists>k. CreateConnector demo_env \<lparr>osName = str ''linux'', archName = str ''amd64'', processId = 42\<rparr> (MysqlProxy.dsn
     \<lparr>sName = [], sHost = str ''[fd00::7]'', sPort = 3306, sUser = str ''app'', sPassword = str ''p@s:s/w?d'', sDbName = str ''shop'',
      sWeight = 1, sMaxIdleConnCount = 0, sMaxOpenConnsCount = 0, sConnMaxLifetime = 0\<rparr>) = Some (Inr k) \<and>
   cPasswd (kCfg k) = str ''p@s:s/w?d'' \<and> cAddr (kCfg k) = str ''[fd00::7]:3306''"
  (is "\<exists>k. CreateConnector _ ?pf (MysqlProxy.dsn ?s) = _ \<and> _")
proof -
  have "str ''[fd00::7]'' = [0x5b] @ str ''fd00::7'' @ [0x5d]" "set (str ''fd00::7'') \<inter> {0x5b, 0x5d, 0x40} = {}"
    by (simp_all add: str_def)
  then have "plain_host (str ''[fd00::7]'')" unfolding plain_host_def by blast
  then have "plain_replica ?s" by (simp add: plain_replica_def) (simp add: str_def)
  moreover have "length (encodeConnectionAttributes ?pf []) \<le> 250"
    by (simp add: encodeConnectionAttributes_def default_attributes_def user_attributes_def appendLengthEncodedString_def
        appendLengthEncodedInteger_def itoa_def digits_of.simps split_two_def str_def)
  moreover have "str ''[fd00::7]'' @ str '':'' @ itoa 3306 = str ''[fd00::7]:3306''"
    by (simp add: itoa_def digits_of.simps str_def)
  ultimately show ?thesis using replica_dsn_parses [of ?s demo_env ?pf] by simp
qed

end
