(* ===== verification/Watcher.thy ===== *)
theory Watcher
  imports Wire
begin

text \<open>
  Cancellation of a running operation (\<open>watchCancel\<close>, \<open>finish\<close>, \<open>cancel\<close> and the goroutine of
  \<open>startWatcher\<close> in \<open>mysql/connection.go\<close>): the goroutine that uses the connection and the one that
  watches its context, as a transition system in which any step of either may come next.
\<close>

section \<open>The state\<close>

text \<open>A context is one that can never be cancelled, or a number.\<close>

datatype ctxt = Background | Ctx nat

text \<open>Where the two goroutines are: the blocking operations of the code, and the two halves of \<open>cleanup\<close>.\<close>

datatype client_at = Running | Sending nat | Finishing | ClientCloses
datatype watcher_at = Waiting | Watching nat | Cancelling | WatcherCloses | Gone

text \<open>
  \<open>contexts\<close> is the channel \<open>mc.watcher\<close> of capacity one, \<open>shutdown\<close> tells whether \<open>closech\<close> is closed,
  \<open>expired\<close> gives the error of the contexts that are done.  \<open>given\<close> is the context of the last operation
  that is watched; the code does not keep it.
\<close>

record watch =
  watching :: bool
  contexts :: "nat list"
  isClosed :: bool
  shutdown :: bool
  cancelError :: "error option"
  clientAt :: client_at
  watcherAt :: watcher_at
  expired :: "nat \<Rightarrow> error option"
  given :: "nat option"

definition startWatcher :: "(nat \<Rightarrow> error option) \<Rightarrow> watch" where
  "startWatcher ex = \<lparr>watching = False, contexts = [], isClosed = False, shutdown = False, cancelError = None,
     clientAt = Running, watcherAt = Waiting, expired = ex, given = None\<rparr>"

section \<open>The calls of the client\<close>

text \<open>\<open>cleanup\<close> up to the closing of the channel, which only the first caller does.\<close>

definition begin_cleanup :: "watch \<Rightarrow> watch" where
  "begin_cleanup s = (if isClosed s then s else s\<lparr>isClosed := True, clientAt := ClientCloses\<rparr>)"

definition watchCancel :: "ctxt \<Rightarrow> watch \<Rightarrow> error option \<times> watch" where
  "watchCancel ctx s =
     (if watching s then (None, begin_cleanup s)
      else case ctx of
          Background \<Rightarrow> (None, s)
        | Ctx c \<Rightarrow> (case expired s c of
            Some e \<Rightarrow> (Some e, s)
          | None \<Rightarrow> (None, s\<lparr>watching := True, clientAt := Sending c, given := Some c\<rparr>)))"

definition finish :: "watch \<Rightarrow> watch" where
  "finish s = (if \<not> watching s then s else s\<lparr>clientAt := Finishing\<rparr>)"

section \<open>Steps\<close>

text \<open>The steps that are under way: blocked operations of the client, and the goroutine.\<close>

inductive inner :: "watch \<Rightarrow> watch \<Rightarrow> bool" where
  send: "clientAt s = Sending c \<Longrightarrow> contexts s = [] \<Longrightarrow> inner s (s\<lparr>contexts := [c], clientAt := Running\<rparr>)"
| finished: "clientAt s = Finishing \<Longrightarrow> watcherAt s = Watching c \<Longrightarrow>
    inner s (s\<lparr>clientAt := Running, watching := False, watcherAt := Waiting\<rparr>)"
| finish_closed: "clientAt s = Finishing \<Longrightarrow> shutdown s \<Longrightarrow> inner s (s\<lparr>clientAt := Running\<rparr>)"
| client_closes: "clientAt s = ClientCloses \<Longrightarrow> inner s (s\<lparr>shutdown := True, clientAt := Running\<rparr>)"
| receive: "watcherAt s = Waiting \<Longrightarrow> contexts s = c # cs \<Longrightarrow> inner s (s\<lparr>contexts := cs, watcherAt := Watching c\<rparr>)"
| quit_waiting: "watcherAt s = Waiting \<Longrightarrow> shutdown s \<Longrightarrow> inner s (s\<lparr>watcherAt := Gone\<rparr>)"
| expiry: "watcherAt s = Watching c \<Longrightarrow> expired s c = Some e \<Longrightarrow>
    inner s (s\<lparr>cancelError := Some e, watcherAt := Cancelling\<rparr>)"
| quit_watching: "watcherAt s = Watching c \<Longrightarrow> shutdown s \<Longrightarrow> inner s (s\<lparr>watcherAt := Gone\<rparr>)"
| cancel: "watcherAt s = Cancelling \<Longrightarrow>
    inner s (if isClosed s then s\<lparr>watcherAt := Waiting\<rparr> else s\<lparr>isClosed := True, watcherAt := WatcherCloses\<rparr>)"
| watcher_closes: "watcherAt s = WatcherCloses \<Longrightarrow> inner s (s\<lparr>shutdown := True, watcherAt := Waiting\<rparr>)"

inductive_cases innerE: "inner s t"

text \<open>What the client starts next, and contexts that expire.\<close>

inductive outer :: "watch \<Rightarrow> watch \<Rightarrow> bool" where
  call: "clientAt s = Running \<Longrightarrow> outer s (snd (watchCancel ctx s))"
| done_finish: "clientAt s = Running \<Longrightarrow> outer s (finish s)"
| close: "clientAt s = Running \<Longrightarrow> outer s (begin_cleanup s)"
| expire: "expired s c = None \<Longrightarrow> outer s (s\<lparr>expired := (expired s)(c := Some e)\<rparr>)"

inductive_cases outerE: "outer s t"

inductive run :: "(nat \<Rightarrow> error option) \<Rightarrow> watch \<Rightarrow> bool" for ex where
  start: "run ex (startWatcher ex)"
| inside: "run ex s \<Longrightarrow> inner s t \<Longrightarrow> run ex t"
| outside: "run ex s \<Longrightarrow> outer s t \<Longrightarrow> run ex t"

section \<open>The invariant\<close>

text \<open>
  Between operations nothing is watched.  During one its context is in the channel, or the watcher has
  it, or the connection is cancelled, or it was closed and the watcher is gone.
\<close>

definition quiet :: "watch \<Rightarrow> bool" where
  "quiet s \<longleftrightarrow> contexts s = [] \<and> (watcherAt s = Waiting \<or> watcherAt s = Gone) \<and> cancelError s = None"

definition cancelled :: "watch \<Rightarrow> bool" where
  "cancelled s \<longleftrightarrow> contexts s = [] \<and> (\<exists>e. cancelError s = Some e \<and> expired s (the (given s)) = Some e)"

definition held :: "watch \<Rightarrow> bool" where
  "held s \<longleftrightarrow> given s \<noteq> None \<and> (case watcherAt s of
     Waiting \<Rightarrow> contexts s = [the (given s)] \<and> cancelError s = None \<or> cancelled s \<and> isClosed s
   | Watching d \<Rightarrow> contexts s = [] \<and> d = the (given s) \<and> cancelError s = None
   | Cancelling \<Rightarrow> cancelled s
   | WatcherCloses \<Rightarrow> cancelled s \<and> isClosed s
   | Gone \<Rightarrow> contexts s = [the (given s)] \<and> cancelError s = None \<or> contexts s = [] \<and> cancelError s = None \<or>
       cancelled s \<and> isClosed s)"

definition watched :: "watch \<Rightarrow> bool" where
  "watched s \<longleftrightarrow>
     (if watching s
      then (case clientAt s of Sending c \<Rightarrow> given s = Some c \<and> quiet s | _ \<Rightarrow> held s)
      else (clientAt s = Running \<or> clientAt s = ClientCloses) \<and> quiet s)"

lemmas watched_defs = watched_def held_def quiet_def cancelled_def

definition closing :: "watch \<Rightarrow> bool" where
  "closing s \<longleftrightarrow> (isClosed s \<longleftrightarrow> shutdown s \<or> clientAt s = ClientCloses \<or> watcherAt s = WatcherCloses) \<and>
     (watcherAt s = Gone \<longrightarrow> shutdown s)"

lemma inner_watched:
  assumes "inner s t" and "watched s"
  shows "watched t"
  using assms
proof cases
  case send then show ?thesis using assms(2) by (auto simp: watched_defs split: if_splits)
next
  case (finished c) then show ?thesis using assms(2) by (auto simp: watched_defs split: if_splits)
next
  case finish_closed then show ?thesis using assms(2) by (auto simp: watched_defs split: if_splits watcher_at.splits)
next
  case client_closes then show ?thesis using assms(2) by (auto simp: watched_defs split: if_splits watcher_at.splits)
next
  case (receive c cs) then show ?thesis using assms(2) by (auto simp: watched_defs split: if_splits client_at.splits)
next
  case quit_waiting then show ?thesis using assms(2) by (auto simp: watched_defs split: if_splits client_at.splits)
next
  case (expiry c e) then show ?thesis using assms(2) by (auto simp: watched_defs split: if_splits client_at.splits)
next
  case (quit_watching c) then show ?thesis using assms(2) by (auto simp: watched_defs split: if_splits client_at.splits)
next
  case cancel then show ?thesis using assms(2) by (auto simp: watched_defs split: if_splits client_at.splits)
next
  case watcher_closes then show ?thesis using assms(2) by (auto simp: watched_defs split: if_splits client_at.splits)
qed

lemma inner_closing: "inner s t \<Longrightarrow> closing s \<Longrightarrow> closing t"
  by (erule innerE) (auto simp: closing_def split: if_splits)

lemma outer_watched:
  assumes "outer s t" and "watched s"
  shows "watched t"
  using assms(1)
proof cases
  case (call ctx)
  then show ?thesis using assms(2)
    by (auto simp: watched_defs watchCancel_def begin_cleanup_def split: if_splits watcher_at.splits ctxt.splits option.splits)
next
  case done_finish then show ?thesis using assms(2) by (auto simp: watched_defs finish_def split: if_splits watcher_at.splits)
next
  case close then show ?thesis using assms(2) by (auto simp: watched_defs begin_cleanup_def split: if_splits watcher_at.splits)
next
  case (expire c e) then show ?thesis using assms(2)
    by (auto simp: watched_defs split: if_splits watcher_at.splits client_at.splits)
qed

lemma outer_closing: "outer s t \<Longrightarrow> closing s \<Longrightarrow> closing t"
  by (erule outerE) (auto simp: closing_def watchCancel_def finish_def begin_cleanup_def split: if_splits ctxt.splits option.splits)

lemma run_inv: "run ex s \<Longrightarrow> watched s \<and> closing s"
proof (induction rule: run.induct)
  case start
  then show ?case by (simp add: watched_defs closing_def startWatcher_def)
qed (auto dest: inner_watched inner_closing outer_watched outer_closing)

section \<open>Progress\<close>

fun client_rank :: "client_at \<Rightarrow> nat" where
  "client_rank Running = 0" | "client_rank (Sending c) = 6" | "client_rank Finishing = 1" | "client_rank ClientCloses = 1"

fun watcher_rank :: "watcher_at \<Rightarrow> nat" where
  "watcher_rank Gone = 0" | "watcher_rank Waiting = 1" | "watcher_rank WatcherCloses = 2" | "watcher_rank Cancelling = 3"
| "watcher_rank (Watching c) = 4"

definition rank :: "watch \<Rightarrow> nat" where
  "rank s = client_rank (clientAt s) + 5 * length (contexts s) + watcher_rank (watcherAt s)"

lemma inner_rank: "inner s t \<Longrightarrow> rank t < rank s"
  by (erule innerE) (auto simp: rank_def)

lemma not_stuck:
  assumes "watched s" and "closing s" and "clientAt s \<noteq> Running"
  shows "\<exists>t. inner s t"
proof (cases "clientAt s")
  case (Sending c)
  then show ?thesis using assms send by (fastforce simp: watched_defs split: if_splits)
next
  case Finishing
  then have "shutdown s \<or> (\<exists>c. watcherAt s = Watching c) \<or> watcherAt s = Cancelling \<or> watcherAt s = WatcherCloses \<or>
      watcherAt s = Waiting \<and> contexts s \<noteq> []"
    using assms by (auto simp: watched_defs closing_def split: if_splits watcher_at.splits)
  then show ?thesis
    using Finishing finished finish_closed cancel watcher_closes receive by (metis neq_Nil_conv)
next
  case ClientCloses
  then show ?thesis using client_closes by blast
qed (use assms in simp)

lemma rank_bound: "watched s \<Longrightarrow> rank s \<le> 7"
  by (auto simp: watched_defs rank_def split: if_splits client_at.splits watcher_at.splits)

lemma steps_bound: "(inner ^^ k) s t \<Longrightarrow> k + rank t \<le> rank s"
proof (induction k arbitrary: t)
  case (Suc k)
  then obtain u where "(inner ^^ k) s u" "inner u t" by auto
  then show ?case using Suc.IH [of u] inner_rank [of u t] by simp
qed simp

lemma steps_run: "run ex s \<Longrightarrow> (inner ^^ k) s t \<Longrightarrow> run ex t"
  by (induction k arbitrary: t) (auto intro: run.inside)

section \<open>Properties\<close>

text \<open>
  C17: A connection is cancelled only for the context of the operation that is under way: in every
  interleaving, when an error of cancellation is set, the client still is in that operation or has
  been told that it failed, and the error is its context's.  A context that expires after its operation
  has finished does no harm.
\<close>

theorem cancelled_by_own_context:
  assumes "run ex s"
  shows "(\<not> watching s \<longrightarrow> cancelError s = None \<and> contexts s = [] \<and> (\<forall>c. watcherAt s \<noteq> Watching c)) \<and>
    (\<forall>e. cancelError s = Some e \<longrightarrow> watching s \<and> (\<exists>c. given s = Some c \<and> expired s c = Some e))"
  using run_inv [OF assms] by (auto simp: watched_defs split: if_splits client_at.splits watcher_at.splits)

text \<open>An operation whose context expires while the watcher waits for it.\<close>

definition demo_watch :: watch where
  "demo_watch = (startWatcher (\<lambda>_. None))\<lparr>watching := True, watcherAt := Watching 1, given := Some 1\<rparr>"

lemma demo_run: "run (\<lambda>_. None) demo_watch"
proof -
  let ?s = "startWatcher (\<lambda>_. None)"
  let ?s1 = "?s\<lparr>watching := True, clientAt := Sending 1, given := Some 1\<rparr>"
  let ?s2 = "?s1\<lparr>contexts := [1], clientAt := Running\<rparr>"
  have "outer ?s (snd (watchCancel (Ctx 1) ?s))" by (rule outer.call) (simp add: startWatcher_def)
  then have r1: "run (\<lambda>_. None) ?s1"
    using run.outside [OF run.start] by (simp add: watchCancel_def startWatcher_def)
  have i1: "inner ?s1 ?s2" by (rule inner.send) (simp_all add: startWatcher_def)
  have i2: "inner ?s2 (?s2\<lparr>contexts := [], watcherAt := Watching 1\<rparr>)" by (rule inner.receive) (simp_all add: startWatcher_def)
  have "?s2\<lparr>contexts := [], watcherAt := Watching 1\<rparr> = demo_watch" by (simp add: demo_watch_def startWatcher_def)
  then show ?thesis using run.inside [OF run.inside [OF r1 i1] i2] by simp
qed

theorem cancelled_by_own_context_witness:
  "\<exists>s. run (\<lambda>_. None) s \<and> cancelError s = Some IoEOF \<and> watching s \<and> given s = Some 1"
proof -
  let ?s = "demo_watch\<lparr>expired := (\<lambda>_. None)(1 := Some IoEOF)\<rparr>"
  let ?t = "?s\<lparr>cancelError := Some IoEOF, watcherAt := Cancelling\<rparr>"
  have "outer demo_watch ?s" using outer.expire [of demo_watch 1 IoEOF] by (simp add: demo_watch_def startWatcher_def)
  moreover have "inner ?s ?t" by (rule inner.expiry) (simp_all add: demo_watch_def)
  ultimately have r: "run (\<lambda>_. None) ?t" using demo_run run.inside run.outside by blast
  then show ?thesis
    using cancelled_by_own_context [OF r] by (intro exI [of _ ?t]) (simp add: demo_watch_def)
qed

text \<open>
  C18: Neither \<open>watchCancel\<close> nor \<open>finish\<close> nor \<open>cleanup\<close> can block for ever: whatever state is reached,
  after at most seven steps of the goroutines under way nothing is left to do, and as long as a call
  has not returned there is a step to take.
\<close>

theorem calls_return:
  assumes "run ex s" and "(inner ^^ k) s t"
  shows "k \<le> 7 \<and> (clientAt t \<noteq> Running \<longrightarrow> (\<exists>u. inner t u))"
proof -
  have "k \<le> 7" using steps_bound [OF assms(2)] rank_bound run_inv [OF assms(1)] by fastforce
  then show ?thesis using not_stuck run_inv [OF steps_run [OF assms]] by blast
qed

theorem calls_return_witness:
  "\<exists>t. inner (demo_watch\<lparr>clientAt := Finishing\<rparr>) t \<and> \<not> watching t"
proof -
  let ?s = "demo_watch\<lparr>clientAt := Finishing\<rparr>"
  have "outer demo_watch (finish demo_watch)" by (rule outer.done_finish) (simp add: demo_watch_def startWatcher_def)
  then have r: "run (\<lambda>_. None) ?s" using demo_run run.outside by (fastforce simp: finish_def demo_watch_def)
  have "(inner ^^ 0) ?s ?s" by simp
  then obtain t where t: "inner ?s t" using calls_return [OF r, of 0 ?s] by auto
  then have "\<not> watching t" by (auto elim!: innerE simp: demo_watch_def startWatcher_def)
  then show ?thesis using t by blast
qed

section \<open>The error of the cancellation\<close>

text \<open>
  \<open>atomicError\<close> of \<open>mysql/utils.go\<close> wraps an \<open>atomic.Value\<close>, whose \<open>Store\<close> panics (\<open>None\<close>) on nil and on a value of another
  concrete type than the one stored before; \<open>kind\<close> is the type of an error.
\<close>

definition ae_Set :: "(error \<Rightarrow> nat) \<Rightarrow> error option \<Rightarrow> error option \<Rightarrow> error option option" where
  "ae_Set kind v stored =
     (case v of
        None \<Rightarrow> None
      | Some e \<Rightarrow> (case stored of
          None \<Rightarrow> Some (Some e)
        | Some old \<Rightarrow> if kind old = kind e then Some (Some e) else None))"

definition ae_Value :: "error option \<Rightarrow> error option" where
  "ae_Value stored = (case stored of None \<Rightarrow> None | Some e \<Rightarrow> Some e)"

text \<open>
  The watcher sets the error at most once in the life of a connection, so it never panics, although contexts
  end with errors of different types: one that is cancelled with a pointer, one whose deadline passes with a struct.
\<close>

theorem cancel_sets_once:
  assumes "run ex s" and "watcherAt s = Watching c" and "expired s c = Some e"
  shows "ae_Set kind (Some e) (cancelError s) = Some (Some e) \<and> ae_Value (cancelError s) = None"
proof -
  have "cancelError s = None"
    using run_inv [OF assms(1)] assms(2) by (auto simp: watched_defs split: if_splits client_at.splits)
  then show ?thesis by (simp add: ae_Set_def ae_Value_def)
qed

theorem cancel_sets_once_witness:
  "ae_Set (\<lambda>e. if e = IoEOF then 0 else 1) (Some IoEOF) (cancelError (demo_watch\<lparr>expired := (\<lambda>_. None)(1 := Some IoEOF)\<rparr>)) = Some (Some IoEOF)"
proof -
  let ?s = "demo_watch\<lparr>expired := (\<lambda>_. None)(1 := Some IoEOF)\<rparr>"
  have "outer demo_watch ?s" using outer.expire [of demo_watch 1 IoEOF] by (simp add: demo_watch_def startWatcher_def)
  with demo_run have "run (\<lambda>_. None) ?s" by (rule run.outside)
  from cancel_sets_once [OF this, of 1 IoEOF] show ?thesis by (simp add: demo_watch_def)
qed

end
