(* ===== verification/ColumnTypes.thy ===== *)
theory ColumnTypes
  imports Frames Stmt DsnProps
begin

text \<open>
  What a result set says of its columns (\<open>mysql/fields.go\<close> and the \<open>ColumnType\<close> methods of
  \<open>mysql/rows.go\<close>): the name of the type, the Go type to scan into, precision and nullability.
\<close>

section \<open>Types of columns\<close>

definition fieldTypeNewDecimal :: byte where "fieldTypeNewDecimal = 0xf6"
definition fieldTypeEnum :: byte where "fieldTypeEnum = 0xf7"
definition fieldTypeSet :: byte where "fieldTypeSet = 0xf8"
definition fieldTypeTinyBLOB :: byte where "fieldTypeTinyBLOB = 0xf9"
definition fieldTypeMediumBLOB :: byte where "fieldTypeMediumBLOB = 0xfa"
definition fieldTypeLongBLOB :: byte where "fieldTypeLongBLOB = 0xfb"
definition fieldTypeBLOB :: byte where "fieldTypeBLOB = 0xfc"
definition fieldTypeVarString :: byte where "fieldTypeVarString = 0xfd"
definition fieldTypeGeometry :: byte where "fieldTypeGeometry = 0xff"

definition flagNotNULL :: u16 where "flagNotNULL = 1"

lemmas field_types = fieldTypeDecimal_def fieldTypeTiny_def fieldTypeShort_def fieldTypeLong_def fieldTypeFloat_def
  fieldTypeDouble_def fieldTypeNULL_def fieldTypeTimestamp_def fieldTypeLongLong_def fieldTypeInt24_def
  fieldTypeDate_def fieldTypeTime_def fieldTypeDateTime_def fieldTypeYear_def fieldTypeNewDate_def
  fieldTypeVarChar_def fieldTypeBit_def fieldTypeJSON_def fieldTypeNewDecimal_def fieldTypeEnum_def
  fieldTypeSet_def fieldTypeTinyBLOB_def fieldTypeMediumBLOB_def fieldTypeLongBLOB_def fieldTypeBLOB_def
  fieldTypeVarString_def fieldTypeString_def fieldTypeGeometry_def

definition typeDatabaseName :: "mysqlField \<Rightarrow> string" where
  "typeDatabaseName mf =
     (let t = fieldType mf; text_set = (charSet mf \<noteq> binaryCollationID); uns = (fieldFlags mf AND flagUnsigned \<noteq> 0)
      in if t = fieldTypeBit then ''BIT''
         else if t = fieldTypeBLOB then if text_set then ''TEXT'' else ''BLOB''
         else if t = fieldTypeDate then ''DATE''
         else if t = fieldTypeDateTime then ''DATETIME''
         else if t = fieldTypeDecimal then ''DECIMAL''
         else if t = fieldTypeDouble then ''DOUBLE''
         else if t = fieldTypeEnum then ''ENUM''
         else if t = fieldTypeFloat then ''FLOAT''
         else if t = fieldTypeGeometry then ''GEOMETRY''
         else if t = fieldTypeInt24 then if uns then ''UNSIGNED MEDIUMINT'' else ''MEDIUMINT''
         else if t = fieldTypeJSON then ''JSON''
         else if t = fieldTypeLong then if uns then ''UNSIGNED INT'' else ''INT''
         else if t = fieldTypeLongBLOB then if text_set then ''LONGTEXT'' else ''LONGBLOB''
         else if t = fieldTypeLongLong then if uns then ''UNSIGNED BIGINT'' else ''BIGINT''
         else if t = fieldTypeMediumBLOB then if text_set then ''MEDIUMTEXT'' else ''MEDIUMBLOB''
         else if t = fieldTypeNewDate then ''DATE''
         else if t = fieldTypeNewDecimal then ''DECIMAL''
         else if t = fieldTypeNULL then ''NULL''
         else if t = fieldTypeSet then ''SET''
         else if t = fieldTypeShort then if uns then ''UNSIGNED SMALLINT'' else ''SMALLINT''
         else if t = fieldTypeString then if text_set then ''CHAR'' else ''BINARY''
         else if t = fieldTypeTime then ''TIME''
         else if t = fieldTypeTimestamp then ''TIMESTAMP''
         else if t = fieldTypeTiny then if uns then ''UNSIGNED TINYINT'' else ''TINYINT''
         else if t = fieldTypeTinyBLOB then if text_set then ''TINYTEXT'' else ''TINYBLOB''
         else if t = fieldTypeVarChar then if text_set then ''VARCHAR'' else ''VARBINARY''
         else if t = fieldTypeVarString then if text_set then ''VARCHAR'' else ''VARBINARY''
         else if t = fieldTypeYear then ''YEAR''
         else '''')"

text \<open>The Go types of \<open>scanType\<close>: integers of a width, floats of a width, and the others.\<close>

datatype scan_type =
    ScanInt nat | ScanUint nat | ScanFloat nat | ScanNullInt | ScanNullFloat | ScanNullTime
  | ScanString | ScanNullString | ScanBytes | ScanUnknown

definition scanType :: "mysqlField \<Rightarrow> scan_type" where
  "scanType mf =
     (let t = fieldType mf; notNull = (fieldFlags mf AND flagNotNULL \<noteq> 0);
          uns = (fieldFlags mf AND flagUnsigned \<noteq> 0);
          whole = (\<lambda>w. if notNull then if uns then ScanUint w else ScanInt w else ScanNullInt);
          chars = (if notNull then ScanString else ScanNullString)
      in if t = fieldTypeTiny then whole 8
         else if t = fieldTypeShort \<or> t = fieldTypeYear then whole 16
         else if t = fieldTypeInt24 \<or> t = fieldTypeLong then whole 32
         else if t = fieldTypeLongLong then whole 64
         else if t = fieldTypeFloat then if notNull then ScanFloat 32 else ScanNullFloat
         else if t = fieldTypeDouble then if notNull then ScanFloat 64 else ScanNullFloat
         else if t = fieldTypeBit \<or> t = fieldTypeTinyBLOB \<or> t = fieldTypeMediumBLOB \<or> t = fieldTypeLongBLOB \<or>
           t = fieldTypeBLOB \<or> t = fieldTypeVarString \<or> t = fieldTypeString \<or> t = fieldTypeGeometry
         then if charSet mf = binaryCollationID then ScanBytes else chars
         else if t = fieldTypeDecimal \<or> t = fieldTypeNewDecimal \<or> t = fieldTypeVarChar \<or> t = fieldTypeEnum \<or>
           t = fieldTypeSet \<or> t = fieldTypeJSON \<or> t = fieldTypeTime
         then chars
         else if t = fieldTypeDate \<or> t = fieldTypeNewDate \<or> t = fieldTypeTimestamp \<or> t = fieldTypeDateTime
         then ScanNullTime
         else ScanUnknown)"

section \<open>The methods of a result set\<close>

text \<open>An index that is out of range panics.\<close>

definition ColumnTypeDatabaseTypeName :: "rows \<Rightarrow> int \<Rightarrow> string option" where
  "ColumnTypeDatabaseTypeName rows i = map_option typeDatabaseName (idx (columns rows) i)"

definition ColumnTypeScanType :: "rows \<Rightarrow> int \<Rightarrow> scan_type option" where
  "ColumnTypeScanType rows i = map_option scanType (idx (columns rows) i)"

definition ColumnTypeNullable :: "rows \<Rightarrow> int \<Rightarrow> (bool \<times> bool) option" where
  "ColumnTypeNullable rows i = map_option (\<lambda>c. (fieldFlags c AND flagNotNULL = 0, True)) (idx (columns rows) i)"

definition maxInt64 :: int where "maxInt64 = 2 ^ 63 - 1"

definition precisionScale :: "mysqlField \<Rightarrow> int \<times> int \<times> bool" where
  "precisionScale c =
     (let t = fieldType c; decimals = uint (fieldDecimals c); len = uint (fieldLength c)
      in if t = fieldTypeDecimal \<or> t = fieldTypeNewDecimal
         then if 0 < decimals then (len - 2, decimals, True) else (len - 1, decimals, True)
         else if t = fieldTypeTimestamp \<or> t = fieldTypeDateTime \<or> t = fieldTypeTime then (decimals, decimals, True)
         else if t = fieldTypeFloat \<or> t = fieldTypeDouble
         then if decimals = 0x1f then (maxInt64, maxInt64, True) else (maxInt64, decimals, True)
         else (0, 0, False))"

definition ColumnTypePrecisionScale :: "rows \<Rightarrow> int \<Rightarrow> (int \<times> int \<times> bool) option" where
  "ColumnTypePrecisionScale rows i = map_option precisionScale (idx (columns rows) i)"

section \<open>Properties\<close>

text \<open>
  What \<open>database/sql\<close> converts into a variable of a scan type: integers in the range of the variable
  (also from decimal digits), floats, text and bytes from bytes, times from times, and nothing into a
  nullable one.
\<close>

definition fits :: "scan_type \<Rightarrow> dvalue \<Rightarrow> bool" where
  "fits st v = (case st of
     ScanInt w \<Rightarrow> (case v of VInt n \<Rightarrow> - (2 ^ (w - 1)) \<le> n \<and> n < 2 ^ (w - 1) | _ \<Rightarrow> False)
   | ScanUint w \<Rightarrow> (case v of VInt n \<Rightarrow> 0 \<le> n \<and> n < 2 ^ w
       | VBytes b \<Rightarrow> (case parseUint w b of Inl _ \<Rightarrow> False | Inr _ \<Rightarrow> True) | _ \<Rightarrow> False)
   | ScanFloat w \<Rightarrow> (case v of VBits w' _ \<Rightarrow> w' = w | _ \<Rightarrow> False)
   | ScanNullInt \<Rightarrow> (case v of VInt n \<Rightarrow> - (2 ^ 63) \<le> n \<and> n < 2 ^ 63 | VNil \<Rightarrow> True | _ \<Rightarrow> False)
   | ScanNullFloat \<Rightarrow> (case v of VBits _ _ \<Rightarrow> True | VNil \<Rightarrow> True | _ \<Rightarrow> False)
   | ScanNullTime \<Rightarrow> (case v of VTime _ \<Rightarrow> True | VNil \<Rightarrow> True | _ \<Rightarrow> False)
   | ScanString \<Rightarrow> (case v of VBytes _ \<Rightarrow> True | _ \<Rightarrow> False)
   | ScanNullString \<Rightarrow> (case v of VBytes _ \<Rightarrow> True | VNil \<Rightarrow> True | _ \<Rightarrow> False)
   | ScanBytes \<Rightarrow> (case v of VBytes _ \<Rightarrow> True | VNil \<Rightarrow> True | _ \<Rightarrow> False)
   | ScanUnknown \<Rightarrow> True)"

lemma string_types:
  "string_type t \<longleftrightarrow> t \<in> {fieldTypeDecimal, fieldTypeVarChar, fieldTypeBit, fieldTypeJSON, fieldTypeNewDecimal,
     fieldTypeEnum, fieldTypeSet, fieldTypeTinyBLOB, fieldTypeMediumBLOB, fieldTypeLongBLOB, fieldTypeBLOB,
     fieldTypeVarString, fieldTypeString, fieldTypeGeometry}"
proof -
  have "t \<in> {0xf5, 0xf6, 0xf7, 0xf8, 0xf9, 0xfa, 0xfb, 0xfc, 0xfd, 0xfe, 0xff}" if "0xf5 \<le> t"
  proof -
    have "245 \<le> unat t" "unat t < 256" using that unsigned_less [of t, where ?'a = nat] by (simp_all add: word_le_nat_alt)
    then have "unat t \<in> {245 :: nat, 246, 247, 248, 249, 250, 251, 252, 253, 254, 255}"
      by (simp only: insert_iff empty_iff) presburger
    then have "word_of_nat (unat t) \<in> (word_of_nat :: nat \<Rightarrow> byte) ` {245, 246, 247, 248, 249, 250, 251, 252, 253, 254, 255}" by (rule imageI)
    then show ?thesis by (simp only: word_unat_eq_iff [symmetric] unsigned_of_nat image_insert image_empty) simp
  qed
  then show ?thesis by (auto simp: string_type_def field_types)
qed

lemma parseUint_word: "parseUint 64 (digits_of (unat (w :: u64))) = Inr (uint w)"
proof -
  have "int (unat w) \<le> 2 ^ 64 - 1" using uint_lt2p [of w] by simp
  then show ?thesis using uint_loop_digits [of "unat w" "2 ^ 64 - 1"] by (simp add: parseUint_def)
qed

lemma int_ranges:
  "0 \<le> uint (w :: 'a::len word)" "uint w < 2 ^ LENGTH('a)" "- (2 ^ (LENGTH('a) - 1)) \<le> sint w" "sint w < 2 ^ (LENGTH('a) - 1)"
  using uint_lt2p [of w] sint_range_size [of w] by (simp_all add: word_size)

lemma small_sint: "\<not> 0x7fffffffffffffff < (w :: u64) \<Longrightarrow> sint w = uint w"
proof -
  assume "\<not> 0x7fffffffffffffff < w"
  then have "uint w < 2 ^ 63" by (simp add: word_less_def)
  moreover have "- (2 ^ 63) \<le> uint w" using order_trans [OF _ uint_ge_0 [of w], of "- (2 ^ 63)"] by simp
  ultimately have "signed_take_bit 63 (uint w) = uint w" by (intro signed_take_bit_int_eq_self) simp_all
  then show ?thesis by (simp add: sint_uint)
qed

lemma andThen_Inr: "andThen m f = Some (Inr y) \<longleftrightarrow> (\<exists>x. m = Some (Inr x) \<and> f x = Some (Inr y))"
  by (cases m; cases "the m") (auto simp: andThen_def)

lemma time_cell_text:
  "time_cell mc col data pos = Some (Inr (v, p)) \<Longrightarrow> \<not> parseTime mc \<Longrightarrow> v = VNil \<or> (\<exists>b. v = VBytes b)"
  by (auto simp: time_cell_def bind_eq_Some_conv Let_def andThen_Inr split: if_splits option.splits)

lemma time_cell_value:
  "time_cell mc col data pos = Some (Inr (v, p)) \<Longrightarrow> fieldType col \<noteq> fieldTypeTime \<Longrightarrow> parseTime mc \<Longrightarrow>
     v = VNil \<or> (\<exists>t. v = VTime t)"
  "time_cell mc col data pos = Some (Inr (v, p)) \<Longrightarrow> fieldType col = fieldTypeTime \<Longrightarrow> v = VNil \<or> (\<exists>b. v = VBytes b)"
  by (auto simp: time_cell_def bind_eq_Some_conv Let_def andThen_Inr split: if_splits option.splits)

lemma narrow_fits:
  fixes b :: "'a::len word"
  assumes "v = VInt (if uns then uint b else sint b)"
    and "st = (if notNull then if uns then ScanUint w else ScanInt w else ScanNullInt)" and "LENGTH('a) = w" and "w \<le> 32"
  shows "fits st v"
proof -
  have p: "(2 :: int) ^ LENGTH('a) < 2 ^ 63" "(2 :: int) ^ (LENGTH('a) - 1) < 2 ^ 63"
    by (rule power_strict_increasing; use assms(3,4) in simp)+
  define n where "n = (if uns then uint b else sint b)"
  have "- (2 ^ 63) \<le> n" "n < 2 ^ 63" "uns \<longrightarrow> 0 \<le> n \<and> n < 2 ^ LENGTH('a)"
    "\<not> uns \<longrightarrow> - (2 ^ (LENGTH('a) - 1)) \<le> n \<and> n < 2 ^ (LENGTH('a) - 1)"
    using int_ranges [of b] p unfolding n_def by (cases uns; simp; linarith)+
  then have "fits st (VInt n)" using assms(2,3) by (simp add: fits_def)
  then show ?thesis unfolding n_def assms(1) .
qed

lemma bigint_fits:
  assumes "v = (if uns \<and> 0x7fffffffffffffff < w then VBytes (digits_of (unat w)) else VInt (sint (w :: u64)))"
    and "st = (if notNull then if uns then ScanUint 64 else ScanInt 64 else ScanNullInt)"
    and "uns \<Longrightarrow> \<not> notNull \<Longrightarrow> \<not> (\<exists>b. v = VBytes b)"
  shows "fits st v"
proof (cases "uns \<and> notNull")
  case True
  then show ?thesis using assms small_sint [of w] int_ranges [of w] by (simp add: fits_def parseUint_word)
next
  case False
  then have "v = VInt (sint w)" using assms(1,3) by (auto split: if_splits)
  then show ?thesis using False assms(2) int_ranges [of w] by (simp add: fits_def)
qed

lemma whole_types:
  assumes "t = fieldTypeTiny \<and> w = 8 \<or> (t = fieldTypeShort \<or> t = fieldTypeYear) \<and> w = 16 \<or>
    (t = fieldTypeInt24 \<or> t = fieldTypeLong) \<and> w = 32 \<or> t = fieldTypeLongLong \<and> w = 64" and "t = fieldType col"
  shows "scanType col = (if fieldFlags col AND flagNotNULL \<noteq> 0
    then if fieldFlags col AND flagUnsigned \<noteq> 0 then ScanUint w else ScanInt w else ScanNullInt)"
  using assms by (auto simp: field_types scanType_def Let_def)

lemma text_cell_fits:
  assumes "binary_cell mc col data pos = Some (Inr (v, p))" and "v \<noteq> VNil" and "string_type (fieldType col)"
  shows "fits (scanType col) v"
proof -
  have "scanType col \<in> {ScanBytes, ScanString, ScanNullString}"
    using assms(3) by (auto simp: string_types scanType_def Let_def field_types)
  moreover have "\<exists>b. v = VBytes b"
    using assms by (auto simp: binary_cell_def Let_def string_types field_types bind_eq_Some_conv split: if_splits option.splits)
  ultimately show ?thesis by (auto simp: fits_def)
qed

lemma time_cell_fits:
  assumes "time_cell mc col data pos = Some (Inr (v, p))" and "v \<noteq> VNil" and "fieldType col \<noteq> fieldTypeTime \<Longrightarrow> parseTime mc"
    and "fieldType col \<in> {fieldTypeDate, fieldTypeNewDate, fieldTypeTimestamp, fieldTypeDateTime, fieldTypeTime}"
  shows "fits (scanType col) v"
proof (cases "fieldType col = fieldTypeTime")
  case True
  then obtain b where "v = VBytes b" using time_cell_value(2) assms(1,2) by blast
  then show ?thesis using True by (auto simp: fits_def scanType_def Let_def field_types)
next
  case False
  then obtain t where "v = VTime t" using time_cell_value(1) assms(1-3) by blast
  then show ?thesis using False assms(4) by (auto simp: fits_def scanType_def Let_def field_types)
qed

text \<open>The columns with a time, and the two cases in which the announced type is not right.\<close>

definition time_types :: "byte set" where
  "time_types = {fieldTypeDate, fieldTypeNewDate, fieldTypeTimestamp, fieldTypeDateTime}"

definition ill_announced :: "conn \<Rightarrow> mysqlField \<Rightarrow> dvalue \<Rightarrow> bool" where
  "ill_announced mc col v \<longleftrightarrow> fieldType col \<in> time_types \<and> \<not> parseTime mc \<or>
     fieldType col = fieldTypeLongLong \<and> fieldFlags col AND flagUnsigned \<noteq> 0 \<and> fieldFlags col AND flagNotNULL = 0 \<and>
     (\<exists>b. v = VBytes b)"

lemma cell_fits:
  assumes "binary_cell mc col data pos = Some (Inr (v, p))" and "v \<noteq> VNil"
    and "fieldType col \<in> time_types \<Longrightarrow> parseTime mc"
    and "fieldType col = fieldTypeLongLong \<Longrightarrow> fieldFlags col AND flagUnsigned \<noteq> 0 \<Longrightarrow> fieldFlags col AND flagNotNULL = 0 \<Longrightarrow>
      \<not> (\<exists>b. v = VBytes b)"
  shows "fits (scanType col) v"
proof -
  let ?t = "fieldType col"
  note d = assms(1) [unfolded binary_cell_def Let_def]
  consider "?t = fieldTypeTiny" | "?t = fieldTypeShort \<or> ?t = fieldTypeYear" | "?t = fieldTypeInt24 \<or> ?t = fieldTypeLong"
    | "?t = fieldTypeLongLong" | "?t = fieldTypeFloat" | "?t = fieldTypeDouble" | "string_type ?t"
    | "?t = fieldTypeDate \<or> ?t = fieldTypeNewDate \<or> ?t = fieldTypeTimestamp \<or> ?t = fieldTypeDateTime \<or> ?t = fieldTypeTime"
    using d assms(2) by (auto split: if_splits)
  then show ?thesis
  proof cases
    case 1
    then obtain b :: byte where "v = VInt (if fieldFlags col AND flagUnsigned \<noteq> 0 then uint b else sint b)"
      using d by (auto simp: field_types bind_eq_Some_conv)
    then show ?thesis by (rule narrow_fits [OF _ whole_types [OF _ refl, of _ 8]]) (use 1 in simp_all)
  next
    case 2
    then obtain b :: u16 where "v = VInt (if fieldFlags col AND flagUnsigned \<noteq> 0 then uint b else sint b)"
      using d by (auto simp: field_types bind_eq_Some_conv)
    then show ?thesis by (rule narrow_fits [OF _ whole_types [OF _ refl, of _ 16]]) (use 2 in simp_all)
  next
    case 3
    then obtain b :: u32 where "v = VInt (if fieldFlags col AND flagUnsigned \<noteq> 0 then uint b else sint b)"
      using d by (auto simp: field_types bind_eq_Some_conv)
    then show ?thesis by (rule narrow_fits [OF _ whole_types [OF _ refl, of _ 32]]) (use 3 in simp_all)
  next
    case 4
    obtain w where l: "le64_at data pos = Some w" using 4 d by (auto simp: field_types bind_eq_Some_conv)
    have "v = (if fieldFlags col AND flagUnsigned \<noteq> 0 \<and> 0x7fffffffffffffff < w then VBytes (digits_of (unat w)) else VInt (sint w))"
      using 4 d by (auto simp: l field_types uint64ToString_digits split: if_splits)
    then show ?thesis by (rule bigint_fits [OF _ whole_types [OF _ refl, of _ 64]]) (use 4 assms(4) in auto)
  next
    case 7
    then show ?thesis using text_cell_fits assms(1,2) by blast
  next
    case 8
    then have "time_cell mc col data pos = Some (Inr (v, p))" using d by (auto simp: string_types field_types)
    then show ?thesis by (rule time_cell_fits) (use 8 assms(2,3) in \<open>auto simp: time_types_def\<close>)
  qed (use d in \<open>auto simp: field_types bind_eq_Some_conv fits_def scanType_def Let_def\<close>)
qed

lemma ill_announced_misfit:
  assumes "binary_cell mc col data pos = Some (Inr (v, p))" and "v \<noteq> VNil" and "ill_announced mc col v"
  shows "\<not> fits (scanType col) v"
proof (cases "fieldType col \<in> time_types \<and> \<not> parseTime mc")
  case True
  then have "time_cell mc col data pos = Some (Inr (v, p))"
    using assms(1) by (auto simp: binary_cell_def Let_def time_types_def string_types field_types)
  then obtain b where "v = VBytes b" using time_cell_text True assms(2) by blast
  then show ?thesis using True by (auto simp: fits_def scanType_def Let_def time_types_def field_types)
next
  case False
  then obtain b where "v = VBytes b" "fieldType col = fieldTypeLongLong" "fieldFlags col AND flagNotNULL = 0"
    using assms(3) by (auto simp: ill_announced_def)
  then show ?thesis by (simp add: fits_def scanType_def Let_def field_types)
qed

text \<open>
  C30: Of the values of the binary protocol that are not null, the Go type announced for the column can hold all but
  two kinds: dates and times when the connection does not parse times (they are delivered as text, and \<open>sql.NullTime\<close> is
  announced), and values of a nullable BIGINT UNSIGNED from 2^63 on (delivered as text, and \<open>sql.NullInt64\<close> is announced).
\<close>

theorem scan_type_fits:
  assumes "binary_cell mc col data pos = Some (Inr (v, p))" and "v \<noteq> VNil"
  shows "fits (scanType col) v \<longleftrightarrow> \<not> ill_announced mc col v"
proof
  show "\<not> ill_announced mc col v" if "fits (scanType col) v" using ill_announced_misfit [OF assms] that by blast
  show "fits (scanType col) v" if "\<not> ill_announced mc col v"
    by (rule cell_fits [OF assms]) (use that in \<open>auto simp: ill_announced_def\<close>)
qed

theorem scan_type_fits_witness:
  "fits (scanType (noField\<lparr>fieldType := fieldTypeTiny, fieldFlags := flagNotNULL\<rparr>)) (VInt (- 1))"
proof -
  let ?col = "noField\<lparr>fieldType := fieldTypeTiny, fieldFlags := flagNotNULL\<rparr>"
  have "binary_cell (fresh_conn []) ?col ([255], []) 0 = Some (Inr (VInt (- 1), 1))"
    by (simp add: binary_cell_def Let_def field_types flagNotNULL_def flagUnsigned_def idx_def)
  from scan_type_fits [OF this] show ?thesis by (simp add: ill_announced_def time_types_def field_types)
qed

text \<open>
  In the text protocol an unsigned INT from 2^31 on is refused: the digits are parsed as a signed number
  of 32 bits.
\<close>

theorem unsigned_int_refused:
  assumes "fieldType col = fieldTypeLong" and "2 ^ 31 \<le> n" and "n < 2 ^ 32"
  shows "convert_cell mc col (digits_of n) = Inl errRange"
proof -
  have h: "hd (digits_of n) \<noteq> 0x2d" "hd (digits_of n) \<noteq> 0x2b"
    using digits_bytes [of "hd (digits_of n)" n] by auto
  have "parseUint 32 (digits_of n) = Inr (int n)" using assms(3) uint_loop_digits [of n "2 ^ 32 - 1"] by (simp add: parseUint_def)
  then show ?thesis using assms h by (simp add: convert_cell_def field_types parseInt_def Let_def)
qed

end
