(* ===== verification/Values.thy ===== *)
theory Values
  imports Stmt
begin

text \<open>
  Values of the program on their way into a statement (\<open>converter\<close> of \<open>mysql/statement.go\<close>), nullable
  times (\<open>mysql/nulltime.go\<close>), the errors of the server (\<open>mysql/errors.go\<close>) and the registries of
  \<open>LOAD DATA LOCAL INFILE\<close> (\<open>mysql/infile.go\<close>).
\<close>

section \<open>Go values\<close>

text \<open>
  An \<open>interface{}\<close> by what the code asks of it with type switches and reflection: the exact types, then
  other types of the same kind.  Integers are extended to 64 bits and floats stand for the text and
  the bits of their 64 bit value, as \<open>reflect\<close> gives them.  \<open>GBytes\<close> is \<open>[]byte\<close> and \<open>GNamedBytes\<close> another slice
  of bytes, \<open>None\<close> the nil slice.  \<open>GDecimal\<close> has the methods of a decimal.  \<open>GValuer\<close> implements
  \<open>driver.Valuer\<close>: whether it is a nil pointer to a type that implements it, and the result of its
  method, \<open>None\<close> if that panics.  Other pointers are \<open>GPtr\<close>.
\<close>

datatype goval =
    GNil | GInt64 "64 word" | GSigned "64 word" | GUint64 u64 | GUnsigned u64 | GFloat64 bytes u64 | GFloating bytes u64
  | GBool bool | GNamedBool bool | GBytes "bytes option" | GNamedBytes "bytes option" | GJson bytes | GSlice
  | GString bytes | GNamedString bytes | GTime gotime | GDecimal | GOther
  | GPtr "goval option" | GValuer bool "(error + goval) option"

text \<open>\<open>driver.IsValue\<close>.\<close>

fun IsValue :: "goval \<Rightarrow> bool" where
  "IsValue GNil = True" | "IsValue (GInt64 _) = True" | "IsValue (GFloat64 _ _) = True" | "IsValue (GBool _) = True"
| "IsValue (GBytes _) = True" | "IsValue (GString _) = True" | "IsValue (GTime _) = True" | "IsValue GDecimal = True"
| "IsValue _ = False"

definition callValuerValue :: "bool \<Rightarrow> (error + goval) option \<Rightarrow> (error + goval) option" where
  "callValuerValue nilPointer result = (if nilPointer then Some (Inr GNil) else result)"

text \<open>What a \<open>Valuer\<close> gave: a value, or an unsigned number.\<close>

definition from_valuer :: "goval \<Rightarrow> error + goval" where
  "from_valuer sv = (if IsValue sv then Inr sv
     else case sv of GUint64 u \<Rightarrow> Inr (GUint64 u) | _ \<Rightarrow> Inl (FmtError ''non-Value type returned from Value''))"

fun ConvertValue :: "goval \<Rightarrow> (error + goval) option" where
  "ConvertValue (GValuer nilPointer result) =
     andThen (callValuerValue nilPointer result) (\<lambda>sv. Some (from_valuer sv))"
| "ConvertValue (GPtr None) = Some (Inr GNil)"
| "ConvertValue (GPtr (Some v)) = ConvertValue v"
| "ConvertValue (GSigned i) = Some (Inr (GInt64 i))"
| "ConvertValue (GUint64 u) = Some (Inr (GUint64 u))"
| "ConvertValue (GUnsigned u) = Some (Inr (GUint64 u))"
| "ConvertValue (GFloating s b) = Some (Inr (GFloat64 s b))"
| "ConvertValue (GNamedBool b) = Some (Inr (GBool b))"
| "ConvertValue (GJson b) = Some (Inr (GJson b))"
| "ConvertValue (GNamedBytes b) = Some (Inr (GBytes b))"
| "ConvertValue GSlice = Some (Inl (FmtError ''unsupported type, a slice''))"
| "ConvertValue (GNamedString s) = Some (Inr (GString s))"
| "ConvertValue GOther = Some (Inl (FmtError ''unsupported type''))"
| "ConvertValue v = Some (Inr v)"

text \<open>The error and the value left in the argument.\<close>

definition CheckNamedValue :: "goval \<Rightarrow> (error option \<times> goval) option" where
  "CheckNamedValue v = map_option (\<lambda>r. case r of Inl e \<Rightarrow> (Some e, GNil) | Inr w \<Rightarrow> (None, w)) (ConvertValue v)"

text \<open>What the type switches of \<open>interpolateParams\<close> and \<open>writeExecutePacket\<close> see.\<close>

fun to_arg :: "goval \<Rightarrow> arg" where
  "to_arg GNil = ANil" | "to_arg (GInt64 i) = AInt i" | "to_arg (GUint64 u) = AUint u" | "to_arg (GFloat64 s b) = AFloat s b"
| "to_arg (GBool b) = ABool b" | "to_arg (GTime t) = ATime t" | "to_arg (GJson b) = AJson b" | "to_arg (GBytes b) = ABytes b"
| "to_arg (GString s) = AString s" | "to_arg _ = AOther"

section \<open>Nullable times\<close>

record NullTime =
  ntTime :: gotime
  ntValid :: bool

definition scan_text :: "bytes \<Rightarrow> error option \<times> NullTime" where
  "scan_text b = (case parseDateTime b of
     Inl e \<Rightarrow> (Some e, \<lparr>ntTime = zeroTime, ntValid = False\<rparr>) | Inr t \<Rightarrow> (None, \<lparr>ntTime = t, ntValid = True\<rparr>))"

fun Scan :: "goval \<Rightarrow> NullTime \<Rightarrow> error option \<times> NullTime" where
  "Scan GNil nt = (None, \<lparr>ntTime = zeroTime, ntValid = False\<rparr>)"
| "Scan (GTime t) nt = (None, \<lparr>ntTime = t, ntValid = True\<rparr>)"
| "Scan (GBytes b) nt = scan_text (case b of None \<Rightarrow> [] | Some b \<Rightarrow> b)"
| "Scan (GString s) nt = scan_text s"
| "Scan v nt = (Some (FmtError ''can't convert to time.Time''), nt\<lparr>ntValid := False\<rparr>)"

definition Value :: "NullTime \<Rightarrow> goval" where
  "Value nt = (if \<not> ntValid nt then GNil else GTime (ntTime nt))"

section \<open>Errors of the server\<close>

definition error_text :: "u16 \<Rightarrow> bytes \<Rightarrow> bytes \<Rightarrow> bytes" where
  "error_text number state msg =
     str ''Error '' @ itoa (uint number) @
     (if state \<noteq> replicate 5 0 then str '' ('' @ state @ str '')'' else []) @ str '': '' @ msg"

definition error_Is :: "u16 \<Rightarrow> error \<Rightarrow> bool" where
  "error_Is number e = (case e of MySQLError n _ _ \<Rightarrow> n = number | _ \<Rightarrow> False)"

text \<open>
  \<open>SetLogger\<close> on the default logger.  A logger is what it does with a message to the output \<open>'o\<close>; \<open>NopLogger\<close> does
  nothing.
\<close>

definition NopLogger_Print :: "bytes \<Rightarrow> 'o \<Rightarrow> 'o" where
  "NopLogger_Print v out = out"

definition SetLogger :: "(bytes \<Rightarrow> 'o \<Rightarrow> 'o) option \<Rightarrow> (bytes \<Rightarrow> 'o \<Rightarrow> 'o) \<Rightarrow> error option \<times> (bytes \<Rightarrow> 'o \<Rightarrow> 'o)" where
  "SetLogger logger defaultLogger =
     (case logger of None \<Rightarrow> (Some (FmtError ''logger is nil''), defaultLogger) | Some l \<Rightarrow> (None, l))"

section \<open>Local files and readers\<close>

definition RegisterLocalFile :: "bytes \<Rightarrow> locals \<Rightarrow> locals" where
  "RegisterLocalFile path l = l\<lparr>fileRegister := (fileRegister l)(trim_quotes path := True)\<rparr>"

definition DeregisterLocalFile :: "bytes \<Rightarrow> locals \<Rightarrow> locals" where
  "DeregisterLocalFile path l = l\<lparr>fileRegister := (fileRegister l)(trim_quotes path := False)\<rparr>"

definition RegisterReaderHandler :: "bytes \<Rightarrow> reader option \<Rightarrow> locals \<Rightarrow> locals" where
  "RegisterReaderHandler name h l = l\<lparr>readerRegister := (readerRegister l)(name := Some h)\<rparr>"

definition DeregisterReaderHandler :: "bytes \<Rightarrow> locals \<Rightarrow> locals" where
  "DeregisterReaderHandler name l = l\<lparr>readerRegister := (readerRegister l)(name := None)\<rparr>"

section \<open>Properties\<close>

lemma value_to_arg: "IsValue v \<Longrightarrow> v = GDecimal \<or> to_arg v \<noteq> AOther"
  by (cases v) auto

lemma value_fixed: "IsValue v \<Longrightarrow> ConvertValue v = Some (Inr v)"
  by (cases v) auto

text \<open>
  What the converter lets through has a type the driver can send, and converting it again changes
  nothing: it is one of the types that interpolation and execution have a case for, or a decimal,
  whatever chain of pointers, named types and \<open>Valuer\<close>s it came from.
\<close>

theorem converted_type:
  assumes "ConvertValue v = Some (Inr w)"
  shows "(w = GDecimal \<or> to_arg w \<noteq> AOther) \<and> ConvertValue w = Some (Inr w)"
  using assms
proof (induction v rule: ConvertValue.induct)
  case (1 nilPointer result)
  then obtain sv where "from_valuer sv = Inr w"
    by (cases "callValuerValue nilPointer result"; cases "the (callValuerValue nilPointer result)") auto
  then show ?case using value_to_arg value_fixed by (auto simp: from_valuer_def split: if_splits goval.splits)
qed auto

theorem converted_type_witness:
  "to_arg (GUint64 (2 ^ 63)) \<noteq> AOther \<and> ConvertValue (GUint64 (2 ^ 63)) = Some (Inr (GUint64 (2 ^ 63)))"
proof -
  have "ConvertValue (GPtr (Some (GValuer False (Some (Inr (GUint64 (2 ^ 63))))))) = Some (Inr (GUint64 (2 ^ 63)))"
    by (simp add: callValuerValue_def from_valuer_def)
  then show ?thesis using converted_type by blast
qed

text \<open>A time that is written is scanned back.\<close>

lemma Scan_Value: "Scan (Value nt) nt0 = (None, nt') \<Longrightarrow> Value nt' = Value nt"
  by (auto simp: Value_def split: if_splits)

end
