(* ===== verification/Registries.thy ===== *)
theory Registries
  imports Frames Driver Values
begin

text \<open>
  The process-wide registries of the driver: TLS configurations, public keys, dial functions, readers
  and local files.  Each is a map guarded by a lock; a locale states the contract they share.
\<close>

section \<open>The contract\<close>

datatype ('k, 'v) change = Register 'k 'v | Deregister 'k

fun apply_change :: "('k \<Rightarrow> 'v \<Rightarrow> 's \<Rightarrow> 's) \<Rightarrow> ('k \<Rightarrow> 's \<Rightarrow> 's) \<Rightarrow> ('k, 'v) change \<Rightarrow> 's \<Rightarrow> 's" where
  "apply_change reg dereg (Register k v) s = reg k v s"
| "apply_change reg dereg (Deregister k) s = dereg k s"

text \<open>What a history of changes leaves under a name: the last accepted change of it decides.\<close>

fun latest :: "('k \<Rightarrow> 'n) \<Rightarrow> ('k \<Rightarrow> bool) \<Rightarrow> 'k \<Rightarrow> ('k, 'v) change list \<Rightarrow> 'v option \<Rightarrow> 'v option" where
  "latest norm ok k [] v = v"
| "latest norm ok k (Register k' w # cs) v = latest norm ok k cs (if norm k = norm k' \<and> ok k' then Some w else v)"
| "latest norm ok k (Deregister k' # cs) v = latest norm ok k cs (if norm k = norm k' then None else v)"

text \<open>Names with the same \<open>norm\<close> are one; only names that are \<open>ok\<close> are accepted.\<close>

locale registry =
  fixes register :: "'k \<Rightarrow> 'v \<Rightarrow> 's \<Rightarrow> 's" and deregister :: "'k \<Rightarrow> 's \<Rightarrow> 's" and lookup :: "'k \<Rightarrow> 's \<Rightarrow> 'v option"
    and norm :: "'k \<Rightarrow> 'n" and ok :: "'k \<Rightarrow> bool"
  assumes found: "ok k \<Longrightarrow> norm k' = norm k \<Longrightarrow> lookup k' (register k v s) = Some v"
    and refused: "\<not> ok k \<Longrightarrow> lookup k' (register k v s) = lookup k' s"
    and kept: "norm k' \<noteq> norm k \<Longrightarrow> lookup k' (register k v s) = lookup k' s"
    and gone: "norm k' = norm k \<Longrightarrow> lookup k' (deregister k s) = None"
    and others: "norm k' \<noteq> norm k \<Longrightarrow> lookup k' (deregister k s) = lookup k' s"
begin

lemma history: "lookup k (fold (apply_change register deregister) cs s) = latest norm ok k cs (lookup k s)"
proof (induction cs arbitrary: s)
  case (Cons c cs)
  then show ?case using found refused kept gone others by (cases c) auto
qed simp

lemma untouched:
  "\<forall>c \<in> set cs. case c of Register k' v \<Rightarrow> norm k' \<noteq> norm k | Deregister k' \<Rightarrow> norm k' \<noteq> norm k \<Longrightarrow>
     lookup k (fold (apply_change register deregister) cs s) = lookup k s"
proof (induction cs arbitrary: s)
  case (Cons c cs)
  then show ?case using kept [of k] others [of k] by (cases c) auto
qed simp

end

section \<open>The five registries\<close>

definition tls_name_ok :: "bytes \<Rightarrow> bool" where
  "tls_name_ok k \<longleftrightarrow> readBool k = None \<and> lower k \<noteq> str ''skip-verify'' \<and> lower k \<noteq> str ''preferred''"

interpretation tls_reg: registry "\<lambda>k v env. snd (RegisterTLSConfig k v env)" DeregisterTLSConfig getTLSConfigClone id tls_name_ok
  by unfold_locales (auto simp: RegisterTLSConfig_def DeregisterTLSConfig_def getTLSConfigClone_def tls_name_ok_def)

interpretation key_reg: registry RegisterServerPubKey DeregisterServerPubKey getServerPubKey id "\<lambda>_. True"
  by unfold_locales (auto simp: RegisterServerPubKey_def DeregisterServerPubKey_def getServerPubKey_def)

interpretation dial_reg: registry RegisterDialContext DeregisterDialContext "\<lambda>n d. dials d n" id "\<lambda>_. True"
  by unfold_locales (auto simp: RegisterDialContext_def DeregisterDialContext_def)

interpretation reader_reg: registry RegisterReaderHandler DeregisterReaderHandler "\<lambda>n l. readerRegister l n" id "\<lambda>_. True"
  by unfold_locales (auto simp: RegisterReaderHandler_def DeregisterReaderHandler_def)

definition registerFile :: "bytes \<Rightarrow> unit \<Rightarrow> locals \<Rightarrow> locals" where
  "registerFile path u l = RegisterLocalFile path l"

definition fileRegistered :: "bytes \<Rightarrow> locals \<Rightarrow> unit option" where
  "fileRegistered path l = (if fileRegister l (trim_quotes path) then Some () else None)"

interpretation file_reg: registry registerFile DeregisterLocalFile fileRegistered trim_quotes "\<lambda>_. True"
  by unfold_locales (auto simp: registerFile_def fileRegistered_def RegisterLocalFile_def DeregisterLocalFile_def)

section \<open>Properties\<close>

text \<open>A name of \<open>LOAD DATA LOCAL INFILE\<close> that is not one of a reader.\<close>

definition file_name :: "bytes \<Rightarrow> bool" where
  "file_name name \<longleftrightarrow> (case find_sub (str ''Reader::'') name of None \<Rightarrow> True | Some i \<Rightarrow> i \<noteq> 0 \<and> name ! (i - 1) \<noteq> 0x2f)"

lemma empty_packet_sent:
  assumes "writable mc" and "\<not> creset mc" and "0 \<le> maxAllowedPacket mc"
  shows "\<exists>b. writePacket (fst (alloc 4 mc), 0, 4) (snd (alloc 4 mc)) =
    Some (None, mc\<lparr>cbuf := b, sent := sent mc @ [0, 0, 0, sequence mc], sequence := sequence mc + 1\<rparr>)"
proof -
  let ?m = "snd (alloc 4 mc)" and ?a = "fst (alloc 4 mc)"
  have r: "room ?m (?a, 0, 4)" "content ?m (?a, 0, 4) = replicate 4 0 @ []" by (simp_all add: alloc_def room_def content_slice)
  have m: "writable ?m" "\<not> creset ?m" "int (4 - 4) \<le> maxAllowedPacket ?m"
    using assms by (simp_all add: alloc_def writable_def)
  have f: "frames s [] = [0, 0, 0, s]" "of_nat (frame_count []) = (1 :: byte)" for s
    by (simp_all add: frames_short maxPacketSize_def le24_def frame_count_def)
  obtain b where "writePacket (?a, 0, 4) ?m = Some (None, ?m\<lparr>cbuf := b, sent := sent ?m @ frames (sequence ?m) [],
      sequence := sequence ?m + of_nat (frame_count [])\<rparr>)"
    using writePacket_frames [OF m(1) r(1) m(2,3) r(2)] by auto
  then show ?thesis by (auto simp: f alloc_def)
qed

text \<open>
  C34: A server cannot make the client send a file that is not released: whatever registrations came
  before, if the last of them for the file was a deregistration (or there was none) and not all files
  are allowed, the request is answered with the empty packet, the server's reply is read and dropped,
  and the statement fails.  The file system is not asked.
\<close>

theorem unregistered_file_not_sent:
  assumes "locals mc = fold (apply_change registerFile DeregisterLocalFile) cs l0"
    and "latest trim_quotes (\<lambda>_. True) name cs (fileRegistered name l0) = None"
    and "\<not> allowAllFiles (cfg mc)" and "file_name name"
    and "writable mc" and "\<not> creset mc" and "0 \<le> maxAllowedPacket mc"
  shows "\<exists>b. handleInFileRequest name mc = do {
      (_, mc') \<leftarrow> readPacket (mc\<lparr>cbuf := b, sent := sent mc @ [0, 0, 0, sequence mc], sequence := sequence mc + 1\<rparr>);
      Some (Some (FmtError ''local file is not registered''), mc') }"
proof -
  have "fileRegistered name (locals mc) = None" using file_reg.history [of name cs l0] assms(1,2) by simp
  then have "\<not> fileRegister (locals mc) (trim_quotes name)" by (simp add: fileRegistered_def split: if_splits)
  then have src: "infile_source name ps mc = (Inl (FmtError ''local file is not registered''), None)" for ps
    using assms(3,4) by (auto simp: infile_source_def file_name_def Let_def split: option.splits)
  obtain b where "writePacket (fst (alloc 4 mc), 0, 4) (snd (alloc 4 mc)) =
      Some (None, mc\<lparr>cbuf := b, sent := sent mc @ [0, 0, 0, sequence mc], sequence := sequence mc + 1\<rparr>)"
    using empty_packet_sent [OF assms(5-7)] by blast
  then show ?thesis
    by (intro exI [of _ b])
      (simp add: handleInFileRequest_def src send_content_def finish_content_def deferredClose_def case_prod_unfold Let_def)
qed

theorem unregistered_file_not_sent_witness:
  "\<exists>b. handleInFileRequest (str ''/etc/passwd'') (fresh_conn [([1, 0, 0, 1, 9], None)]) = do {
     (_, mc') \<leftarrow> readPacket ((fresh_conn [([1, 0, 0, 1, 9], None)])\<lparr>cbuf := b,
       sent := sent (fresh_conn [([1, 0, 0, 1, 9], None)]) @ [0, 0, 0, sequence (fresh_conn [([1, 0, 0, 1, 9], None)])],
       sequence := sequence (fresh_conn [([1, 0, 0, 1, 9], None)]) + 1\<rparr>);
     Some (Some (FmtError ''local file is not registered''), mc') }"
proof (rule unregistered_file_not_sent)
  show "locals (fresh_conn [([1, 0, 0, 1, 9], None)]) =
      fold (apply_change registerFile DeregisterLocalFile) [Register (str ''/etc/passwd'') (), Deregister (str ''/etc/passwd'')]
        (locals (fresh_conn []))"
    by (simp add: fresh_conn_def registerFile_def RegisterLocalFile_def DeregisterLocalFile_def fun_upd_idem)
  show "file_name (str ''/etc/passwd'')" by (simp add: file_name_def str_def)
  show "writable (fresh_conn [([1, 0, 0, 1, 9], None)])" by (rule fresh_conn)
qed (simp_all add: fresh_conn_def)

end
