(* ===== verification/Service.thy ===== *)
theory Service
  imports Session PgProxy
begin

text \<open>
  A client's session as a whole (\<open>service\<close> in \<open>proxy/mysql.go\<close> and \<open>proxy/postgres.go\<close>): the goroutine of
  \<open>handleInbound\<close> and the one of \<open>handleOutbound\<close> between the client and the main server, as a transition
  system in which any step of either may come next.  Both proxies are instances: what they do with
  one message is the argument \<open>answer\<close>, the main server is the argument \<open>server\<close>.
\<close>

section \<open>One message\<close>

text \<open>
  What \<open>delegateSelect\<close> makes of a message: the bytes it writes to the client, the session passed over
  to the main server, an endless loop or a panic.
\<close>

datatype 'p answer = Delegated bytes 'p | Passed 'p | Looped | Panicked

definition mysql_answer :: "(int \<Rightarrow> int) \<Rightarrow> bytes \<Rightarrow> session \<Rightarrow> session answer" where
  "mysql_answer intn m p =
     (case delegateSelect intn m (p\<lparr>toClient := []\<rparr>) of
        None \<Rightarrow> Looped
      | Some None \<Rightarrow> Panicked
      | Some (Some ((flag, e), p1)) \<Rightarrow> if flag then Delegated (toClient p1) p1 else Passed p1)"

definition pg_answer :: "(pgmsg \<Rightarrow> bytes) \<Rightarrow> ('h pgdb \<Rightarrow> bytes \<Rightarrow> 'w \<Rightarrow> (error + pgrows) \<times> 'w) \<Rightarrow>
    (int \<Rightarrow> int) \<Rightarrow> bytes \<Rightarrow> ('h, 'w) pgsession \<Rightarrow> ('h, 'w) pgsession answer" where
  "pg_answer encode dbQuery intn m p =
     (case pg_delegateSelect encode dbQuery intn m (p\<lparr>pgClient := (pgClient p)\<lparr>written := []\<rparr>\<rparr>) of
        None \<Rightarrow> Panicked
      | Some (flag, p1) \<Rightarrow> if flag then Delegated (written (pgClient p1)) p1 else Passed p1)"

section \<open>The state\<close>

text \<open>
  Where \<open>handleInbound\<close> is: at a read, or writing a reply to the client and then going on, looping or
  panicking, or it has returned.
\<close>

datatype fate = Continues | Loops | Panics
datatype inbound = Reading | Writing bytes fate | Returned

text \<open>
  \<open>fromServer\<close> is what the main server has sent and \<open>handleOutbound\<close> has not read; \<open>outboundOn\<close> tells that the
  latter has not returned.  \<open>asked\<close> are the messages read, \<open>passed\<close> those sent on to the main server,
  \<open>received\<close> is what has been written to the client, \<open>due\<close> the replies in the order of the messages: the
  code keeps none of these four.
\<close>

record ('p, 'm) service =
  sess :: 'p
  inboundAt :: inbound
  outboundOn :: bool
  serverState :: 'm
  fromServer :: bytes
  serverGone :: bool
  clientGone :: bool
  exitSet :: bool
  remoteOpen :: bool
  localOpen :: bool
  crashed :: bool
  asked :: "bytes list"
  passed :: "bytes list"
  received :: bytes
  due :: bytes

text \<open>\<open>service\<close> with both connections open; the main server speaks first.\<close>

definition begin_service :: "'p \<Rightarrow> 'm \<Rightarrow> bytes \<Rightarrow> ('p, 'm) service" where
  "begin_service p \<sigma> greeting = \<lparr>sess = p, inboundAt = Reading, outboundOn = True, serverState = \<sigma>,
     fromServer = greeting, serverGone = False, clientGone = False, exitSet = False, remoteOpen = True,
     localOpen = True, crashed = False, asked = [], passed = [], received = [], due = greeting\<rparr>"

section \<open>Steps of the two goroutines\<close>

text \<open>
  The write of a reply may go out in any pieces, and a read returns any part of what is there that fits its
  buffer.  The PostgreSQL proxy's buffers are one byte shorter, so its runs are among these.
\<close>

definition buffSize :: nat where
  "buffSize = 65536"

inductive serve_step :: "('p, 'm) service \<Rightarrow> ('p, 'm) service \<Rightarrow> bool" where
  reply: "\<not> crashed s \<Longrightarrow> inboundAt s = Writing (a @ b) f \<Longrightarrow> a \<noteq> [] \<Longrightarrow>
    serve_step s (s\<lparr>inboundAt := Writing b f, received := received s @ a\<rparr>)"
| replied: "\<not> crashed s \<Longrightarrow> inboundAt s = Writing [] Continues \<Longrightarrow> serve_step s (s\<lparr>inboundAt := Reading\<rparr>)"
| panic: "\<not> crashed s \<Longrightarrow> inboundAt s = Writing [] Panics \<Longrightarrow> serve_step s (s\<lparr>crashed := True\<rparr>)"
| read_fails: "\<not> crashed s \<Longrightarrow> inboundAt s = Reading \<Longrightarrow> clientGone s \<Longrightarrow> serve_step s (s\<lparr>inboundAt := Returned\<rparr>)"
| exits: "\<not> crashed s \<Longrightarrow> inboundAt s = Returned \<Longrightarrow> \<not> exitSet s \<Longrightarrow> serve_step s (s\<lparr>exitSet := True\<rparr>)"
| close_remote: "\<not> crashed s \<Longrightarrow> exitSet s \<Longrightarrow> remoteOpen s \<Longrightarrow> serve_step s (s\<lparr>remoteOpen := False\<rparr>)"
| close_local: "\<not> crashed s \<Longrightarrow> exitSet s \<Longrightarrow> \<not> remoteOpen s \<Longrightarrow> localOpen s \<Longrightarrow> serve_step s (s\<lparr>localOpen := False\<rparr>)"
| copy: "\<not> crashed s \<Longrightarrow> outboundOn s \<Longrightarrow> remoteOpen s \<Longrightarrow> fromServer s = a @ b \<Longrightarrow> a \<noteq> [] \<Longrightarrow> length a \<le> buffSize \<Longrightarrow>
    serve_step s (s\<lparr>fromServer := b, received := received s @ a\<rparr>)"
| copy_fails: "\<not> crashed s \<Longrightarrow> outboundOn s \<Longrightarrow> fromServer s \<noteq> [] \<Longrightarrow> clientGone s \<or> \<not> localOpen s \<Longrightarrow>
    serve_step s (s\<lparr>outboundOn := False\<rparr>)"
| outbound_ends: "\<not> crashed s \<Longrightarrow> outboundOn s \<Longrightarrow> fromServer s = [] \<and> serverGone s \<or> \<not> remoteOpen s \<Longrightarrow>
    serve_step s (s\<lparr>outboundOn := False\<rparr>)"

inductive_cases serve_stepE: "serve_step s t"

section \<open>Steps of the environment\<close>

text \<open>
  The client sends a message, which \<open>handleInbound\<close> reads and \<open>delegateSelect\<close> deals with; a polite client
  does so only when it has received all replies.  A message for the main server is answered by it,
  unless it is gone: then the write fails or the message is lost.  Before a panic or an endless loop
  any bytes may be written.  A server that goes may cut off its last reply.
\<close>

definition sends :: "bool \<Rightarrow> bytes \<Rightarrow> ('p, 'm) service \<Rightarrow> bool" where
  "sends polite m s \<longleftrightarrow> \<not> crashed s \<and> \<not> clientGone s \<and> inboundAt s = Reading \<and> 0 < length m \<and> length m \<le> buffSize \<and>
     (polite \<longrightarrow> received s = due s)"

inductive env_step :: "bool \<Rightarrow> ((int \<Rightarrow> int) \<Rightarrow> bytes \<Rightarrow> 'p \<Rightarrow> 'p answer) \<Rightarrow> ('m \<Rightarrow> bytes \<Rightarrow> bytes \<times> 'm) \<Rightarrow>
    ('p, 'm) service \<Rightarrow> ('p, 'm) service \<Rightarrow> bool" for polite answer server where
  delegates: "sends polite m s \<Longrightarrow> answer intn m (sess s) = Delegated w p \<Longrightarrow>
    env_step polite answer server s
      (s\<lparr>sess := p, asked := asked s @ [m], inboundAt := Writing w Continues, due := due s @ w\<rparr>)"
| loops: "sends polite m s \<Longrightarrow> answer intn m (sess s) = Looped \<Longrightarrow>
    env_step polite answer server s (s\<lparr>inboundAt := Writing w Loops, due := due s @ w\<rparr>)"
| panics: "sends polite m s \<Longrightarrow> answer intn m (sess s) = Panicked \<Longrightarrow>
    env_step polite answer server s (s\<lparr>inboundAt := Writing w Panics, due := due s @ w\<rparr>)"
| passes: "sends polite m s \<Longrightarrow> answer intn m (sess s) = Passed p \<Longrightarrow> \<not> serverGone s \<Longrightarrow>
    server (serverState s) m = (r, \<sigma>) \<Longrightarrow>
    env_step polite answer server s
      (s\<lparr>sess := p, asked := asked s @ [m], passed := passed s @ [m], serverState := \<sigma>,
         fromServer := fromServer s @ r, due := due s @ r\<rparr>)"
| pass_lost: "sends polite m s \<Longrightarrow> answer intn m (sess s) = Passed p \<Longrightarrow> serverGone s \<Longrightarrow>
    env_step polite answer server s (s\<lparr>sess := p, asked := asked s @ [m], passed := passed s @ [m]\<rparr>)"
| pass_fails: "sends polite m s \<Longrightarrow> answer intn m (sess s) = Passed p \<Longrightarrow> serverGone s \<Longrightarrow>
    env_step polite answer server s (s\<lparr>sess := p, inboundAt := Returned\<rparr>)"
| client_leaves: "env_step polite answer server s (s\<lparr>clientGone := True\<rparr>)"
| server_leaves: "fromServer s = a @ b \<Longrightarrow> \<not> serverGone s \<Longrightarrow>
    env_step polite answer server s (s\<lparr>fromServer := a, serverGone := True\<rparr>)"

inductive_cases env_stepE: "env_step polite answer server s t"

inductive run_service :: "bool \<Rightarrow> ((int \<Rightarrow> int) \<Rightarrow> bytes \<Rightarrow> 'p \<Rightarrow> 'p answer) \<Rightarrow> ('m \<Rightarrow> bytes \<Rightarrow> bytes \<times> 'm) \<Rightarrow>
    ('p, 'm) service \<Rightarrow> ('p, 'm) service \<Rightarrow> bool" for polite answer server s0 where
  start: "run_service polite answer server s0 s0"
| inside: "run_service polite answer server s0 s \<Longrightarrow> serve_step s t \<Longrightarrow> run_service polite answer server s0 t"
| outside: "run_service polite answer server s0 s \<Longrightarrow> env_step polite answer server s t \<Longrightarrow>
    run_service polite answer server s0 t"

section \<open>Replies in order\<close>

definition pending :: "('p, 'm) service \<Rightarrow> bytes" where
  "pending s = (case inboundAt s of Writing w f \<Rightarrow> w | _ \<Rightarrow> [])"

text \<open>What the client has received, what is on its way and what was cut off make up the replies; only one goroutine has any.\<close>

definition ordered :: "('p, 'm) service \<Rightarrow> bool" where
  "ordered s \<longleftrightarrow> (\<exists>lost. due s = received s @ pending s @ fromServer s @ lost \<and> (lost = [] \<or> serverGone s) \<and>
     (pending s = [] \<or> fromServer s = [] \<and> lost = []))"

lemmas ordered_defs = ordered_def pending_def

lemma serve_ordered:
  assumes "serve_step s t" and "ordered s"
  shows "ordered t"
proof -
  obtain lost where l: "due s = received s @ pending s @ fromServer s @ lost" "lost = [] \<or> serverGone s"
    "pending s = [] \<or> fromServer s = [] \<and> lost = []" using assms(2) by (auto simp: ordered_def)
  have "due t = received t @ pending t @ fromServer t @ lost \<and> (lost = [] \<or> serverGone t) \<and>
      (pending t = [] \<or> fromServer t = [] \<and> lost = [])"
    using assms(1) l by (cases rule: serve_step.cases) (auto simp: pending_def)
  then show ?thesis by (auto simp: ordered_def)
qed

lemma polite_sends: "sends True m s \<Longrightarrow> ordered s \<Longrightarrow> fromServer s = [] \<and> pending s = [] \<and> received s = due s"
  by (auto simp: sends_def ordered_def)

lemma env_ordered:
  assumes "env_step True answer server s t" and "ordered s"
  shows "ordered t"
  using assms(1)
proof cases
  case (delegates m intn w p)
  with polite_sends [OF delegates(2) assms(2)] show ?thesis by (simp add: ordered_defs)
next
  case (loops m intn w)
  with polite_sends [OF loops(2) assms(2)] show ?thesis by (simp add: ordered_defs)
next
  case (panics m intn w)
  with polite_sends [OF panics(2) assms(2)] show ?thesis by (simp add: ordered_defs)
next
  case (passes m intn p r \<sigma>)
  with polite_sends [OF passes(2) assms(2)] show ?thesis by (auto simp: ordered_defs)
next
  case (server_leaves a b)
  obtain lost where l: "due s = received s @ pending s @ fromServer s @ lost" "pending s = [] \<or> fromServer s = [] \<and> lost = []"
    using assms(2) by (auto simp: ordered_def)
  have "pending t = pending s" by (simp add: server_leaves pending_def)
  then have "due t = received t @ pending t @ fromServer t @ b @ lost" "serverGone t"
    "pending t = [] \<or> fromServer t = [] \<and> b @ lost = []"
    using l server_leaves by auto
  then show ?thesis unfolding ordered_def by blast
next
  case (pass_fails m intn p)
  with polite_sends [OF pass_fails(2) assms(2)] show ?thesis by (simp add: ordered_defs)
qed (use assms(2) in \<open>simp_all add: ordered_defs\<close>)

lemma begin_ordered: "ordered (begin_service p \<sigma> g)"
  by (simp add: ordered_defs begin_service_def)

lemma run_ordered: "run_service True answer server (begin_service p \<sigma> g) s \<Longrightarrow> ordered s"
  by (induction rule: run_service.induct) (auto intro: begin_ordered serve_ordered env_ordered)

section \<open>Closing\<close>

text \<open>The connections are closed only after \<open>handleInbound\<close> has returned, the main server's first.\<close>

definition closing_order :: "('p, 'm) service \<Rightarrow> bool" where
  "closing_order s \<longleftrightarrow> (exitSet s \<longrightarrow> inboundAt s = Returned) \<and> (\<not> remoteOpen s \<longrightarrow> exitSet s) \<and> (\<not> localOpen s \<longrightarrow> \<not> remoteOpen s)"

lemma serve_closing_order: "serve_step s t \<Longrightarrow> closing_order s \<Longrightarrow> closing_order t"
  by (erule serve_stepE) (auto simp: closing_order_def)

lemma env_closing_order: "env_step polite answer server s t \<Longrightarrow> closing_order s \<Longrightarrow> closing_order t"
  by (erule env_stepE) (auto simp: closing_order_def sends_def)

lemma run_closing_order: "run_service polite answer server (begin_service p \<sigma> g) s \<Longrightarrow> closing_order s"
proof (induction rule: run_service.induct)
  case start
  then show ?case by (simp add: closing_order_def begin_service_def)
qed (auto intro: serve_closing_order env_closing_order)

fun inbound_rank :: "inbound \<Rightarrow> nat" where
  "inbound_rank (Writing w f) = 3 + length w"
| "inbound_rank Reading = 2"
| "inbound_rank Returned = 1"

definition service_rank :: "('p, 'm) service \<Rightarrow> nat" where
  "service_rank s = inbound_rank (inboundAt s) + length (fromServer s) + of_bool (outboundOn s) + of_bool (\<not> exitSet s) +
     of_bool (remoteOpen s) + of_bool (localOpen s) + of_bool (\<not> crashed s)"

lemma serve_service_rank: "serve_step s t \<Longrightarrow> service_rank t < service_rank s"
  by (erule serve_stepE) (auto simp: service_rank_def)

lemma serve_steps_bound: "(serve_step ^^ k) s t \<Longrightarrow> k + service_rank t \<le> service_rank s"
proof (induction k arbitrary: t)
  case (Suc k)
  then obtain u where "(serve_step ^^ k) s u" "serve_step u t" by auto
  then show ?case using Suc.IH [of u] serve_service_rank [of u t] by simp
qed simp

definition leaving :: "('p, 'm) service \<Rightarrow> bool" where
  "leaving s \<longleftrightarrow> clientGone s \<or> inboundAt s = Returned"

lemma serve_leaving: "serve_step s t \<Longrightarrow> leaving s \<Longrightarrow> leaving t"
  by (erule serve_stepE) (auto simp: leaving_def)

lemma steps_leaving: "(serve_step ^^ k) s t \<Longrightarrow> leaving s \<Longrightarrow> leaving t"
  by (induction k arbitrary: t) (auto intro: serve_leaving)

definition wound_up :: "('p, 'm) service \<Rightarrow> bool" where
  "wound_up s \<longleftrightarrow> inboundAt s = Returned \<and> \<not> outboundOn s \<and> \<not> remoteOpen s \<and> \<not> localOpen s"

lemma leaving_progress:
  assumes "leaving s" and "\<nexists>t. serve_step s t" and "\<not> crashed s" and "inboundAt s \<noteq> Writing [] Loops"
  shows "wound_up s"
proof (cases "inboundAt s")
  case Reading
  then show ?thesis using assms serve_step.read_fails [of s] by (auto simp: leaving_def)
next
  case (Writing w f)
  then have "w = []" using assms(2,3) serve_step.reply [of s w "[]" f] by auto
  then show ?thesis using Writing assms(2-4) serve_step.replied [of s] serve_step.panic [of s] by (cases f) auto
next
  case Returned
  then have e: "exitSet s" using assms(2,3) serve_step.exits [of s] by auto
  then have r: "\<not> remoteOpen s" using assms(2,3) serve_step.close_remote [of s] by auto
  then show ?thesis using Returned e assms(2,3) serve_step.close_local [of s] serve_step.outbound_ends [of s] by (auto simp: wound_up_def)
qed

section \<open>The handlers\<close>

text \<open>What \<open>handleInbound\<close> does with a message is what the router says, in the state of its transaction.\<close>

lemma run_routes_snoc:
  "run_routes rt tx ms = Some (rs, tx1) \<Longrightarrow> rt tx1 m = Some (r, tx2) \<Longrightarrow> run_routes rt tx (ms @ [m]) = Some (rs @ [r], tx2)"
  by (induction ms arbitrary: tx rs) (auto split: Option.bind_splits)

lemma run_routes_length: "run_routes rt tx ms = Some (rs, tx1) \<Longrightarrow> length rs = length ms"
  by (induction ms arbitrary: tx rs) (auto split: Option.bind_splits)

lemma main_traffic_snoc:
  "length rs = length ms \<Longrightarrow> main_traffic (ms @ [m]) (rs @ [r]) = main_traffic ms rs @ (if r = ToMain then m else [])"
  by (simp add: main_traffic_def)

definition routed :: "(bool \<Rightarrow> bytes \<Rightarrow> (route \<times> bool) option) \<Rightarrow> ('p \<Rightarrow> bool) \<Rightarrow> bool \<Rightarrow> ('p, 'm) service \<Rightarrow> bool" where
  "routed route_of intrans tx0 s \<longleftrightarrow> (\<exists>rs tx. run_routes route_of tx0 (asked s) = Some (rs, tx) \<and>
     concat (passed s) = main_traffic (asked s) rs \<and> (inboundAt s = Returned \<or> tx = intrans (sess s)))"

locale inbound_handler =
  fixes answer :: "(int \<Rightarrow> int) \<Rightarrow> bytes \<Rightarrow> 'p \<Rightarrow> 'p answer"
    and route_of :: "bool \<Rightarrow> bytes \<Rightarrow> (route \<times> bool) option"
    and intrans :: "'p \<Rightarrow> bool"
  assumes passed_main: "answer intn m p = Passed p' \<Longrightarrow> route_of (intrans p) m = Some (ToMain, intrans p')"
    and delegated_replica: "answer intn m p = Delegated w p' \<Longrightarrow> \<exists>q. route_of (intrans p) m = Some (ToReplica q, intrans p')"
begin

lemma routed_serve: "serve_step s t \<Longrightarrow> routed route_of intrans tx0 s \<Longrightarrow> routed route_of intrans tx0 t"
  by (erule serve_stepE) (auto simp: routed_def)

lemma routed_snoc:
  assumes "routed route_of intrans tx0 s" and "inboundAt s = Reading" and "route_of (intrans (sess s)) m = Some (r, tx)"
    and "asked t = asked s @ [m]" and "passed t = passed s @ (if r = ToMain then [m] else [])" and "intrans (sess t) = tx"
  shows "routed route_of intrans tx0 t"
proof -
  obtain rs where rs: "run_routes route_of tx0 (asked s) = Some (rs, intrans (sess s))" "concat (passed s) = main_traffic (asked s) rs"
    using assms(1,2) by (auto simp: routed_def)
  have "run_routes route_of tx0 (asked t) = Some (rs @ [r], tx)"
    unfolding assms(4) by (rule run_routes_snoc [OF rs(1) assms(3)])
  moreover have "concat (passed t) = main_traffic (asked t) (rs @ [r])"
    unfolding assms(4,5) by (simp add: main_traffic_snoc [OF run_routes_length [OF rs(1)]] rs(2))
  ultimately show ?thesis using assms(6) by (auto simp: routed_def)
qed

lemma routed_env:
  assumes "env_step polite answer server s t" and "routed route_of intrans tx0 s"
  shows "routed route_of intrans tx0 t"
  using assms(1)
proof cases
  case (delegates m intn w p)
  then obtain q where "route_of (intrans (sess s)) m = Some (ToReplica q, intrans p)" using delegated_replica by blast
  from routed_snoc [OF assms(2) _ this, of t] delegates show ?thesis by (simp add: sends_def)
next
  case (passes m intn p r \<sigma>)
  from routed_snoc [OF assms(2) _ passed_main [OF passes(3)], of t] passes show ?thesis by (simp add: sends_def)
next
  case (pass_lost m intn p)
  from routed_snoc [OF assms(2) _ passed_main [OF pass_lost(3)], of t] pass_lost show ?thesis by (simp add: sends_def)
qed (use assms(2) in \<open>auto simp: routed_def sends_def\<close>)

lemma routed_run: "run_service polite answer server (begin_service p \<sigma> g) s \<Longrightarrow> routed route_of intrans (intrans p) s"
proof (induction rule: run_service.induct)
  case start
  then show ?case by (simp add: routed_def begin_service_def)
qed (auto intro: routed_serve routed_env)

lemma sent_as_routed:
  assumes "run_service polite answer server (begin_service p \<sigma> g) s"
  shows "\<exists>rs tx. run_routes route_of (intrans p) (asked s) = Some (rs, tx) \<and> concat (passed s) = main_traffic (asked s) rs"
  using routed_run [OF assms] by (auto simp: routed_def)

end

lemma mysql_delegated:
  assumes "delegateSelect intn m p = Some (Some ((f, e), p'))"
  shows "mysql_message (inTrans p) m = Some (ToMain, inTrans p') \<and> \<not> f \<or>
    (\<exists>q. mysql_message (inTrans p) m = Some (ToReplica q, inTrans p') \<and> f)"
proof -
  have "mysql_message (inTrans p) m \<noteq> None"
    using assms by (cases "mysql_message (inTrans p) m") (simp_all add: delegateSelect_def route_message)
  then obtain r tx where r: "mysql_message (inTrans p) m = Some (r, tx)" by auto
  show ?thesis
  proof (cases r)
    case ToMain
    then show ?thesis using r assms delegate_main [of p m tx intn] by auto
  next
    case (ToReplica q)
    note rt = r [unfolded ToReplica]
    from delegate_select [OF rt assms] replica_keeps_trans [OF rt] rt show ?thesis by auto
  qed
qed

interpretation my_handler: inbound_handler mysql_answer mysql_message inTrans
proof unfold_locales
  fix intn m p p'
  assume "mysql_answer intn m p = Passed p'"
  then obtain e where "delegateSelect intn m (p\<lparr>toClient := []\<rparr>) = Some (Some ((False, e), p'))"
    by (auto simp: mysql_answer_def split: option.splits if_splits)
  from mysql_delegated [OF this] show "mysql_message (inTrans p) m = Some (ToMain, inTrans p')" by auto
next
  fix intn m p w p'
  assume "mysql_answer intn m p = Delegated w p'"
  then obtain e where "delegateSelect intn m (p\<lparr>toClient := []\<rparr>) = Some (Some ((True, e), p'))"
    by (auto simp: mysql_answer_def split: option.splits if_splits)
  from mysql_delegated [OF this] show "\<exists>q. mysql_message (inTrans p) m = Some (ToReplica q, inTrans p')" by auto
qed

lemma pg_delegated:
  assumes "pg_delegateSelect encode dbQuery intn m p = Some (f, p')"
  shows "pg_route (pgInTrans p) m = Some (ToMain, pgInTrans p') \<and> \<not> f \<or>
    (\<exists>q. pg_route (pgInTrans p) m = Some (ToReplica q, pgInTrans p') \<and> f)"
proof -
  obtain r tx where r: "pg_route (pgInTrans p) m = Some (r, tx)"
    using assms by (cases "pg_route (pgInTrans p) m") (auto simp: pg_delegateSelect_def)
  show ?thesis
  proof (cases r)
    case ToMain
    then show ?thesis using r assms pg_delegate_main [of p m tx encode dbQuery intn] by auto
  next
    case (ToReplica q)
    note rt = r [unfolded ToReplica]
    from pg_delegate_select [OF rt assms] pg_replica_keeps_trans [OF rt] rt show ?thesis by auto
  qed
qed

interpretation pg_handler: inbound_handler "pg_answer encode dbQuery" pg_route pgInTrans
proof unfold_locales
  fix intn m p p'
  assume "pg_answer encode dbQuery intn m p = Passed p'"
  then have "pg_delegateSelect encode dbQuery intn m (p\<lparr>pgClient := (pgClient p)\<lparr>written := []\<rparr>\<rparr>) = Some (False, p')"
    by (auto simp: pg_answer_def split: option.splits if_splits)
  from pg_delegated [OF this] show "pg_route (pgInTrans p) m = Some (ToMain, pgInTrans p')" by auto
next
  fix intn m w p p'
  assume "pg_answer encode dbQuery intn m p = Delegated w p'"
  then have "pg_delegateSelect encode dbQuery intn m (p\<lparr>pgClient := (pgClient p)\<lparr>written := []\<rparr>\<rparr>) = Some (True, p')"
    by (auto simp: pg_answer_def split: option.splits if_splits)
  from pg_delegated [OF this] show "\<exists>q. pg_route (pgInTrans p) m = Some (ToReplica q, pgInTrans p')" by auto
qed

section \<open>Properties\<close>

text \<open>
  C4: A client that waits for the whole reply to a message before it sends the next one receives the
  replies in the order of its messages, whatever the two goroutines do: at any time it has a prefix of them,
  and as long as the main server is there, what is missing is on its way, from one of the two only.
\<close>

theorem replies_in_order:
  assumes "run_service True answer server (begin_service p \<sigma> greeting) s"
  shows "prefix (received s) (due s) \<and>
    (\<not> serverGone s \<longrightarrow> due s = received s @ pending s @ fromServer s \<and> (pending s = [] \<or> fromServer s = []))"
  using run_ordered [OF assms] by (auto simp: ordered_def)

text \<open>A main server that answers every message with two bytes, and a client that has begun a transaction.\<close>

definition demo_server :: "unit \<Rightarrow> bytes \<Rightarrow> bytes \<times> unit" where
  "demo_server \<sigma> m = ([1, 2], \<sigma>)"

definition demo_begun :: "(session, unit) service" where
  "demo_begun = (begin_service (demo_session (fresh_conn [])) () [])
     \<lparr>sess := (demo_session (fresh_conn []))\<lparr>inTrans := True\<rparr>, asked := [com_query ''begin''],
      passed := [com_query ''begin''], fromServer := [1, 2], due := [1, 2]\<rparr>"

lemma demo_begin: "mysql_message False (com_query ''begin'') = Some (ToMain, True)"
  by code_simp

lemma demo_passed:
  "mysql_answer intn (com_query ''begin'') (demo_session c) = Passed ((demo_session c)\<lparr>inTrans := True\<rparr>)"
proof -
  have "delegateSelect intn (com_query ''begin'') (demo_session c) =
      Some (Some ((False, None), (demo_session c)\<lparr>inTrans := True\<rparr>))"
    by (rule delegate_main) (simp add: demo_session(5) demo_begin)
  moreover have "(demo_session c)\<lparr>toClient := []\<rparr> = demo_session c" by (simp add: demo_session_def)
  ultimately show ?thesis by (simp add: mysql_answer_def)
qed

lemma demo_begun_run:
  "run_service polite mysql_answer demo_server (begin_service (demo_session (fresh_conn [])) () []) demo_begun"
proof -
  let ?s = "begin_service (demo_session (fresh_conn [])) () []"
  have "sends polite (com_query ''begin'') ?s"
    by (simp add: sends_def begin_service_def com_query_def buffSize_def str_def)
  then have "env_step polite mysql_answer demo_server ?s demo_begun"
    using env_step.passes [of polite "com_query ''begin''" ?s mysql_answer "\<lambda>_. 0"
      "(demo_session (fresh_conn []))\<lparr>inTrans := True\<rparr>" demo_server "[1, 2]" "()"]
    by (simp add: begin_service_def demo_passed demo_server_def demo_begun_def)
  then show ?thesis by (rule run_service.outside [OF run_service.start])
qed

theorem replies_in_order_witness:
  "prefix (received (demo_begun\<lparr>fromServer := [2], received := [1]\<rparr>)) (due (demo_begun\<lparr>fromServer := [2], received := [1]\<rparr>))"
proof -
  have "serve_step demo_begun (demo_begun\<lparr>fromServer := [2], received := received demo_begun @ [1]\<rparr>)"
    by (rule serve_step.copy) (simp_all add: demo_begun_def begin_service_def buffSize_def)
  then have "serve_step demo_begun (demo_begun\<lparr>fromServer := [2], received := [1]\<rparr>)"
    by (simp add: demo_begun_def begin_service_def)
  from replies_in_order [OF run_service.inside [OF demo_begun_run this]] show ?thesis by simp
qed

text \<open>
  C2: In every interleaving a session sends the main server exactly the messages the router assigns to it,
  unchanged and in the order in which they were read, whether or not the client waits for its replies.
\<close>

theorem service_refines_router:
  assumes "run_service polite mysql_answer server (begin_service p \<sigma> greeting) s"
  shows "\<exists>rs tx. run_routes mysql_message (inTrans p) (asked s) = Some (rs, tx) \<and>
    concat (passed s) = main_traffic (asked s) rs"
  using assms by (rule my_handler.sent_as_routed)

theorem service_refines_router_witness:
  "\<exists>rs tx. run_routes mysql_message False (asked demo_begun) = Some (rs, tx) \<and>
     concat (passed demo_begun) = main_traffic (asked demo_begun) rs \<and> asked demo_begun \<noteq> []"
proof -
  have "asked demo_begun \<noteq> []" by (simp add: demo_begun_def)
  then show ?thesis using service_refines_router [OF demo_begun_run [of False]] by (simp add: demo_session(5))
qed

text \<open>
  C26: The PostgreSQL proxy's sessions do the same.
\<close>

theorem pg_service_refines_router:
  assumes "run_service polite (pg_answer encode dbQuery) server (begin_service p \<sigma> greeting) s"
  shows "\<exists>rs tx. run_routes pg_route (pgInTrans p) (asked s) = Some (rs, tx) \<and>
    concat (passed s) = main_traffic (asked s) rs"
  using assms by (rule pg_handler.sent_as_routed)

theorem pg_service_refines_router_witness:
  "\<exists>s rs tx. asked s = [pg_query ''begin''] \<and> run_routes pg_route False (asked s) = Some (rs, tx) \<and>
     concat (passed (s :: ((nat, unit) pgsession, unit) service)) = main_traffic (asked s) rs"
proof -
  let ?answer = "pg_answer demo_encode (\<lambda>_ _ w. (Inl IoEOF, w))"
  let ?s = "begin_service demo_pgsession () []"
  have "pg_route False (pg_query ''begin'') = Some (ToMain, True)" by code_simp
  then have "?answer (\<lambda>_. 0) (pg_query ''begin'') demo_pgsession = Passed (demo_pgsession\<lparr>pgInTrans := True\<rparr>)"
    by (simp add: pg_answer_def pg_delegateSelect_def demo_pgsession_def)
  moreover have "sends False (pg_query ''begin'') ?s"
    by (simp add: sends_def begin_service_def pg_query_def buffSize_def str_def)
  moreover define t where "t = ?s\<lparr>sess := demo_pgsession\<lparr>pgInTrans := True\<rparr>,
      asked := asked ?s @ [pg_query ''begin''], passed := passed ?s @ [pg_query ''begin''],
      serverState := (), fromServer := fromServer ?s @ [1, 2], due := due ?s @ [1, 2]\<rparr>"
  ultimately have "env_step False ?answer demo_server ?s t"
    unfolding t_def by (intro env_step.passes) (auto simp: begin_service_def demo_server_def)
  from pg_service_refines_router [OF run_service.outside [OF run_service.start this]]
  have "\<exists>rs tx. run_routes pg_route False (asked t) = Some (rs, tx) \<and> concat (passed t) = main_traffic (asked t) rs"
    by (simp add: demo_pgsession_def)
  moreover have "asked t = [pg_query ''begin'']" by (simp add: t_def begin_service_def)
  ultimately show ?thesis by blast
qed

text \<open>
  C12: Once the client is gone, or \<open>handleInbound\<close> has returned, the session winds up by itself: after a bounded
  number of steps of the two goroutines none is left, and then both have returned and both connections are
  closed, unless the process has panicked or the reply was the one that never ends.
\<close>

theorem service_winds_up:
  assumes "clientGone s \<or> inboundAt s = Returned" and "(serve_step ^^ k) s t"
  shows "k \<le> service_rank s \<and>
    ((\<nexists>u. serve_step t u) \<longrightarrow> crashed t \<or> inboundAt t = Writing [] Loops \<or> wound_up t)"
proof -
  have "leaving t" using steps_leaving [OF assms(2)] assms(1) by (simp add: leaving_def)
  then show ?thesis using serve_steps_bound [OF assms(2)] leaving_progress by fastforce
qed

theorem service_winds_up_witness:
  "\<exists>t. (serve_step ^^ 1) (demo_begun\<lparr>clientGone := True\<rparr>) t \<and> 1 \<le> service_rank (demo_begun\<lparr>clientGone := True\<rparr>)"
proof -
  let ?s = "demo_begun\<lparr>clientGone := True\<rparr>"
  have "serve_step ?s (?s\<lparr>inboundAt := Returned\<rparr>)"
    by (rule serve_step.read_fails) (simp_all add: demo_begun_def begin_service_def)
  then have r: "(serve_step ^^ 1) ?s (?s\<lparr>inboundAt := Returned\<rparr>)" by auto
  show ?thesis using service_winds_up [OF _ r] r by auto
qed

text \<open>
  C11: A main server that goes away in the middle of a reply leaves the client waiting for ever: once
  \<open>handleOutbound\<close> has returned, nothing of the session moves any more, and the client's connection stays open
  until the client itself gives up.
\<close>

theorem half_open_session_waits:
  assumes "run_service True answer server (begin_service p \<sigma> greeting) s"
    and "\<not> outboundOn s" and "\<not> clientGone s" and "inboundAt s = Reading" and "received s \<noteq> due s"
  shows "localOpen s \<and> (\<nexists>t. serve_step s t) \<and>
    (\<forall>t. env_step True answer server s t \<longrightarrow> received t = received s \<and> inboundAt t = Reading \<and> \<not> outboundOn t \<and> localOpen t)"
proof -
  have "\<not> exitSet s" "remoteOpen s" "localOpen s" using run_closing_order [OF assms(1)] assms(4) by (auto simp: closing_order_def)
  moreover have "\<nexists>t. serve_step s t" using assms(2-4) \<open>\<not> exitSet s\<close> by (auto elim!: serve_stepE)
  moreover have "\<not> sends True m s" for m using assms(5) by (simp add: sends_def)
  ultimately show ?thesis using assms(2,4) by (auto elim!: env_stepE)
qed

theorem half_open_session_waits_witness:
  "\<exists>s. run_service True mysql_answer demo_server (begin_service (demo_session (fresh_conn [])) () []) s \<and>
     received s = [1] \<and> due s = [1, 2] \<and> localOpen s \<and> (\<nexists>t. serve_step s t)"
proof -
  let ?run = "run_service True mysql_answer demo_server (begin_service (demo_session (fresh_conn [])) () [])"
  let ?s1 = "demo_begun\<lparr>fromServer := [1], serverGone := True\<rparr>"
  let ?s2 = "?s1\<lparr>fromServer := [], received := [1]\<rparr>"
  let ?s3 = "?s2\<lparr>outboundOn := False\<rparr>"
  have "env_step True mysql_answer demo_server demo_begun ?s1"
    by (rule env_step.server_leaves [of _ _ "[2]"]) (simp_all add: demo_begun_def begin_service_def)
  note r1 = run_service.outside [OF demo_begun_run this]
  have "serve_step ?s1 (?s1\<lparr>fromServer := [], received := received ?s1 @ [1]\<rparr>)"
    by (rule serve_step.copy) (simp_all add: demo_begun_def begin_service_def buffSize_def)
  then have "serve_step ?s1 ?s2" by (simp add: demo_begun_def begin_service_def)
  note r2 = run_service.inside [OF r1 this]
  have "serve_step ?s2 ?s3" by (rule serve_step.outbound_ends) (simp_all add: demo_begun_def begin_service_def)
  note r3 = run_service.inside [OF r2 this]
  have f: "\<not> outboundOn ?s3" "\<not> clientGone ?s3" "inboundAt ?s3 = Reading" "received ?s3 \<noteq> due ?s3"
    by (simp_all add: demo_begun_def begin_service_def)
  from half_open_session_waits [OF r3 f] r3 show ?thesis
    by (intro exI [of _ ?s3]) (simp add: demo_begun_def begin_service_def)
qed

text \<open>
  Without that patience replies change places: of two messages sent at once, one for the main server and one for
  a replica, the client can be given the replica's reply first.
\<close>

theorem pipelined_replies_swap:
  assumes "answer intn m1 p = Passed p1" and "server \<sigma> m1 = (r, \<sigma>1)" and "answer intn m2 p1 = Delegated w p2"
    and "m1 \<noteq> []" and "m2 \<noteq> []" and "length m1 \<le> buffSize" and "length m2 \<le> buffSize" and "w \<noteq> []"
  shows "\<exists>s. run_service False answer server (begin_service p \<sigma> []) s \<and> asked s = [m1, m2] \<and> due s = r @ w \<and> received s = w"
proof -
  let ?run = "run_service False answer server (begin_service p \<sigma> [])"
  let ?s0 = "begin_service p \<sigma> []"
  let ?s1 = "?s0\<lparr>sess := p1, asked := [m1], passed := [m1], serverState := \<sigma>1, fromServer := r, due := r\<rparr>"
  let ?s2 = "?s1\<lparr>sess := p2, asked := [m1, m2], inboundAt := Writing w Continues, due := r @ w\<rparr>"
  have "sends False m1 ?s0" using assms(4,6) by (simp add: sends_def begin_service_def)
  then have "env_step False answer server ?s0 ?s1"
    using env_step.passes [of False m1 ?s0 answer intn p1 server r \<sigma>1] assms(1,2) by (simp add: begin_service_def)
  note r1 = run_service.outside [OF run_service.start this]
  have "sends False m2 ?s1" using assms(5,7) by (simp add: sends_def begin_service_def)
  then have "env_step False answer server ?s1 ?s2"
    using env_step.delegates [of False m2 ?s1 answer intn w p2 server] assms(3) by (simp add: begin_service_def)
  note r2 = run_service.outside [OF r1 this]
  have "serve_step ?s2 (?s2\<lparr>inboundAt := Writing [] Continues, received := received ?s2 @ w\<rparr>)"
    by (rule serve_step.reply [of _ w]) (simp_all add: begin_service_def assms(8))
  note r3 = run_service.inside [OF r2 this]
  then show ?thesis by (intro exI conjI) (assumption, simp_all add: begin_service_def)
qed

end
