(* ===== verification/Startup.thy ===== *)
theory Startup
  imports Service
begin

text \<open>
  The start and the end of the process (\<open>main.go\<close>, \<open>StartMysql\<close> and \<open>StartPostgres\<close>, the types of
  \<open>config/config.go\<close>): the proxies of the configuration are started, the sessions of a listener share the
  pools of its replicas, and a signal closes the pools the globals name.  Addresses, listeners, the file and
  its decoder are arguments.
\<close>

section \<open>The configuration\<close>

record proxyConf =
  pName :: bytes
  pProxyAddr :: bytes
  pMainAddr :: bytes
  pSecondaries :: "secondary list"

record proxies =
  postgresProxies :: "proxyConf list"
  mysqlProxies :: "proxyConf list"

definition ReadConfig :: "(bytes \<Rightarrow> error + bytes) \<Rightarrow> (bytes \<Rightarrow> error + proxies) \<Rightarrow> bytes \<Rightarrow> error + proxies" where
  "ReadConfig readFile unmarshal name = onOk (readFile name) (\<lambda>content. onOk (unmarshal content) Inr)"

section \<open>The process\<close>

text \<open>
  What a proxy listens with.  The pools of all replicas are cells of \<open>cells\<close>, to which \<open>mysqlDBs\<close>, the listeners and
  their sessions refer by number, as the code does by pointer.
\<close>

record 'd listener =
  lAddr :: bytes
  lMain :: bytes
  lDbs :: "'d weighted list"
  lTotal :: int

record 'h process =
  cells :: "conn pool list"
  mysqlDBs :: "nat weighted list"
  postgresDBs :: "'h pgdb weighted list"
  mysqlListeners :: "nat listener list"
  postgresListeners :: "'h pgdb listener list"
  pworld :: mworld
  closedHandles :: "'h list"

text \<open>A failure ends the process: \<open>log.Fatalln\<close> or a panic.\<close>

datatype failure = Fatal error | GoPanic | BadConfig error

definition share :: "nat \<Rightarrow> ('k \<times> conn pool) weighted list \<Rightarrow> nat weighted list" where
  "share n ds = map (\<lambda>(i, d). \<lparr>wName = wName d, wDb = i, wWeight = wWeight d\<rparr>) (zip [n..<n + length ds] ds)"

text \<open>The addresses and the listener, before anything else.\<close>

definition bind_addresses :: "(bytes \<Rightarrow> error + bytes) \<Rightarrow> (bytes \<Rightarrow> error option) \<Rightarrow> proxyConf \<Rightarrow> failure + bytes \<times> bytes" where
  "bind_addresses resolve listen conf =
     (case resolve (pProxyAddr conf) of
        Inl e \<Rightarrow> Inl (Fatal e)
      | Inr la \<Rightarrow>
          (case resolve (pMainAddr conf) of
             Inl e \<Rightarrow> Inl (Fatal e)
           | Inr ra \<Rightarrow>
               (case listen la of Some e \<Rightarrow> Inl (Fatal e) | None \<Rightarrow> Inr (la, ra))))"

definition StartMysql :: "(bytes \<Rightarrow> error + bytes) \<Rightarrow> (bytes \<Rightarrow> error option) \<Rightarrow> (bytes \<Rightarrow> error + 'k) \<Rightarrow> proxyConf \<Rightarrow>
    'h process \<Rightarrow> failure + 'h process" where
  "StartMysql resolve listen createConnector conf pr =
     onOk (bind_addresses resolve listen conf) (\<lambda>(la, ra).
       case initMysqlDB createConnector (pSecondaries conf) [] 0 of
         None \<Rightarrow> Inl GoPanic
       | Some (ds, tot) \<Rightarrow>
           if length ds < 1 then Inr pr
           else let shared = share (length (cells pr)) ds
                in Inr (pr\<lparr>cells := cells pr @ map (\<lambda>d. snd (wDb d)) ds, mysqlDBs := shared,
                     mysqlListeners := mysqlListeners pr @ [\<lparr>lAddr = la, lMain = ra, lDbs = shared, lTotal = tot\<rparr>]\<rparr>))"

definition StartPostgres :: "(bytes \<Rightarrow> error + bytes) \<Rightarrow> (bytes \<Rightarrow> error option) \<Rightarrow> (bytes \<Rightarrow> error + 'h) \<Rightarrow> proxyConf \<Rightarrow>
    'h process \<Rightarrow> failure + 'h process" where
  "StartPostgres resolve listen openDB conf pr =
     onOk (bind_addresses resolve listen conf) (\<lambda>(la, ra).
       case initDB openDB (pSecondaries conf) [] 0 of (ds, tot) \<Rightarrow>
         if length ds < 1 then Inr pr
         else Inr (pr\<lparr>postgresDBs := ds,
                postgresListeners := postgresListeners pr @ [\<lparr>lAddr = la, lMain = ra, lDbs = ds, lTotal = tot\<rparr>]\<rparr>))"

section \<open>A connection of a client\<close>

text \<open>
  The body of the accept loop and the first lines of \<open>service\<close>: \<open>accepted\<close> is the result of \<open>AcceptTCP\<close>, \<open>dialled\<close> that
  of the connection to the main server, which has a state and a greeting.
\<close>

datatype 's arrival = NotAccepted | ClosedAtOnce | Serving 's

definition newMysqlProxy :: "nat listener \<Rightarrow> 'h process \<Rightarrow> session" where
  "newMysqlProxy l pr = \<lparr>pools = cells pr, dbs = lDbs l, totalWeight = lTotal l, inTrans = False, toClient = [],
     toMain = [], mainErr = None, mworld = pworld pr\<rparr>"

definition accept_mysql :: "error option \<Rightarrow> error + 'm \<times> bytes \<Rightarrow> nat listener \<Rightarrow> 'h process \<Rightarrow> (session, 'm) service arrival" where
  "accept_mysql accepted dialled l pr =
     (case accepted of
        Some e \<Rightarrow> NotAccepted
      | None \<Rightarrow> (case dialled of
          Inl e \<Rightarrow> ClosedAtOnce
        | Inr (\<sigma>, greeting) \<Rightarrow> Serving (begin_service (newMysqlProxy l pr) \<sigma> greeting)))"

definition newPostgresProxy :: "'h pgdb listener \<Rightarrow> client \<Rightarrow> 'w \<Rightarrow> ('h, 'w) pgsession" where
  "newPostgresProxy l c w = \<lparr>pgDbs = lDbs l, pgTotal = lTotal l, pgInTrans = False, pgClient = c, pgMain = [],
     pgMainErr = None, pgWorld = w\<rparr>"

definition accept_postgres :: "error option \<Rightarrow> error + 'm \<times> bytes \<Rightarrow> 'h pgdb listener \<Rightarrow> client \<Rightarrow> 'w \<Rightarrow>
    (('h, 'w) pgsession, 'm) service arrival" where
  "accept_postgres accepted dialled l c w =
     (case accepted of
        Some e \<Rightarrow> NotAccepted
      | None \<Rightarrow> (case dialled of
          Inl e \<Rightarrow> ClosedAtOnce
        | Inr (\<sigma>, greeting) \<Rightarrow> Serving (begin_service (newPostgresProxy l c w) \<sigma> greeting)))"

section \<open>The process from start to end\<close>

text \<open>
  The goroutines of \<open>main\<close> start the proxies in any order: \<open>order\<close> is the one they take, with the PostgreSQL
  proxies on the left.
\<close>

fun start_all :: "(proxyConf \<Rightarrow> 'h process \<Rightarrow> failure + 'h process) \<Rightarrow> (proxyConf \<Rightarrow> 'h process \<Rightarrow> failure + 'h process) \<Rightarrow>
    (proxyConf + proxyConf) list \<Rightarrow> 'h process \<Rightarrow> failure + 'h process" where
  "start_all pg my [] pr = Inr pr"
| "start_all pg my (Inl c # order) pr = onOk (pg c pr) (start_all pg my order)"
| "start_all pg my (Inr c # order) pr = onOk (my c pr) (start_all pg my order)"

text \<open>\<open>None\<close>: there is nothing to start, and \<open>main\<close> returns.\<close>

definition go_main :: "(bytes \<Rightarrow> error + proxies) \<Rightarrow> (proxyConf \<Rightarrow> 'h process \<Rightarrow> failure + 'h process) \<Rightarrow>
    (proxyConf \<Rightarrow> 'h process \<Rightarrow> failure + 'h process) \<Rightarrow> (proxies \<Rightarrow> (proxyConf + proxyConf) list) \<Rightarrow>
    bytes \<Rightarrow> 'h process \<Rightarrow> (failure + 'h process) option" where
  "go_main read pg my schedule file pr =
     (case read file of
        Inl e \<Rightarrow> Some (Inl (BadConfig e))
      | Inr conf \<Rightarrow>
          if length (postgresProxies conf) > 0 \<or> length (mysqlProxies conf) > 0
          then Some (start_all pg my (schedule conf) pr) else None)"

text \<open>The goroutine that waits for a signal, up to its \<open>os.Exit\<close>.\<close>

definition close_cell :: "nat weighted \<Rightarrow> 'h process \<Rightarrow> 'h process" where
  "close_cell d pr = (case poolClose mshut (cells pr ! wDb d) (pworld pr) of
     (p, w) \<Rightarrow> pr\<lparr>cells := (cells pr)[wDb d := p], pworld := w\<rparr>)"

definition on_signal :: "'h process \<Rightarrow> 'h process" where
  "on_signal pr =
     fold close_cell (mysqlDBs pr)
       (pr\<lparr>closedHandles := closedHandles pr @ map (\<lambda>d. handle (wDb d)) (postgresDBs pr)\<rparr>)"

section \<open>What a started proxy serves with\<close>

lemma share_props: "length (share n ds) = length ds" "map wDb (share n ds) = [n..<n + length ds]"
  "map wWeight (share n ds) = map wWeight ds"
  by (simp_all add: share_def) (auto intro!: nth_equalityI)

lemma share_own: "d \<in> set (share n ds) \<Longrightarrow> n \<le> wDb d \<and> wDb d < n + length ds"
  using share_props(2) [of n ds] by (metis atLeastLessThan_iff imageI list.set_map set_upt)

text \<open>Either no replica is left, or there is one more listener, with pools of its own.\<close>

lemma mysql_started:
  fixes cc :: "bytes \<Rightarrow> error + 'k"
  assumes "StartMysql resolve listen cc conf pr = Inr pr'"
  obtains "pr' = pr"
  | ds tot la ra where "initMysqlDB cc (pSecondaries conf) [] 0 = Some (ds, tot)" and "ds \<noteq> []"
    and "pr' = pr\<lparr>cells := cells pr @ map (\<lambda>d. snd (wDb d)) ds, mysqlDBs := share (length (cells pr)) ds,
       mysqlListeners := mysqlListeners pr @ [\<lparr>lAddr = la, lMain = ra, lDbs = share (length (cells pr)) ds, lTotal = tot\<rparr>]\<rparr>"
proof -
  obtain la ra where a: "bind_addresses resolve listen conf = Inr (la, ra)"
    using assms by (auto simp: StartMysql_def onOk_Inr_iff)
  obtain ds :: "('k \<times> conn pool) weighted list" and tot where d: "initMysqlDB cc (pSecondaries conf) [] 0 = Some (ds, tot)"
    using assms by (auto simp: StartMysql_def a split: option.splits)
  show thesis
  proof (cases "ds = []")
    case True
    then show thesis using assms a d that(1) by (simp add: StartMysql_def)
  next
    case False
    show thesis by (rule that(2) [OF d False, of la ra]) (use assms a d False in \<open>simp add: StartMysql_def Let_def\<close>)
  qed
qed

lemma kept_weights:
  assumes "initMysqlDB cc ss [] 0 = Some (ds :: ('k \<times> conn pool) weighted list, tot)" and "ds \<noteq> []"
    and "sum_list (map sWeight (filter (active cc) ss)) < 2 ^ 63"
  shows "weights_ok (share n ds) tot"
proof -
  let ?kept = "filter (active cc) ss"
  have w: "map wWeight ds = map sWeight ?kept" "tot = sum_list (map sWeight ?kept)"
    using initMysqlDB_result [of 0 cc ss "[] :: ('k \<times> conn pool) weighted list"] assms(1,3) by auto
  have "\<forall>x \<in> set (map wWeight (share n ds)). 0 < x" unfolding share_props(3) w(1) by (auto simp: active_def)
  then have "list_all (\<lambda>d. 0 < wWeight d) (share n ds)" by (simp add: list_all_iff)
  moreover have "share n ds \<noteq> []" using assms(2) share_props(1) [of n ds] by auto
  ultimately show ?thesis using assms(3) w share_props(3) [of n ds] by (simp add: weights_ok_def)
qed

section \<open>Closing\<close>

lemma close_cell_props: "cells (close_cell d pr) = (cells pr)[wDb d := fst (poolClose mshut (cells pr ! wDb d) (pworld pr))]"
  by (simp add: close_cell_def case_prod_unfold)

lemma poolClose_closed: "Pool.closed (fst (poolClose shut p w))"
  by (simp add: poolClose_def case_prod_unfold Let_def)

lemma close_cells_length: "length (cells (fold close_cell ds pr)) = length (cells pr)"
  by (induction ds arbitrary: pr) (simp_all add: close_cell_props)

lemma close_cells_other:
  "i \<notin> wDb ` set ds \<Longrightarrow> cells (fold close_cell ds pr) ! i = cells pr ! i"
  by (induction ds arbitrary: pr) (simp_all add: close_cell_props)

lemma close_cells_stay: "i < length (cells pr) \<Longrightarrow> Pool.closed (cells pr ! i) \<Longrightarrow> Pool.closed (cells (fold close_cell ds pr) ! i)"
proof (induction ds arbitrary: pr)
  case (Cons d ds)
  have "Pool.closed (cells (close_cell d pr) ! i)"
    using Cons.prems by (cases "wDb d = i") (simp_all add: close_cell_props poolClose_closed)
  with Cons.IH [of "close_cell d pr"] Cons.prems(1) show ?case by (simp add: close_cell_props)
qed simp

lemma close_cells_closed:
  "d \<in> set ds \<Longrightarrow> wDb d < length (cells pr) \<Longrightarrow> Pool.closed (cells (fold close_cell ds pr) ! wDb d)"
proof (induction ds arbitrary: pr)
  case (Cons e ds)
  have l: "wDb d < length (cells (close_cell e pr))" using Cons.prems(2) by (simp add: close_cell_props)
  show ?case
  proof (cases "d = e")
    case True
    then have "Pool.closed (cells (close_cell e pr) ! wDb d)"
      using Cons.prems(2) by (simp add: close_cell_props poolClose_closed)
    with close_cells_stay [OF l] show ?thesis by simp
  next
    case False
    with Cons.IH [OF _ l] Cons.prems(1) show ?thesis by simp
  qed
qed simp

lemma on_signal_cells: "cells (on_signal pr) = cells (fold close_cell (mysqlDBs pr) pr)"
proof -
  have "cells (fold close_cell ds (pr\<lparr>closedHandles := hs\<rparr>)) = cells (fold close_cell ds pr)" for ds hs
  proof (induction ds arbitrary: pr)
    case (Cons d ds)
    have "close_cell d (pr\<lparr>closedHandles := hs\<rparr>) = (close_cell d pr)\<lparr>closedHandles := hs\<rparr>"
      by (simp add: close_cell_def case_prod_unfold)
    then show ?case using Cons.IH [of "close_cell d pr"] by simp
  qed simp
  then show ?thesis by (simp add: on_signal_def)
qed

section \<open>Properties\<close>

text \<open>
  C10: A MySQL proxy that listens gives each of its sessions replicas to choose from: whatever the random
  number, the choice is one of the pools made for this proxy, and the session starts outside a transaction.
\<close>

theorem session_choice_sound:
  assumes "StartMysql resolve listen cc conf pr = Inr pr'" and "mysqlListeners pr' = mysqlListeners pr @ [l]"
    and "sum_list (map sWeight (filter (active cc) (pSecondaries conf))) < 2 ^ 63"
    and "accept_mysql accepted dialled l pr' = Serving s"
    and "0 \<le> intn (totalWeight (sess s))" and "intn (totalWeight (sess s)) < totalWeight (sess s)"
  shows "\<exists>h. chooseByWeight intn (totalWeight (sess s)) (dbs (sess s)) = Some h \<and>
    length (cells pr) \<le> h \<and> h < length (pools (sess s)) \<and> \<not> inTrans (sess s)"
  using assms(1)
proof (cases rule: mysql_started)
  case 1
  then show ?thesis using assms(2) by simp
next
  case (2 ds tot la ra)
  have s: "sess s = newMysqlProxy l pr'"
    using assms(4) by (auto simp: accept_mysql_def begin_service_def split: option.splits sum.splits)
  then have f: "dbs (sess s) = share (length (cells pr)) ds" "totalWeight (sess s) = tot"
    "length (pools (sess s)) = length (cells pr) + length ds" "\<not> inTrans (sess s)"
    using 2(3) assms(2) by (auto simp: newMysqlProxy_def)
  from my_choice.never_panics [OF kept_weights [OF 2(1,2) assms(3)], of intn] assms(5,6)
  obtain d where "d \<in> set (dbs (sess s))" "chooseByWeight intn (totalWeight (sess s)) (dbs (sess s)) = Some (wDb d)"
    unfolding f by blast
  then show ?thesis using share_own [of d "length (cells pr)" ds] f by auto
qed

definition demo_process :: "nat process" where
  "demo_process = \<lparr>cells = [], mysqlDBs = [], postgresDBs = [], mysqlListeners = [], postgresListeners = [],
     pworld = \<lparr>connects = [], shutConns = []\<rparr>, closedHandles = []\<rparr>"

definition demo_conf :: proxyConf where
  "demo_conf = \<lparr>pName = [], pProxyAddr = str '':4000'', pMainAddr = str ''db:3306'', pSecondaries = [demo_secondary]\<rparr>"

definition demo_start :: "nat process \<Rightarrow> failure + nat process" where
  "demo_start = StartMysql Inr (\<lambda>_. None) (\<lambda>d. Inr d) demo_conf"

lemma demo_conf_weights: "sum_list (map sWeight (filter (active (\<lambda>d. Inr d)) (pSecondaries demo_conf))) < 2 ^ 63"
  by (simp add: demo_conf_def active_def demo_secondary_def)

lemma demo_started: "\<exists>p. demo_start pr = Inr (pr\<lparr>cells := cells pr @ [p],
    mysqlDBs := [\<lparr>wName = str ''r'', wDb = length (cells pr), wWeight = 3\<rparr>],
    mysqlListeners := mysqlListeners pr @ [\<lparr>lAddr = str '':4000'', lMain = str ''db:3306'',
      lDbs = [\<lparr>wName = str ''r'', wDb = length (cells pr), wWeight = 3\<rparr>], lTotal = 3\<rparr>]\<rparr>)"
proof -
  obtain p :: "conn pool" where "NewConnectionPool 1 10 (nanoseconds 60) = Some p"
    using make_pool [of 10 1 "nanoseconds 60"] by auto
  then show ?thesis
    by (intro exI [of _ p]) (simp add: demo_start_def StartMysql_def bind_addresses_def demo_conf_def demo_secondary_def share_def Let_def)
qed

theorem session_choice_sound_witness:
  "\<exists>pr s. demo_start demo_process = Inr pr \<and> accept_mysql None (Inr ((), [])) (hd (mysqlListeners pr)) pr = Serving s \<and>
     chooseByWeight (\<lambda>_. 2) (totalWeight (sess s)) (dbs (sess s)) = Some 0"
proof -
  obtain p where d: "demo_start demo_process = Inr (demo_process\<lparr>cells := [p],
      mysqlDBs := [\<lparr>wName = str ''r'', wDb = 0, wWeight = 3\<rparr>],
      mysqlListeners := [\<lparr>lAddr = str '':4000'', lMain = str ''db:3306'',
        lDbs = [\<lparr>wName = str ''r'', wDb = 0, wWeight = 3\<rparr>], lTotal = 3\<rparr>]\<rparr>)" (is "_ = Inr ?pr")
    using demo_started [of demo_process] by (auto simp: demo_process_def)
  let ?l = "hd (mysqlListeners ?pr)"
  let ?s = "begin_service (newMysqlProxy ?l ?pr) () []"
  have a: "accept_mysql None (Inr ((), [])) ?l ?pr = Serving ?s" by (simp add: accept_mysql_def)
  have t: "totalWeight (sess ?s) = 3" "length (pools (sess ?s)) = 1" by (simp_all add: begin_service_def newMysqlProxy_def)
  have "mysqlListeners ?pr = mysqlListeners demo_process @ [?l]" by (simp add: demo_process_def)
  from session_choice_sound [OF d [unfolded demo_start_def] this demo_conf_weights a, of "\<lambda>_. 2"] t
  have "chooseByWeight (\<lambda>_. 2) (totalWeight (sess ?s)) (dbs (sess ?s)) = Some 0" by (auto simp: demo_process_def)
  with d a show ?thesis by blast
qed

text \<open>
  When several MySQL proxies listen, a signal closes the pools of the one that was started last only:
  every start overwrites the global \<open>MysqlDBs\<close>, so the pools of the others are left as they are.
\<close>

theorem signal_closes_last_proxy_only:
  assumes "StartMysql resolve listen cc conf pr = Inr pr'" and "mysqlListeners pr' \<noteq> mysqlListeners pr"
  shows "(\<forall>i < length (cells pr). cells (on_signal pr') ! i = cells pr ! i) \<and>
    (\<forall>i < length (cells pr'). length (cells pr) \<le> i \<longrightarrow> Pool.closed (cells (on_signal pr') ! i))"
  using assms(1)
proof (cases rule: mysql_started)
  case 1
  then show ?thesis using assms(2) by simp
next
  case (2 ds tot la ra)
  have own: "wDb ` set (mysqlDBs pr') = {length (cells pr)..<length (cells pr')}"
    using 2(3) arg_cong [OF share_props(2) [of "length (cells pr)" ds], of set] by simp
  have "Pool.closed (cells (on_signal pr') ! i)" if "i < length (cells pr')" "length (cells pr) \<le> i" for i
  proof -
    have "i \<in> wDb ` set (mysqlDBs pr')" using that own by simp
    then show ?thesis using close_cells_closed that(1) by (auto simp: on_signal_cells)
  qed
  moreover have "cells (on_signal pr') ! i = cells pr ! i" if "i < length (cells pr)" for i
    using close_cells_other [of i "mysqlDBs pr'" pr'] that own 2(3) by (simp add: on_signal_cells nth_append)
  ultimately show ?thesis by blast
qed

theorem signal_closes_last_proxy_only_witness:
  "\<exists>pr1 pr2. demo_start demo_process = Inr pr1 \<and> demo_start pr1 = Inr pr2 \<and>
     cells (on_signal pr2) ! 0 = cells pr1 ! 0 \<and> Pool.closed (cells (on_signal pr2) ! 1)"
proof -
  obtain pr1 where 1: "demo_start demo_process = Inr pr1" "length (cells pr1) = 1"
    using demo_started [of demo_process] by (auto simp: demo_process_def)
  obtain pr2 where 2: "demo_start pr1 = Inr pr2" "length (cells pr2) = 2" "mysqlListeners pr2 \<noteq> mysqlListeners pr1"
    using demo_started [of pr1] 1(2) by auto
  from signal_closes_last_proxy_only [OF 2(1) [unfolded demo_start_def] 2(3)] 1 2 show ?thesis by auto
qed

end
