(* ===== verification/Liveness.thy ===== *)
theory Liveness
  imports Frames
begin

text \<open>
  The check of a pooled connection before it is used again (\<open>connCheck\<close> in \<open>mysql/conncheck.go\<close>,
  \<open>conncheck_windows.go\<close> and \<open>conncheck_dummy.go\<close>), and the flag of \<open>mysql/atomic_bool_go118.go\<close>.  The outcomes of the
  system calls are arguments.
\<close>

section \<open>The check\<close>

definition errUnexpectedRead :: error where
  "errUnexpectedRead = FmtError ''unexpected read from socket''"

text \<open>
  A connection that may have a descriptor, the errors of \<open>SyscallConn\<close> and of the raw \<open>Read\<close>, and what the system
  call on one byte returns.
\<close>

record rawConn =
  isSyscallConn :: bool
  syscallConnErr :: "error option"
  rawReadErr :: "error option"
  probe :: "int \<times> error option"

definition probed :: "(error \<Rightarrow> bool) \<Rightarrow> int \<times> error option \<Rightarrow> error option" where
  "probed wouldBlock r =
     (case r of (n, err) \<Rightarrow>
        if n = 0 \<and> err = None then Some IoEOF
        else if 0 < n then Some errUnexpectedRead
        else case err of
          Some e \<Rightarrow> if wouldBlock e then None else Some e
        | None \<Rightarrow> None)"

definition connCheck :: "(error \<Rightarrow> bool) \<Rightarrow> rawConn \<Rightarrow> error option" where
  "connCheck wouldBlock c =
     (if \<not> isSyscallConn c then None
      else case syscallConnErr c of
        Some e \<Rightarrow> Some e
      | None \<Rightarrow> (case rawReadErr c of
          Some e \<Rightarrow> Some e
        | None \<Rightarrow> probed wouldBlock (probe c)))"

text \<open>Windows: the same with its own codes.  Elsewhere nothing is checked.\<close>

definition connCheck_windows :: "(error \<Rightarrow> bool) \<Rightarrow> rawConn \<Rightarrow> error option" where
  "connCheck_windows wouldBlock c =
     (if \<not> isSyscallConn c then None
      else case syscallConnErr c of
        Some e \<Rightarrow> Some e
      | None \<Rightarrow> (case rawReadErr c of
          Some e \<Rightarrow> Some e
        | None \<Rightarrow> probed wouldBlock (probe c)))"

definition connCheck_dummy :: "rawConn \<Rightarrow> error option" where
  "connCheck_dummy c = None"

text \<open>With a descriptor only a read that would block lets the connection pass.\<close>

lemma connCheck_passes:
  assumes "isSyscallConn c" and "syscallConnErr c = None" and "rawReadErr c = None"
    and "0 \<le> fst (probe c) \<longleftrightarrow> snd (probe c) = None"
  shows "connCheck wouldBlock c = None \<longleftrightarrow> (\<exists>e. snd (probe c) = Some e \<and> wouldBlock e)"
  using assms by (cases "probe c") (auto simp: connCheck_def probed_def split: option.splits)

section \<open>The flag\<close>

text \<open>The \<open>atomicBool\<close> of older versions of Go: a number that is read as a boolean.\<close>

definition ab_Load :: "u32 \<Rightarrow> bool" where
  "ab_Load value = (0 < value)"

definition ab_Store :: "bool \<Rightarrow> u32 \<Rightarrow> u32" where
  "ab_Store b value = (if b then 1 else 0)"

definition ab_Swap :: "bool \<Rightarrow> u32 \<Rightarrow> bool \<times> u32" where
  "ab_Swap b value = (0 < value, ab_Store b value)"

lemma atomic_bool_refines: "ab_Load (ab_Store b value) = b" "map_prod id ab_Load (ab_Swap b value) = (ab_Load value, b)"
  by (simp_all add: ab_Load_def ab_Store_def ab_Swap_def)

section \<open>Properties\<close>

text \<open>
  C38: A connection that went stale in a pool is not used when the pool resets it and the check of its liveness is
  on, as it is by default: if the server has closed it or has sent something unasked, the first packet after
  \<open>ResetSession\<close> is not sent, the connection is closed and the caller is told to take another one.
\<close>

theorem stale_connection_refused:
  assumes "writable mc" and "idle mc" and "\<not> closed mc" and "netConn mc" and "1 \<le> maxAllowedPacket mc"
    and "checkConnLiveness (cfg mc)" and "int (sref_len r - 4) \<le> maxAllowedPacket mc"
    and "checkErr mc = connCheck wouldBlock c" and "isSyscallConn c" and "probe c = (n, None)" and "0 \<le> n"
  shows "\<exists>mc1 mc2. ResetSession mc = (None, mc1) \<and> writePacket r mc1 = Some (Some DriverErrBadConn, mc2) \<and>
    closed mc2 \<and> netClosed mc2 \<and> sent mc2 = sent mc @ [1, 0, 0, 0, comQuit]"
proof -
  let ?m = "mc\<lparr>creset := False\<rparr>"
  have m: "writable ?m" "idle ?m" "\<not> creset ?m" "1 \<le> maxAllowedPacket ?m"
    using assms(1,2,5) by (simp_all add: writable_def idle_def)
  obtain b where b: "writeCommandPacket comQuit ?m =
      Some (None, ?m\<lparr>cbuf := b, sent := sent ?m @ [1, 0, 0, 0, comQuit], sequence := 1\<rparr>)"
    using writeCommandPacket_frames [OF m, of comQuit] by auto
  let ?mc1 = "?m\<lparr>cbuf := b, sent := sent mc @ [1, 0, 0, 0, comQuit], sequence := 1\<rparr>"
  have "Close ?m = Some (None, cleanup ?mc1)" using b assms(3) by (simp add: Close_def)
  then have c: "close_unmarked ?m = Some (None, cleanup ?mc1)" using close_unmarked [OF m(3)] by simp
  have "checkErr mc \<noteq> None"
    using assms(8-11) by (cases "n = 0") (auto simp: connCheck_def probed_def split: option.splits)
  then have "writePacket r (mc\<lparr>creset := True\<rparr>) = Some (Some DriverErrBadConn, cleanup ?mc1)"
    using assms(6,7) c by (simp add: writePacket_def Let_def)
  moreover have "ResetSession mc = (None, mc\<lparr>creset := True\<rparr>)" using assms(3) by (simp add: ResetSession_def)
  ultimately show ?thesis
    using cleanup_network [of ?mc1] assms(3,4) by (intro exI conjI) (assumption, assumption, simp_all add: cleanup_closed)
qed

definition demo_stale :: conn where
  "demo_stale = (fresh_conn [])\<lparr>cfg := (cfg (fresh_conn []))\<lparr>checkConnLiveness := True\<rparr>, checkErr := Some IoEOF\<rparr>"

theorem stale_connection_refused_witness:
  "\<exists>mc1 mc2. ResetSession demo_stale = (None, mc1) \<and> writePacket (0, 0, 5) mc1 = Some (Some DriverErrBadConn, mc2) \<and>
     closed mc2"
proof -
  let ?c = "\<lparr>isSyscallConn = True, syscallConnErr = None, rawReadErr = None, probe = (0, None)\<rparr>"
  have f: "writable demo_stale" "idle demo_stale"
    using fresh_conn(1,2) [of "[]"] by (simp_all add: demo_stale_def writable_def idle_def)
  have g: "\<not> closed demo_stale" "netConn demo_stale" "1 \<le> maxAllowedPacket demo_stale" "checkConnLiveness (cfg demo_stale)"
    "int (sref_len (0, 0, 5) - 4) \<le> maxAllowedPacket demo_stale" "checkErr demo_stale = connCheck (\<lambda>_. False) ?c"
    by (simp_all add: demo_stale_def fresh_conn_def sref_len_def connCheck_def probed_def)
  from stale_connection_refused [OF f g] show ?thesis by force
qed

text \<open>
  The pool of the proxy never calls \<open>ResetSession\<close>, so the check does not happen there: a query is written to a
  connection that is not marked, whatever the check would say.
\<close>

theorem unmarked_connection_unchecked:
  assumes "writable mc" and "idle mc" and "\<not> creset mc" and "int (1 + length q) \<le> maxAllowedPacket mc"
  shows "\<exists>mc'. writeCommandPacketStr comQuery q (mc\<lparr>checkErr := e\<rparr>) = Some (None, mc') \<and>
    sent mc' = sent mc @ frames 0 (comQuery # q)"
proof -
  have m: "writable (mc\<lparr>checkErr := e\<rparr>)" "idle (mc\<lparr>checkErr := e\<rparr>)" "\<not> creset (mc\<lparr>checkErr := e\<rparr>)"
    "int (1 + length q) \<le> maxAllowedPacket (mc\<lparr>checkErr := e\<rparr>)"
    using assms by (simp_all add: writable_def idle_def)
  from command_frames [OF m, of comQuery] show ?thesis by auto
qed

end
