(* ===== verification/Sharing.thy ===== *)
theory Sharing
  imports Session
begin

text \<open>
  The sessions of one MySQL listener share the pools of its replicas.  \<open>delegateSelect\<close> of
  \<open>proxy/mysql.go\<close> is taken apart at \<open>Get\<close> and \<open>Put\<close> of \<open>pool/connectionPool.go\<close>, so that any number of clients, the
  reapers and callers of \<open>Close\<close> interleave between them.  A connection is a cell that pools and clients refer to by
  its address, as the code does by \<open>*MysqlConn\<close>: that nobody uses another's connection is proved, not built in.
\<close>

section \<open>Connections by address\<close>

record cworld =
  cells :: "conn list"
  dialled :: mworld

record shared =
  shPools :: "nat pool list"
  shWorld :: cworld

text \<open>\<open>Connect\<close> allocates a connection; \<open>Close\<close> of one shuts it.\<close>

definition cell_connect :: "cworld \<Rightarrow> (error + nat) \<times> cworld" where
  "cell_connect w =
     (case mconnect (dialled w) of
        (Inl e, d) \<Rightarrow> (Inl e, w\<lparr>dialled := d\<rparr>)
      | (Inr c, d) \<Rightarrow> (Inr (length (cells w)), \<lparr>cells = cells w @ [c], dialled = d\<rparr>))"

definition cell_shut :: "nat \<Rightarrow> cworld \<Rightarrow> cworld" where
  "cell_shut a w = w\<lparr>dialled := mshut (cells w ! a) (dialled w)\<rparr>"

definition cell_at :: "shared \<Rightarrow> nat \<Rightarrow> conn" where
  "cell_at sh a = cells (shWorld sh) ! a"

definition set_cell :: "nat \<Rightarrow> conn \<Rightarrow> shared \<Rightarrow> shared" where
  "set_cell a c sh = sh\<lparr>shWorld := (shWorld sh)\<lparr>cells := (cells (shWorld sh))[a := c]\<rparr>\<rparr>"

section \<open>A SELECT in three parts\<close>

text \<open>The choice of a replica and \<open>Get\<close> on its pool; \<open>None\<close> is a panic of the choice.\<close>

definition take_conn :: "(int \<Rightarrow> int) \<Rightarrow> int \<Rightarrow> nat weighted list \<Rightarrow> shared \<Rightarrow> (nat \<times> (error + nat) \<times> shared) option" where
  "take_conn intn tot ds sh =
     (case chooseByWeight intn tot ds of
        None \<Rightarrow> None
      | Some db \<Rightarrow>
          (case poolGet cell_connect (shPools sh ! db) (shWorld sh) of
             (r, cp, w) \<Rightarrow> Some (db, r, \<lparr>shPools = (shPools sh)[db := cp], shWorld = w\<rparr>)))"

text \<open>\<open>writeDataRow\<close> on the connection.\<close>

definition query_on :: "bytes \<Rightarrow> nat \<Rightarrow> bytes \<Rightarrow> shared \<Rightarrow> (error option \<times> bytes \<times> shared) option option" where
  "query_on q a got sh =
     map_option (map_option (\<lambda>(e, c, out). (e, out, set_cell a c sh))) (writeDataRow q (cell_at sh a, got))"

text \<open>The deferred \<open>Put\<close>.\<close>

definition give_back :: "nat \<Rightarrow> nat \<Rightarrow> shared \<Rightarrow> shared" where
  "give_back db a sh =
     (case poolPut cell_shut a (shPools sh ! db) (shWorld sh) of
        (cp, w) \<Rightarrow> \<lparr>shPools = (shPools sh)[db := cp], shWorld = w\<rparr>)"

text \<open>The addresses idle in a pool.\<close>

definition stock :: "shared \<Rightarrow> nat \<Rightarrow> nat list" where
  "stock sh db = (if db < length (shPools sh) then queued (conns (shPools sh ! db)) else [])"

lemma stock_update: "stock \<lparr>shPools = (shPools sh)[db := cp], shWorld = w\<rparr> =
    (if db < length (shPools sh) then (stock sh)(db := queued (conns cp)) else stock sh)"
  by (auto simp: stock_def fun_eq_iff nth_list_update)

lemma set_cell_simps [simp]: "shPools (set_cell a c sh) = shPools sh" "stock (set_cell a c sh) = stock sh"
  "dialled (shWorld (set_cell a c sh)) = dialled (shWorld sh)" "cells (shWorld (set_cell a c sh)) = (cells (shWorld sh))[a := c]"
  by (simp_all add: set_cell_def stock_def fun_eq_iff)

lemma cell_at_set: "a < length (cells (shWorld sh)) \<Longrightarrow> cell_at (set_cell a c sh) b = (if b = a then c else cell_at sh b)"
  by (simp add: cell_at_def)

text \<open>What \<open>Get\<close> and \<open>Put\<close> can do.\<close>

lemma take_conn_cases:
  assumes "take_conn intn tot ds sh = Some (db, r, sh')"
  obtains (idle) a q where "r = Inr a" "chan_recv (conns (shPools sh ! db)) = Some (a, q)"
      "sh' = \<lparr>shPools = (shPools sh)[db := (shPools sh ! db)\<lparr>conns := q\<rparr>], shWorld = shWorld sh\<rparr>"
      "\<not> Pool.closed (shPools sh ! db)"
    | (dialled) c d where "r = Inr (length (cells (shWorld sh)))" "mconnect (dialled (shWorld sh)) = (Inr c, d)"
      "sh' = \<lparr>shPools = shPools sh, shWorld = \<lparr>cells = cells (shWorld sh) @ [c], dialled = d\<rparr>\<rparr>"
      "\<not> Pool.closed (shPools sh ! db)" "chan_recv (conns (shPools sh ! db)) = None"
    | (refused) e d where "r = Inl e" "mconnect (dialled (shWorld sh)) = (Inl e, d)"
      "sh' = \<lparr>shPools = shPools sh, shWorld = (shWorld sh)\<lparr>dialled := d\<rparr>\<rparr>"
      "\<not> Pool.closed (shPools sh ! db)" "chan_recv (conns (shPools sh ! db)) = None"
    | (shut) e where "r = Inl e" "sh' = sh" "Pool.closed (shPools sh ! db)" "e = FmtError ''connection pool is closed''"
proof -
  obtain cp w where t: "poolGet cell_connect (shPools sh ! db) (shWorld sh) = (r, cp, w)"
    "sh' = \<lparr>shPools = (shPools sh)[db := cp], shWorld = w\<rparr>"
    using assms by (auto simp: take_conn_def split: option.splits prod.splits)
  show thesis
  proof (cases "Pool.closed (shPools sh ! db)")
    case True
    with t show ?thesis by (intro shut) (auto simp: poolGet_def)
  next
    case open_pool: False
    show ?thesis
    proof (cases "chan_recv (conns (shPools sh ! db))")
      case None
      obtain x d where m: "mconnect (dialled (shWorld sh)) = (x, d)" by fastforce
      show ?thesis
      proof (cases x)
        case (Inl e)
        with t m None open_pool show ?thesis by (intro refused) (auto simp: poolGet_def cell_connect_def)
      next
        case (Inr c)
        with t m None open_pool show ?thesis by (intro dialled) (auto simp: poolGet_def cell_connect_def)
      qed
    next
      case (Some y)
      with t open_pool show ?thesis by (intro idle [of "fst y" "snd y"]) (auto simp: poolGet_def split: prod.splits)
    qed
  qed
qed

lemma give_back_cases:
  obtains (kept) q where "chan_send a (conns (shPools sh ! db)) = Some q" "\<not> Pool.closed (shPools sh ! db)"
      "give_back db a sh = \<lparr>shPools = (shPools sh)[db := (shPools sh ! db)\<lparr>conns := q\<rparr>], shWorld = shWorld sh\<rparr>"
    | (shut) "Pool.closed (shPools sh ! db) \<or> chan_send a (conns (shPools sh ! db)) = None"
      "give_back db a sh = \<lparr>shPools = shPools sh, shWorld = cell_shut a (shWorld sh)\<rparr>"
proof -
  obtain cp w where p: "poolPut cell_shut a (shPools sh ! db) (shWorld sh) = (cp, w)" by fastforce
  then have g: "give_back db a sh = \<lparr>shPools = (shPools sh)[db := cp], shWorld = w\<rparr>" by (simp add: give_back_def)
  show thesis
    using p g kept shut by (auto simp: poolPut_def split: if_splits option.splits)
qed

section \<open>The method on values\<close>

text \<open>
  \<open>delegateSelect\<close> in \<open>MysqlProxy\<close> has its pools hold connections, not addresses.  \<open>plain\<close> reads a shared state that way.
\<close>

definition deref :: "conn list \<Rightarrow> nat pool \<Rightarrow> conn pool" where
  "deref cs p = \<lparr>conns = \<lparr>queued = map ((!) cs) (queued (conns p)), ccap = ccap (conns p)\<rparr>, minConns = minConns p,
     maxConns = maxConns p, idleTimeout = idleTimeout p, closed = Pool.closed p\<rparr>"

definition plain :: "shared \<Rightarrow> session \<Rightarrow> session" where
  "plain sh p = p\<lparr>pools := map (deref (cells (shWorld sh))) (shPools sh), mworld := dialled (shWorld sh)\<rparr>"

text \<open>Each address is in one place only, and once.\<close>

definition exclusive :: "('p \<Rightarrow> nat list) \<Rightarrow> bool" where
  "exclusive st \<longleftrightarrow> (\<forall>p. distinct (st p)) \<and> (\<forall>p p' a. a \<in> set (st p) \<longrightarrow> a \<in> set (st p') \<longrightarrow> p = p')"

definition wf_shared :: "shared \<Rightarrow> bool" where
  "wf_shared sh \<longleftrightarrow> exclusive (stock sh) \<and> (\<forall>db. \<forall>a \<in> set (stock sh db). a < length (cells (shWorld sh)))"

lemma exclusive_shrink: "exclusive st \<Longrightarrow> (\<And>p. set (st' p) \<subseteq> set (st p) \<and> distinct (st' p)) \<Longrightarrow> exclusive st'"
  unfolding exclusive_def by blast

lemma exclusive_move:
  assumes "exclusive st" and "p \<noteq> p'" and "a \<in> set (st p)" and "distinct xs" and "set xs \<subseteq> set (st p) - {a}"
    and "distinct ys" and "set ys \<subseteq> insert a (set (st p'))"
  shows "exclusive (st(p := xs, p' := ys))"
proof -
  have home: "\<exists>o'. b \<in> set (st o') \<and> (if b = a then o' = p \<and> x = p' else o' = x)" if "b \<in> set ((st(p := xs, p' := ys)) x)" for b x
    using that assms by (auto split: if_splits simp: exclusive_def)
  show ?thesis
    unfolding exclusive_def
  proof (intro conjI allI impI)
    show "distinct ((st(p := xs, p' := ys)) x)" for x using assms by (simp add: exclusive_def)
    fix x y b
    assume "b \<in> set ((st(p := xs, p' := ys)) x)" "b \<in> set ((st(p := xs, p' := ys)) y)"
    then show "x = y" using home [of b x] home [of b y] assms(1) by (auto simp: exclusive_def split: if_splits)
  qed
qed

lemma exclusive_fresh:
  assumes "exclusive st" and "\<forall>p. a \<notin> set (st p)"
  shows "exclusive (st(p := [a]))"
  using assms by (auto simp: exclusive_def)

lemma deref_simps [simp]: "conns (deref cs p) = \<lparr>queued = map ((!) cs) (queued (conns p)), ccap = ccap (conns p)\<rparr>"
  "Pool.closed (deref cs p) = Pool.closed p"
  by (simp_all add: deref_def)

lemma deref_other:
  assumes "a \<notin> set (queued (conns p))"
  shows "deref (cs[a := c]) p = deref cs p"
proof -
  have "map ((!) (cs[a := c])) (queued (conns p)) = map ((!) cs) (queued (conns p))"
    by (rule map_cong [OF refl]) (use assms in \<open>auto intro!: nth_list_update_neq\<close>)
  then show ?thesis by (simp add: deref_def)
qed

lemma deref_more:
  assumes "\<forall>a \<in> set (queued (conns p)). a < length cs"
  shows "deref (cs @ [c]) p = deref cs p"
  using assms by (auto simp: deref_def nth_append)

lemma chosen_in: "chooseByWeight intn tot ds = Some db \<Longrightarrow> db \<in> wDb ` set ds"
proof -
  have l: "choose_loop n w xs = Some db \<Longrightarrow> db \<in> wDb ` set xs" for n w xs
    by (induction n w xs rule: choose_loop.induct) (auto simp: Let_def split: if_splits)
  assume "chooseByWeight intn tot ds = Some db"
  then show ?thesis using l [of "intn tot" 0 ds] by (auto simp: chooseByWeight_def idx_def split: if_splits option.splits)
qed

text \<open>The three parts on addresses and on values.\<close>

lemma pool_stock: "db < length (shPools sh) \<Longrightarrow> stock sh db = queued (conns (shPools sh ! db))"
  by (simp add: stock_def)

lemma plain_update:
  "plain \<lparr>shPools = (shPools sh)[db := cp], shWorld = (shWorld sh)\<lparr>dialled := d\<rparr>\<rparr> p =
    (plain sh p)\<lparr>pools := (pools (plain sh p))[db := deref (cells (shWorld sh)) cp], mworld := d\<rparr>"
  by (simp add: plain_def map_update)

lemma plain_set_cell:
  assumes "\<forall>db. a \<notin> set (stock sh db)"
  shows "plain (set_cell a c sh) p = plain sh p"
proof -
  have "deref ((cells (shWorld sh))[a := c]) x = deref (cells (shWorld sh)) x" if "x \<in> set (shPools sh)" for x
  proof -
    from that obtain db where "db < length (shPools sh)" "x = shPools sh ! db" by (auto simp: in_set_conv_nth)
    then show ?thesis using assms pool_stock by (intro deref_other) metis
  qed
  then show ?thesis by (simp add: plain_def)
qed

lemma plain_new_cell:
  assumes "wf_shared sh"
  shows "map (deref (cells (shWorld sh) @ [c])) (shPools sh) = map (deref (cells (shWorld sh))) (shPools sh)"
proof (rule map_cong [OF refl], rule deref_more)
  fix x assume "x \<in> set (shPools sh)"
  then obtain db where "db < length (shPools sh)" "x = shPools sh ! db" by (auto simp: in_set_conv_nth)
  then show "\<forall>a \<in> set (queued (conns x)). a < length (cells (shWorld sh))"
    using assms pool_stock by (metis wf_shared_def)
qed

lemma take_plain:
  assumes "take_conn intn tot ds sh = Some (db, r, sh')" and "wf_shared sh" and "db < length (shPools sh)"
  shows "\<exists>cp w. poolGet mconnect (pools (plain sh p) ! db) (mworld (plain sh p)) = (map_sum id (cell_at sh') r, cp, w) \<and>
    plain sh' p = (plain sh p)\<lparr>pools := (pools (plain sh p))[db := cp], mworld := w\<rparr>"
proof -
  have pl: "pools (plain sh p) ! db = deref (cells (shWorld sh)) (shPools sh ! db)"
    "mworld (plain sh p) = dialled (shWorld sh)" using assms(3) by (simp_all add: plain_def)
  have same: "(pools (plain sh p))[db := pools (plain sh p) ! db] = pools (plain sh p)" by simp
  from assms(1) show ?thesis
  proof (cases rule: take_conn_cases)
    case (idle a q)
    have "chan_recv (conns (deref (cells (shWorld sh)) (shPools sh ! db))) =
        Some (cells (shWorld sh) ! a, conns (deref (cells (shWorld sh)) ((shPools sh ! db)\<lparr>conns := q\<rparr>)))"
      using ch.recv_Some [OF idle(2)] by (simp add: chan_recv_def)
    moreover have "plain sh' p = (plain sh p)\<lparr>pools := (pools (plain sh p))[db := deref (cells (shWorld sh)) ((shPools sh ! db)\<lparr>conns := q\<rparr>)],
        mworld := dialled (shWorld sh)\<rparr>"
      using plain_update [of sh db "(shPools sh ! db)\<lparr>conns := q\<rparr>" "dialled (shWorld sh)" p] idle(3) by simp
    ultimately show ?thesis
      using idle(1,3,4) pl by (simp add: poolGet_def cell_at_def) (simp add: deref_def)
  next
    case (dialled c d)
    have "chan_recv (conns (deref (cells (shWorld sh)) (shPools sh ! db))) = None"
      using ch.recv_None [OF dialled(5)] by (simp add: chan_recv_def)
    then show ?thesis
      using dialled pl same plain_new_cell [OF assms(2), of c] by (simp add: poolGet_def cell_at_def) (simp add: plain_def)
  next
    case (refused e d)
    have "chan_recv (conns (deref (cells (shWorld sh)) (shPools sh ! db))) = None"
      using ch.recv_None [OF refused(5)] by (simp add: chan_recv_def)
    then show ?thesis
      using refused pl same by (simp add: poolGet_def) (simp add: plain_def)
  next
    case (shut e)
    then show ?thesis using pl same by (simp add: poolGet_def)
  qed
qed

lemma give_back_plain:
  assumes "db < length (shPools sh)"
  shows "plain (give_back db a sh) p = (case poolPut mshut (cell_at sh a) (pools (plain sh p) ! db) (mworld (plain sh p)) of
    (cp, w) \<Rightarrow> (plain sh p)\<lparr>pools := (pools (plain sh p))[db := cp], mworld := w\<rparr>)"
proof -
  have pl: "pools (plain sh p) ! db = deref (cells (shWorld sh)) (shPools sh ! db)"
    "mworld (plain sh p) = dialled (shWorld sh)" using assms by (simp_all add: plain_def)
  show ?thesis
  proof (cases rule: give_back_cases [where a = a and sh = sh and db = db])
    case (kept q)
    have q: "q = (conns (shPools sh ! db))\<lparr>queued := queued (conns (shPools sh ! db)) @ [a]\<rparr>"
      "length (queued (conns (shPools sh ! db))) < ccap (conns (shPools sh ! db))"
      using kept(1) by (auto simp: chan_send_def split: if_splits)
    have "poolPut mshut (cell_at sh a) (pools (plain sh p) ! db) (mworld (plain sh p)) =
        (deref (cells (shWorld sh)) ((shPools sh ! db)\<lparr>conns := q\<rparr>), dialled (shWorld sh))"
      using kept(2) q by (simp add: pl poolPut_def chan_send_def cell_at_def) (simp add: deref_def)
    then show ?thesis
      using plain_update [of sh db "(shPools sh ! db)\<lparr>conns := q\<rparr>" "dialled (shWorld sh)" p] kept(3) by simp
  next
    case shut
    have "poolPut mshut (cell_at sh a) (pools (plain sh p) ! db) (mworld (plain sh p)) =
        (pools (plain sh p) ! db, mshut (cell_at sh a) (dialled (shWorld sh)))"
      using shut(1) by (auto simp: pl poolPut_def chan_send_def split: if_splits)
    then show ?thesis using shut(2) by (simp add: cell_shut_def cell_at_def) (simp add: plain_def)
  qed
qed

text \<open>A connection that has been taken is in no pool.\<close>

lemma taken:
  assumes "take_conn intn tot ds sh = Some (db, Inr a, sh')" and "wf_shared sh" and "db < length (shPools sh)"
  shows "a < length (cells (shWorld sh'))" "a \<notin> set (stock sh' d)" "length (shPools sh') = length (shPools sh)"
proof -
  have "a < length (cells (shWorld sh')) \<and> a \<notin> set (stock sh' d) \<and> length (shPools sh') = length (shPools sh)"
    using assms(1)
  proof (cases rule: take_conn_cases)
    case (idle b q)
    have s: "stock sh db = a # queued q" using ch.recv_Some [OF idle(2)] idle(1) pool_stock [OF assms(3)] by simp
    then have "d \<noteq> db \<Longrightarrow> a \<notin> set (stock sh d)" "a \<notin> set (queued q)" "a < length (cells (shWorld sh))"
      using assms(2) by (auto simp: wf_shared_def exclusive_def) (metis distinct.simps(2), metis list.set_intros(1))
    then show ?thesis using idle(3) assms(3) by (simp add: stock_update)
  next
    case (dialled c w)
    then have "stock sh' d = stock sh d" by (simp add: stock_def)
    then show ?thesis using assms(2) dialled(1,3) by (auto simp: wf_shared_def)
  qed simp_all
  then show "a < length (cells (shWorld sh'))" "a \<notin> set (stock sh' d)" "length (shPools sh') = length (shPools sh)" by simp_all
qed

text \<open>
  The three parts one after the other make the method's result on values, errors and panics included: the steps
  below do for a client that is alone what \<open>delegateSelect\<close> does.
\<close>

lemma delegate_parts:
  assumes "wf_shared sh" and "\<forall>d \<in> set (dbs p). wDb d < length (shPools sh)"
    and "mysql_message (inTrans p) m = Some (ToReplica q, tx)"
  shows "delegateSelect intn m (plain sh p) =
    (case take_conn intn (totalWeight p) (dbs p) sh of
       None \<Rightarrow> Some None
     | Some (db, Inl e, sh1) \<Rightarrow> Some (Some ((True, Some e), plain sh1 p))
     | Some (db, Inr a, sh1) \<Rightarrow>
         map_option (map_option (\<lambda>(_, out, sh2). ((True, None), (plain (give_back db a sh2) p)\<lparr>toClient := out\<rparr>)))
           (query_on q a (toClient p) sh1))"
proof (cases "take_conn intn (totalWeight p) (dbs p) sh")
  case None
  then have "chooseByWeight intn (totalWeight p) (dbs p) = None" by (auto simp: take_conn_def split: option.splits prod.splits)
  then show ?thesis using None assms(3) by (simp add: delegateSelect_def route_message plain_def)
next
  case (Some y)
  then obtain db r sh1 where t: "take_conn intn (totalWeight p) (dbs p) sh = Some (db, r, sh1)" by (cases y) auto
  have c: "chooseByWeight intn (totalWeight p) (dbs p) = Some db" using t by (auto simp: take_conn_def split: option.splits prod.splits)
  have db: "db < length (shPools sh)" using chosen_in [OF c] assms(2) by auto
  obtain cp w where g: "poolGet mconnect (pools (plain sh p) ! db) (mworld (plain sh p)) = (map_sum id (cell_at sh1) r, cp, w)"
    "plain sh1 p = (plain sh p)\<lparr>pools := (pools (plain sh p))[db := cp], mworld := w\<rparr>"
    using take_plain [OF t assms(1) db] by blast
  have pl: "inTrans (plain sh p) = inTrans p" "totalWeight (plain sh p) = totalWeight p" "dbs (plain sh p) = dbs p"
    "toClient (plain sh p) = toClient p" "length (pools (plain sh p)) = length (shPools sh)" by (simp_all add: plain_def)
  show ?thesis
  proof (cases r)
    case (Inl e)
    then show ?thesis using t c g pl assms(3) by (simp add: delegateSelect_def route_message)
  next
    case (Inr a)
    note k = taken [OF t [unfolded Inr] assms(1) db]
    have "plain (give_back db a (set_cell a c' sh1)) p = (case poolPut mshut c' cp w of (cp', w') \<Rightarrow>
        (plain sh p)\<lparr>pools := (pools (plain sh p))[db := cp'], mworld := w'\<rparr>)" for c'
    proof -
      have "plain (set_cell a c' sh1) p = plain sh1 p" using k(2) by (intro plain_set_cell) simp
      then show ?thesis
        using give_back_plain [of db "set_cell a c' sh1" a p] k(1,3) db pl(5) g(2)
        by (simp add: cell_at_set case_prod_unfold)
    qed
    then have "(case poolPut mshut c' cp w of (cp', w') \<Rightarrow>
        ((True, None), (plain sh p)\<lparr>pools := (pools (plain sh p))[db := cp'], mworld := w', toClient := out\<rparr>)) =
      ((True, None), (plain (give_back db a (set_cell a c' sh1)) p)\<lparr>toClient := out\<rparr>)" for c' out
      by (simp add: case_prod_unfold)
    then show ?thesis
      using t c g(1) pl assms(3) Inr
      by (simp add: delegateSelect_def route_message query_on_def option.map_comp comp_def case_prod_unfold)
  qed
qed

section \<open>Clients\<close>

text \<open>
  Where a client's \<open>handleInbound\<close> is: between messages, holding the address of a connection for a query, with the
  replica's reply to it under way, or about to put the connection back.  \<open>sowed\<close> are the replies due to it, in the
  order of its SELECTs; the code does not keep them.
\<close>

datatype phase = Free | Holding nat nat bytes | Answered nat nat bytes bytes | Replied nat nat

record seat =
  at :: phase
  strans :: bool
  sgot :: bytes
  sowed :: bytes
  smain :: bytes

record farm =
  common :: shared
  fdbs :: "nat weighted list"
  ftotal :: int
  seats :: "nat \<Rightarrow> seat"

definition new_seat :: seat where
  "new_seat = \<lparr>at = Free, strans = False, sgot = [], sowed = [], smain = []\<rparr>"

definition start_farm :: "shared \<Rightarrow> nat weighted list \<Rightarrow> int \<Rightarrow> farm" where
  "start_farm sh ds tot = \<lparr>common = sh, fdbs = ds, ftotal = tot, seats = (\<lambda>_. new_seat)\<rparr>"

definition sit :: "nat \<Rightarrow> seat \<Rightarrow> farm \<Rightarrow> farm" where
  "sit i x s = s\<lparr>seats := (seats s)(i := x)\<rparr>"

text \<open>Bytes of a replica arrive on a connection.\<close>

definition feed :: "read_event list \<Rightarrow> conn \<Rightarrow> conn" where
  "feed evs c = c\<lparr>cnet := (cnet c)\<lparr>script := script (cnet c) @ evs\<rparr>\<rparr>"

text \<open>A legal reply to the query \<open>q\<close> sent on the connection \<open>c\<close>, cut into reads in any way.\<close>

definition reply_to :: "conn \<Rightarrow> bytes \<Rightarrow> bytes \<Rightarrow> read_event list \<Rightarrow> bool" where
  "reply_to c q r evs \<longleftrightarrow> (\<exists>rep. reply_ok (rejectReadOnly (cfg c)) rep \<and> r = packets (reply_seq q) (reply_packets rep)) \<and>
     clean evs \<and> arriving evs = r"

text \<open>
  The steps: a message for the main server; \<open>Get\<close>, which may fail; the reply of the replica; \<open>writeDataRow\<close>, which
  sends the query and reads the reply (the sending comes first in the code; the bytes of the reply do not depend on
  it here); \<open>Put\<close>; the reaper; \<open>Close\<close> of a pool.  A message is one read of at most 65536 bytes.
\<close>

inductive farm_step :: "farm \<Rightarrow> farm \<Rightarrow> bool" where
  main: "at (seats s i) = Free \<Longrightarrow> length m \<le> 65536 \<Longrightarrow> mysql_message (strans (seats s i)) m = Some (ToMain, tx) \<Longrightarrow>
    farm_step s (sit i ((seats s i)\<lparr>strans := tx, smain := smain (seats s i) @ m\<rparr>) s)"
| get: "at (seats s i) = Free \<Longrightarrow> length m \<le> 65536 \<Longrightarrow> mysql_message (strans (seats s i)) m = Some (ToReplica q, tx) \<Longrightarrow>
    take_conn intn (ftotal s) (fdbs s) (common s) = Some (db, Inr a, sh) \<Longrightarrow>
    farm_step s (sit i ((seats s i)\<lparr>at := Holding db a q\<rparr>) (s\<lparr>common := sh\<rparr>))"
| get_fails: "at (seats s i) = Free \<Longrightarrow> length m \<le> 65536 \<Longrightarrow> mysql_message (strans (seats s i)) m = Some (ToReplica q, tx) \<Longrightarrow>
    take_conn intn (ftotal s) (fdbs s) (common s) = Some (db, Inl e, sh) \<Longrightarrow> farm_step s (s\<lparr>common := sh\<rparr>)"
| arrive: "at (seats s i) = Holding db a q \<Longrightarrow> reply_to (cell_at (common s) a) q r evs \<Longrightarrow>
    farm_step s (sit i ((seats s i)\<lparr>at := Answered db a q r\<rparr>)
      (s\<lparr>common := set_cell a (feed evs (cell_at (common s) a)) (common s)\<rparr>))"
| reply: "at (seats s i) = Answered db a q r \<Longrightarrow> query_on q a (sgot (seats s i)) (common s) = Some (Some (e, out, sh)) \<Longrightarrow>
    farm_step s (sit i ((seats s i)\<lparr>at := Replied db a, sgot := out, sowed := sowed (seats s i) @ r\<rparr>) (s\<lparr>common := sh\<rparr>))"
| put: "at (seats s i) = Replied db a \<Longrightarrow>
    farm_step s (sit i ((seats s i)\<lparr>at := Free\<rparr>) (s\<lparr>common := give_back db a (common s)\<rparr>))"
| reap: "db < length (shPools (common s)) \<Longrightarrow> chan_recv (conns (shPools (common s) ! db)) = Some (a, q) \<Longrightarrow>
    farm_step s (s\<lparr>common := \<lparr>shPools = (shPools (common s))[db := (shPools (common s) ! db)\<lparr>conns := q\<rparr>],
      shWorld = cell_shut a (shWorld (common s))\<rparr>\<rparr>)"
| close: "db < length (shPools (common s)) \<Longrightarrow> poolClose cell_shut (shPools (common s) ! db) (shWorld (common s)) = (cp, w) \<Longrightarrow>
    farm_step s (s\<lparr>common := \<lparr>shPools = (shPools (common s))[db := cp], shWorld = w\<rparr>\<rparr>)"

inductive run_farm :: "farm \<Rightarrow> farm \<Rightarrow> bool" for s0 where
  start: "run_farm s0 s0"
| step: "run_farm s0 s \<Longrightarrow> farm_step s t \<Longrightarrow> run_farm s0 t"

section \<open>Connections that can be used\<close>

definition usable :: "conn \<Rightarrow> bool" where
  "usable c \<longleftrightarrow> query_ready [] c \<and> incoming c = [] \<and> 65536 \<le> maxAllowedPacket c"

lemma feed_props:
  assumes "usable c" and "clean evs" and "length q < 65536"
  shows "query_ready q (feed evs c)" "incoming (feed evs c) = arriving evs" "65536 \<le> maxAllowedPacket (feed evs c)"
  using assms
  by (auto simp: usable_def query_ready_def feed_def idle_def writable_def readable_def src_fine_def plain_values_def
      clean_def incoming_def src_rest_def arriving_def)

text \<open>A legal reply is forwarded, and the connection is usable again.\<close>

lemma answered:
  assumes "usable c" and "reply_to c q r evs" and "length q < 65536"
  obtains e c' where "writeDataRow q (feed evs c, dst) = Some (Some (e, c', dst @ r))" "usable c'"
proof -
  obtain rep where r: "reply_ok (rejectReadOnly (cfg (feed evs c))) rep" "clean evs"
    "r = packets (reply_seq q) (reply_packets rep)" "arriving evs = r"
    using assms(2) by (auto simp: reply_to_def feed_def)
  note f = feed_props [OF assms(1) r(2) assms(3)]
  have "incoming (feed evs c) = packets (reply_seq q) (reply_packets rep) @ []"
    using f(2) r(3,4) by simp
  from reply_forwarded [OF f(1) r(1) this, of dst]
  obtain c' where c': "writeDataRow q (feed evs c, dst) = Some (Some (reported rep, c', dst @ r))" "incoming c' = []"
    "readable c'" "steady (feed evs c) c'" using r(3) by auto
  have "usable c'" unfolding usable_def
    using ready_again [OF f(1) c'(4,3,2), of "[]"] f(3) c'(2,4) by (simp add: steady_def)
  with c'(1) show thesis by (rule that)
qed

lemma replica_text_short: "mysql_message tx m = Some (ToReplica q, tx') \<Longrightarrow> length q + 5 \<le> length m"
proof -
  have t: "length (trim cs s) \<le> length s" for cs s
    unfolding trim_def using length_dropWhile_le le_trans by (metis length_rev)
  assume "mysql_message tx m = Some (ToReplica q, tx')"
  then have "mysql_statement m = Some q" using my.replica_cases [OF TrueI] by blast
  then show ?thesis using t [of "str '' '' @ [13, 10]" "drop 5 m"] by (auto simp: mysql_statement_def split: if_splits)
qed


section \<open>The invariant\<close>

text \<open>The places a connection can be in, and the addresses in each.\<close>

datatype place = InPool nat | With nat

definition held :: "seat \<Rightarrow> nat list" where
  "held x = (case at x of Free \<Rightarrow> [] | Holding db a q \<Rightarrow> [a] | Answered db a q r \<Rightarrow> [a] | Replied db a \<Rightarrow> [a])"

fun places :: "farm \<Rightarrow> place \<Rightarrow> nat list" where
  "places s (InPool db) = stock (common s) db"
| "places s (With i) = held (seats s i)"

definition sound_world :: "mworld \<Rightarrow> bool" where
  "sound_world w \<longleftrightarrow> (\<forall>c. Inr c \<in> set (connects w) \<longrightarrow> usable c)"

definition sound_seat :: "shared \<Rightarrow> seat \<Rightarrow> bool" where
  "sound_seat sh x \<longleftrightarrow> sgot x = sowed x \<and>
     (case at x of
        Free \<Rightarrow> True
      | Holding db a q \<Rightarrow> usable (cell_at sh a) \<and> length q < 65536
      | Answered db a q r \<Rightarrow> length q < 65536 \<and> (\<exists>c evs. usable c \<and> reply_to c q r evs \<and> cell_at sh a = feed evs c)
      | Replied db a \<Rightarrow> usable (cell_at sh a))"

definition sound_farm :: "farm \<Rightarrow> bool" where
  "sound_farm s \<longleftrightarrow> exclusive (places s) \<and> (\<forall>p. \<forall>a \<in> set (places s p). a < length (cells (shWorld (common s)))) \<and>
     (\<forall>db. \<forall>a \<in> set (stock (common s) db). usable (cell_at (common s) a)) \<and> (\<forall>i. sound_seat (common s) (seats s i)) \<and>
     sound_world (dialled (shWorld (common s))) \<and> (\<forall>d \<in> set (fdbs s). wDb d < length (shPools (common s)))"

lemma sound_seat_cong: "(\<forall>a \<in> set (held x). cell_at sh' a = cell_at sh a) \<Longrightarrow> sound_seat sh' x = sound_seat sh x"
  by (auto simp: sound_seat_def held_def split: phase.splits)

text \<open>
  A step of client \<open>i\<close> keeps the invariant if it keeps addresses apart, changes no cell but its own and new ones, and
  what it puts into a pool is usable.
\<close>

lemma sound_by:
  assumes "sound_farm s" and "exclusive (places t)"
    and "\<And>p a. a \<in> set (places t p) \<Longrightarrow> a < length (cells (shWorld (common t)))"
    and "\<And>db a. a \<in> set (stock (common t) db) \<Longrightarrow> a \<in> set (stock (common s) db) \<or> usable (cell_at (common t) a)"
    and "\<And>a. a < length (cells (shWorld (common s))) \<Longrightarrow> a \<notin> set (held (seats s i)) \<Longrightarrow> cell_at (common t) a = cell_at (common s) a"
    and "\<And>j. j \<noteq> i \<Longrightarrow> seats t j = seats s j" and "sound_seat (common t) (seats t i)"
    and "sound_world (dialled (shWorld (common t)))"
    and "fdbs t = fdbs s" and "length (shPools (common t)) = length (shPools (common s))"
  shows "sound_farm t"
proof -
  note inv = assms(1) [unfolded sound_farm_def]
  have apart: "a \<in> set (places s p) \<Longrightarrow> a \<in> set (places s p') \<Longrightarrow> p = p'" for a p p'
    using inv unfolding exclusive_def by blast
  have valid: "a \<in> set (places s p) \<Longrightarrow> a < length (cells (shWorld (common s)))" for a p using inv by blast
  have "usable (cell_at (common t) a)" if a: "a \<in> set (stock (common t) db)" for db a
  proof (cases "usable (cell_at (common t) a)")
    case False
    then have s: "a \<in> set (places s (InPool db))" using assms(4) [OF a] by simp
    then have "a \<notin> set (held (seats s i))" using apart [of a "InPool db" "With i"] by auto
    from assms(5) [OF valid [OF s] this] show ?thesis using inv s by simp
  qed
  moreover have "sound_seat (common t) (seats t j)" for j
  proof (cases "j = i")
    case False
    have "cell_at (common t) a = cell_at (common s) a" if "a \<in> set (held (seats s j))" for a
    proof (rule assms(5))
      show "a < length (cells (shWorld (common s)))" using valid [of a "With j"] that by simp
      show "a \<notin> set (held (seats s i))" using apart [of a "With j" "With i"] that False by auto
    qed
    then show ?thesis using sound_seat_cong [of "seats s j" "common t" "common s"] assms(6) [OF False] inv by simp
  qed (use assms(7) in simp)
  ultimately show ?thesis using inv assms(2,3,8-10) by (auto simp: sound_farm_def)
qed

lemma sit_fields [simp]: "common (sit i x s) = common s" "fdbs (sit i x s) = fdbs s"
  "seats (sit i x s) = (seats s)(i := x)"
  by (simp_all add: sit_def)

lemma places_eq:
  assumes "\<And>db. stock (common t) db = st (InPool db)" and "\<And>i. held (seats t i) = st (With i)"
  shows "places t = st"
proof
  fix p show "places t p = st p" using assms by (cases p) simp_all
qed

text \<open>Steps that take an address out of a pool for good.\<close>

lemma sound_drop:
  assumes "sound_farm s" and "\<And>db. set (stock sh db) \<subseteq> set (stock (common s) db) \<and> distinct (stock sh db)"
    and "cells (shWorld sh) = cells (shWorld (common s))" and "sound_world (dialled (shWorld sh))"
    and "length (shPools sh) = length (shPools (common s))"
  shows "sound_farm (s\<lparr>common := sh\<rparr>)"
proof (rule sound_by [OF assms(1), where i = 0])
  note inv = assms(1) [unfolded sound_farm_def]
  have sub: "set (places (s\<lparr>common := sh\<rparr>) p) \<subseteq> set (places s p) \<and> distinct (places (s\<lparr>common := sh\<rparr>) p)" for p
  proof (cases p)
    case (With i)
    have "distinct (held x)" for x by (cases "at x") (simp_all add: held_def)
    then show ?thesis using With by simp
  qed (use assms(2) in simp)
  show "exclusive (places (s\<lparr>common := sh\<rparr>))" using inv sub by (blast intro: exclusive_shrink)
  show "a < length (cells (shWorld (common (s\<lparr>common := sh\<rparr>))))" if "a \<in> set (places (s\<lparr>common := sh\<rparr>) p)" for a p
    using inv sub that assms(3) by fastforce
  have c: "cell_at sh a = cell_at (common s) a" for a using assms(3) by (simp add: cell_at_def)
  show "sound_seat (common (s\<lparr>common := sh\<rparr>)) (seats (s\<lparr>common := sh\<rparr>) 0)"
    using inv sound_seat_cong [of "seats s 0" sh "common s"] c by simp
  show "a \<in> set (stock (common s) db) \<or> usable (cell_at (common (s\<lparr>common := sh\<rparr>)) a)"
    if "a \<in> set (stock (common (s\<lparr>common := sh\<rparr>)) db)" for db a using assms(2) that by auto
qed (use assms(3-5) in \<open>simp_all add: cell_at_def\<close>)

text \<open>Steps that change one cell only, that of the client.\<close>

lemma sound_own_cell:
  assumes "sound_farm s" and "held x = held (seats s i)" and "a \<in> set (held x)" and "sound_seat (set_cell a c (common s)) x"
  shows "sound_farm (sit i x (s\<lparr>common := set_cell a c (common s)\<rparr>))" (is "sound_farm ?t")
proof (rule sound_by [OF assms(1), where i = i])
  note inv = assms(1) [unfolded sound_farm_def]
  have p: "places ?t = places s"
    by (rule places_eq) (use assms(2) in simp_all)
  have a: "a < length (cells (shWorld (common s)))" using inv assms(2,3) places.simps(2) [of s i] by metis
  show "exclusive (places ?t)" using inv p by simp
  show "b < length (cells (shWorld (common ?t)))" if "b \<in> set (places ?t p)" for b p
    using inv that \<open>places ?t = places s\<close> by simp
  show "cell_at (common ?t) b = cell_at (common s) b" if "b \<notin> set (held (seats s i))" for b
    using that assms(2,3) a by (auto simp: cell_at_set)
  show "sound_world (dialled (shWorld (common ?t)))" using inv by simp
qed (use assms(4) in simp_all)

lemma farm_facts:
  assumes "sound_farm s"
  shows "wf_shared (common s)" "sound_seat (common s) (seats s i)" "sound_world (dialled (shWorld (common s)))"
    "d \<in> set (fdbs s) \<Longrightarrow> wDb d < length (shPools (common s))" "exclusive (places s)"
    "a \<in> set (places s p) \<Longrightarrow> a < length (cells (shWorld (common s)))"
    "a \<in> set (stock (common s) db) \<Longrightarrow> usable (cell_at (common s) a)"
proof -
  note inv = assms [unfolded sound_farm_def]
  show "sound_seat (common s) (seats s i)" "sound_world (dialled (shWorld (common s)))"
    "d \<in> set (fdbs s) \<Longrightarrow> wDb d < length (shPools (common s))" "exclusive (places s)"
    "a \<in> set (places s p) \<Longrightarrow> a < length (cells (shWorld (common s)))"
    "a \<in> set (stock (common s) db) \<Longrightarrow> usable (cell_at (common s) a)" using inv by blast+
  have "distinct (stock (common s) db)" for db
    using inv places.simps(1) [of s db] unfolding exclusive_def by metis
  moreover have "db = db'" if "a \<in> set (stock (common s) db)" "a \<in> set (stock (common s) db')" for a db db'
    using inv that places.simps(1) [of s] unfolding exclusive_def by (metis place.inject(1))
  moreover have "a < length (cells (shWorld (common s)))" if "a \<in> set (stock (common s) db)" for a db
    using inv that places.simps(1) [of s db] by metis
  ultimately show "wf_shared (common s)" by (auto simp: wf_shared_def exclusive_def)
qed

lemma mconnect_sound:
  assumes "mconnect w = (r, w')" and "sound_world w"
  shows "sound_world w'" and "r = Inr c \<Longrightarrow> usable c"
  using assms by (auto simp: mconnect_def sound_world_def split: list.splits)

lemma sound_shut: "sound_world (mshut c w) = sound_world w"
  by (simp add: sound_world_def mshut_def)

lemma places_with: "places (sit i x (s\<lparr>common := sh\<rparr>)) = (\<lambda>p. case p of InPool db \<Rightarrow> stock sh db | With j \<Rightarrow> if j = i then held x else held (seats s j))"
  by (rule places_eq) auto

text \<open>\<open>Get\<close> by a client.\<close>

lemma sound_get:
  assumes "sound_farm s" and "at (seats s i) = Free" and "length q < 65536"
    and "take_conn intn (ftotal s) (fdbs s) (common s) = Some (db, Inr a, sh)"
  shows "sound_farm (sit i ((seats s i)\<lparr>at := Holding db a q\<rparr>) (s\<lparr>common := sh\<rparr>))" (is "sound_farm ?t")
proof -
  note f = farm_facts [OF assms(1)]
  let ?x = "(seats s i)\<lparr>at := Holding db a q\<rparr>"
  have x: "held ?x = [a]" "held (seats s i) = []" using assms(2) by (simp_all add: held_def)
  have got: "sgot (seats s i) = sowed (seats s i)" using f(2) [of i] by (simp add: sound_seat_def)
  have "chooseByWeight intn (ftotal s) (fdbs s) = Some db" using assms(4) by (auto simp: take_conn_def split: option.splits prod.splits)
  then have db: "db < length (shPools (common s))" using chosen_in f(4) by fastforce
  from assms(4) show ?thesis
  proof (cases rule: take_conn_cases)
    case (idle b cq)
    have b: "b = a" using idle(1) by simp
    have st: "stock (common s) db = a # queued cq" using ch.recv_Some [OF idle(2)] b pool_stock [OF db] by simp
    have sh: "stock sh = (stock (common s))(db := queued cq)" using idle(3) db by (simp add: stock_update)
    have p: "places ?t = (places s)(InPool db := queued cq, With i := [a])"
      by (rule places_eq) (use x sh in auto)
    have d: "distinct (a # queued cq)" using f(1) st unfolding wf_shared_def exclusive_def by metis
    have a: "a \<in> set (places s (InPool db))" using st by simp
    have ex: "exclusive (places ?t)" unfolding p
      by (rule exclusive_move [OF f(5), of _ _ a]) (use d st x(2) in auto)
    show ?thesis
    proof (rule sound_by [OF assms(1) ex, where i = i])
      show "c < length (cells (shWorld (common ?t)))" if "c \<in> set (places ?t p)" for c p
      proof -
        have "c \<in> set (places s (InPool db)) \<or> c \<in> set (places s p)" using that st unfolding p by (auto split: if_splits)
        then have "c < length (cells (shWorld (common s)))" using f(6) by blast
        then show ?thesis using idle(3) by simp
      qed
      show "c \<in> set (stock (common s) d) \<or> usable (cell_at (common ?t) c)" if "c \<in> set (stock (common ?t) d)" for c d
        using that st sh by (auto split: if_splits)
      show "sound_seat (common ?t) (seats ?t i)"
        using f(7) [of a db] st got assms(3) idle(3) by (simp add: sound_seat_def cell_at_def)
    qed (use idle(3) f(3) in \<open>simp_all add: cell_at_def\<close>)
  next
    case (dialled c w)
    have a: "a = length (cells (shWorld (common s)))" using dialled(1) by simp
    have sh: "stock sh = stock (common s)" using dialled(3) by (simp add: stock_def fun_eq_iff)
    have p: "places ?t = (places s)(With i := [a])" by (rule places_eq) (use x sh in auto)
    have fresh: "\<forall>p. a \<notin> set (places s p)" using f(6) a by fastforce
    show ?thesis
    proof (rule sound_by [OF assms(1), where i = i])
      show "exclusive (places ?t)" unfolding p by (rule exclusive_fresh [OF f(5) fresh])
      show "b < length (cells (shWorld (common ?t)))" if "b \<in> set (places ?t p)" for b p
      proof -
        have "b = a \<or> b \<in> set (places s p)" using that unfolding p by (auto split: if_splits)
        then show ?thesis using f(6) a dialled(3) by (auto intro: less_SucI)
      qed
      show "cell_at (common ?t) b = cell_at (common s) b" if "b < length (cells (shWorld (common s)))" for b
        using that dialled(3) by (simp add: cell_at_def nth_append)
      show "sound_seat (common ?t) (seats ?t i)"
        using mconnect_sound [OF dialled(2) f(3)] got assms(3) dialled(3) a by (simp add: sound_seat_def cell_at_def)
      show "sound_world (cworld.dialled (shWorld (common ?t)))" using mconnect_sound(1) [OF dialled(2) f(3)] dialled(3) by simp
    qed (use dialled(3) sh in simp_all)
  qed simp_all
qed

lemma sound_get_fails:
  assumes "sound_farm s" and "take_conn intn (ftotal s) (fdbs s) (common s) = Some (db, Inl e, sh)"
  shows "sound_farm (s\<lparr>common := sh\<rparr>)"
proof -
  note f = farm_facts [OF assms(1)]
  have d: "distinct (stock (common s) d)" for d using f(1) unfolding wf_shared_def exclusive_def by blast
  from assms(2) show ?thesis
  proof (cases rule: take_conn_cases)
    case (refused e' w)
    have "stock sh = stock (common s)" using refused(3) by (simp add: stock_def fun_eq_iff)
    then show ?thesis using mconnect_sound(1) [OF refused(2) f(3)] refused(3) d by (intro sound_drop [OF assms(1)]) simp_all
  next
    case (shut e')
    then show ?thesis using assms(1) by simp
  qed simp_all
qed

text \<open>\<open>Put\<close> by a client.\<close>

lemma sound_put:
  assumes "sound_farm s" and "at (seats s i) = Replied db a"
  shows "sound_farm (sit i ((seats s i)\<lparr>at := Free\<rparr>) (s\<lparr>common := give_back db a (common s)\<rparr>))" (is "sound_farm ?t")
proof -
  note f = farm_facts [OF assms(1)]
  let ?sh = "give_back db a (common s)"
  let ?x = "(seats s i)\<lparr>at := Free\<rparr>"
  have x: "held ?x = []" "held (seats s i) = [a]" using assms(2) by (simp_all add: held_def)
  have u: "usable (cell_at (common s) a)" "sgot (seats s i) = sowed (seats s i)"
    using f(2) [of i] assms(2) by (simp_all add: sound_seat_def)
  have a: "a \<in> set (places s (With i))" using x by simp
  have c: "cells (shWorld ?sh) = cells (shWorld (common s))" "length (shPools ?sh) = length (shPools (common s))"
    "sound_world (dialled (shWorld ?sh))"
    by (cases rule: give_back_cases [where a = a and sh = "common s" and db = db], simp_all add: cell_shut_def f(3) sound_shut)+
  have "stock ?sh = stock (common s) \<or> stock ?sh = (stock (common s))(db := stock (common s) db @ [a])"
  proof (cases rule: give_back_cases [where a = a and sh = "common s" and db = db])
    case (kept q)
    then show ?thesis using ch.send_Some [OF kept(1)] by (simp add: stock_update pool_stock)
  next
    case shut
    then show ?thesis by (simp add: stock_def fun_eq_iff)
  qed
  then have st: "\<exists>ys. stock ?sh = (stock (common s))(db := ys) \<and> distinct ys \<and> set ys \<subseteq> insert a (set (stock (common s) db))"
  proof
    have "distinct (stock (common s) db)" using f(1) unfolding wf_shared_def exclusive_def by blast
    moreover have "a \<notin> set (stock (common s) db)" using f(5) a places.simps(1) [of s db] unfolding exclusive_def by (metis place.distinct(1))
    ultimately show ?thesis if "stock ?sh = (stock (common s))(db := stock (common s) db @ [a])" using that by auto
    show ?thesis if "stock ?sh = stock (common s)" using that \<open>distinct (stock (common s) db)\<close> by (intro exI [of _ "stock (common s) db"]) auto
  qed
  then obtain ys where ys: "stock ?sh = (stock (common s))(db := ys)" "distinct ys" "set ys \<subseteq> insert a (set (stock (common s) db))"
    by blast
  have p: "places ?t = (places s)(With i := [], InPool db := ys)"
    by (rule places_eq) (use x ys(1) in auto)
  show ?thesis
  proof (rule sound_by [OF assms(1), where i = i])
    show "exclusive (places ?t)" unfolding p
      by (rule exclusive_move [OF f(5) _ a]) (use ys in auto)
    show "b < length (cells (shWorld (common ?t)))" if "b \<in> set (places ?t p)" for b p
    proof -
      have "b \<in> set (places s (With i)) \<or> b \<in> set (places s p)" using that ys(3) a unfolding p by (auto split: if_splits)
      then have "b < length (cells (shWorld (common s)))" using f(6) by blast
      then show ?thesis using c(1) by simp
    qed
    show "b \<in> set (stock (common s) d) \<or> usable (cell_at (common ?t) b)" if "b \<in> set (stock (common ?t) d)" for b d
      using that ys(1,3) u(1) c(1) by (auto simp: cell_at_def split: if_splits)
  qed (use c x u(2) in \<open>simp_all add: cell_at_def sound_seat_def\<close>)
qed

lemma sound_reply:
  assumes "sound_farm s" and "at (seats s i) = Answered db a q r"
    and "query_on q a (sgot (seats s i)) (common s) = Some (Some (e, out, sh))"
  shows "sound_farm (sit i ((seats s i)\<lparr>at := Replied db a, sgot := out, sowed := sowed (seats s i) @ r\<rparr>) (s\<lparr>common := sh\<rparr>))"
proof -
  obtain c evs where c: "usable c" "reply_to c q r evs" "cell_at (common s) a = feed evs c" "length q < 65536"
    "sgot (seats s i) = sowed (seats s i)"
    using farm_facts(2) [OF assms(1), of i] assms(2) by (auto simp: sound_seat_def)
  obtain e' c' where w: "writeDataRow q (feed evs c, sgot (seats s i)) = Some (Some (e', c', sgot (seats s i) @ r))" "usable c'"
    using answered [OF c(1,2,4)] by blast
  then have o: "out = sgot (seats s i) @ r" "sh = set_cell a c' (common s)" using assms(3) c(3) by (simp_all add: query_on_def)
  have "a < length (cells (shWorld (common s)))"
    using farm_facts(6) [OF assms(1), of a "With i"] assms(2) by (simp add: held_def)
  then show ?thesis unfolding o(2)
    by (intro sound_own_cell [OF assms(1)]) (use assms(2) w(2) c(5) o(1) in \<open>simp_all add: held_def sound_seat_def cell_at_set\<close>)
qed

lemma sound_arrive:
  assumes "sound_farm s" and "at (seats s i) = Holding db a q" and "reply_to (cell_at (common s) a) q r evs"
  shows "sound_farm (sit i ((seats s i)\<lparr>at := Answered db a q r\<rparr>)
    (s\<lparr>common := set_cell a (feed evs (cell_at (common s) a)) (common s)\<rparr>))"
proof -
  have u: "usable (cell_at (common s) a)" "length q < 65536" "sgot (seats s i) = sowed (seats s i)"
    using farm_facts(2) [OF assms(1), of i] assms(2) by (simp_all add: sound_seat_def)
  have a: "a < length (cells (shWorld (common s)))"
    using farm_facts(6) [OF assms(1), of a "With i"] assms(2) by (simp add: held_def)
  have "\<exists>c evs'. usable c \<and> reply_to c q r evs' \<and> feed evs (cell_at (common s) a) = feed evs' c" using u(1) assms(3) by blast
  then show ?thesis
    by (intro sound_own_cell [OF assms(1)]) (use assms(2) u a in \<open>simp_all add: held_def sound_seat_def cell_at_set\<close>)
qed

lemma shut_all: "cells (fold cell_shut as w) = cells w" "sound_world (dialled (fold cell_shut as w)) = sound_world (dialled w)"
  by (induction as arbitrary: w) (simp_all add: cell_shut_def sound_shut)

lemma poolClose_drops:
  assumes "poolClose cell_shut cp w = (cp', w')"
  shows "cells w' = cells w" "sound_world (dialled w') = sound_world (dialled w)"
    "\<exists>n. queued (conns cp') = drop n (queued (conns cp))"
proof -
  have "cells w' = cells w \<and> sound_world (dialled w') = sound_world (dialled w) \<and>
      (\<exists>n. queued (conns cp') = drop n (queued (conns cp)))"
    using assms by (auto simp: poolClose_def closeLoop_half [OF refl] shut_all split: if_splits intro: exI [of _ 0])
  then show "cells w' = cells w" "sound_world (dialled w') = sound_world (dialled w)"
    "\<exists>n. queued (conns cp') = drop n (queued (conns cp))" by blast+
qed

text \<open>The reaper and \<open>Close\<close>.\<close>

lemma sound_shorten:
  assumes "sound_farm s" and "db < length (shPools (common s))" and "queued (conns cp) = drop n (queued (conns (shPools (common s) ! db)))"
    and "cells w = cells (shWorld (common s))" and "sound_world (dialled w)"
  shows "sound_farm (s\<lparr>common := \<lparr>shPools = (shPools (common s))[db := cp], shWorld = w\<rparr>\<rparr>)"
proof (rule sound_drop [OF assms(1)])
  fix d
  have "distinct (stock (common s) d)" for d using farm_facts(1) [OF assms(1)] unfolding wf_shared_def exclusive_def by blast
  then show "set (stock \<lparr>shPools = (shPools (common s))[db := cp], shWorld = w\<rparr> d) \<subseteq> set (stock (common s) d) \<and>
      distinct (stock \<lparr>shPools = (shPools (common s))[db := cp], shWorld = w\<rparr> d)"
    using assms(2,3) by (auto simp: stock_update pool_stock dest: in_set_dropD) (metis distinct_drop pool_stock)
qed (use assms(4,5) in simp_all)

lemma farm_step_sound:
  assumes "farm_step s t" and "sound_farm s"
  shows "sound_farm t"
  using assms(1)
proof cases
  case (main i m tx)
  note f = farm_facts [OF assms(2)]
  let ?x = "(seats s i)\<lparr>strans := tx, smain := smain (seats s i) @ m\<rparr>"
  have "places t = places s" unfolding main(1) by (rule places_eq) (auto simp: held_def)
  moreover have "sound_seat (common s) ?x" using f(2) [of i] by (simp add: sound_seat_def)
  ultimately show ?thesis using f(2-7) assms(2) unfolding main(1)
    by (intro sound_by [OF assms(2), where i = i]) (simp_all add: sound_farm_def)
next
  case (get i m q tx intn db a sh)
  have "length q < 65536" using replica_text_short [OF get(4)] get(3) by simp
  then show ?thesis unfolding get(1) by (rule sound_get [OF assms(2) get(2) _ get(5)])
next
  case (get_fails i m q tx intn db e sh)
  then show ?thesis using sound_get_fails [OF assms(2) get_fails(5)] by simp
next
  case (arrive i db a q r evs)
  then show ?thesis using sound_arrive [OF assms(2) arrive(2,3)] by simp
next
  case (reply i db a q r e out sh)
  then show ?thesis using sound_reply [OF assms(2) reply(2,3)] by simp
next
  case (put i db a)
  then show ?thesis using sound_put [OF assms(2) put(2)] by simp
next
  case (reap db a q)
  have "queued (conns ((shPools (common s) ! db)\<lparr>conns := q\<rparr>)) = drop 1 (queued (conns (shPools (common s) ! db)))"
    using ch.recv_Some [OF reap(3)] by simp
  from sound_shorten [OF assms(2) reap(2) this, of "cell_shut a (shWorld (common s))"] farm_facts(3) [OF assms(2)]
  show ?thesis unfolding reap(1) by (simp add: cell_shut_def sound_shut)
next
  case (close db cp w)
  note k = poolClose_drops [OF close(3)]
  from k(3) obtain n where "queued (conns cp) = drop n (queued (conns (shPools (common s) ! db)))" ..
  from sound_shorten [OF assms(2) close(2) this k(1)] k(2) farm_facts(3) [OF assms(2)]
  show ?thesis unfolding close(1) by simp
qed

lemma run_farm_sound: "run_farm s0 s \<Longrightarrow> sound_farm s0 \<Longrightarrow> sound_farm s"
  by (induction rule: run_farm.induct) (auto intro: farm_step_sound)

section \<open>Properties\<close>

text \<open>One pool with two connections.\<close>

definition demo_shared :: shared where
  "demo_shared = \<lparr>shPools = [\<lparr>conns = \<lparr>queued = [0, 1], ccap = 2\<rparr>, minConns = 1, maxConns = 2, idleTimeout = 60, closed = False\<rparr>],
     shWorld = \<lparr>cells = [fresh_conn [], fresh_conn []], dialled = \<lparr>connects = [], shutConns = []\<rparr>\<rparr>\<rparr>"

definition demo_dbs :: "nat weighted list" where
  "demo_dbs = [\<lparr>wName = [], wDb = 0, wWeight = 1\<rparr>]"

lemma demo_stock: "stock demo_shared db = (if db = 0 then [0, 1] else [])"
  by (simp add: stock_def demo_shared_def)

lemma demo_wf: "wf_shared demo_shared" "\<forall>d \<in> set demo_dbs. wDb d < length (shPools demo_shared)"
  by (auto simp: wf_shared_def exclusive_def demo_stock split: if_splits) (simp_all add: demo_shared_def demo_dbs_def)

lemma demo_cells: "a \<in> set (stock demo_shared db) \<Longrightarrow> cell_at demo_shared a = fresh_conn []"
  by (auto simp: demo_stock split: if_splits) (simp_all add: cell_at_def demo_shared_def)

lemma demo_take: "\<exists>sh. take_conn (\<lambda>_. 0) 1 demo_dbs demo_shared = Some (0, Inr 0, sh) \<and> cell_at sh 0 = fresh_conn []"
  by (simp add: take_conn_def chooseByWeight_def demo_dbs_def demo_shared_def poolGet_def chan_recv_def Let_def cell_at_def)

text \<open>
  C5: Clients that share the pools do not disturb each other.  However their messages, the replies of the replicas,
  the reapers and callers of \<open>Close\<close> interleave, each client has been sent exactly the replies to its own SELECTs,
  in order; a reply that is under way on its connection will be forwarded in full; and the connection it holds is
  neither idle in a pool nor held by another client.
\<close>

theorem shared_pools_isolate_clients:
  assumes "run_farm (start_farm sh ds tot) s" and "wf_shared sh" and "\<forall>d \<in> set ds. wDb d < length (shPools sh)"
    and "\<forall>db. \<forall>a \<in> set (stock sh db). usable (cell_at sh a)" and "sound_world (dialled (shWorld sh))"
  shows "sgot (seats s i) = sowed (seats s i) \<and>
    (\<forall>db a q r. at (seats s i) = Answered db a q r \<longrightarrow>
       (\<exists>e sh'. query_on q a (sgot (seats s i)) (common s) = Some (Some (e, sgot (seats s i) @ r, sh')))) \<and>
    (\<forall>a \<in> set (held (seats s i)). (\<forall>db. a \<notin> set (stock (common s) db)) \<and> (\<forall>j. a \<in> set (held (seats s j)) \<longrightarrow> j = i))"
proof -
  have p: "places (start_farm sh ds tot) = (\<lambda>p. case p of InPool db \<Rightarrow> stock sh db | With j \<Rightarrow> [])"
    by (rule places_eq) (simp_all add: start_farm_def new_seat_def held_def)
  have "exclusive (places (start_farm sh ds tot))"
    using assms(2) by (auto simp: p wf_shared_def exclusive_def split: place.splits)
  then have "sound_farm (start_farm sh ds tot)"
    using assms(2-5) by (auto simp: sound_farm_def p wf_shared_def split: place.splits)
      (simp_all add: start_farm_def new_seat_def sound_seat_def)
  then have s: "sound_farm s" by (rule run_farm_sound [OF assms(1)])
  note f = farm_facts [OF s]
  have seat: "sound_seat (common s) (seats s i)" by (rule f(2))
  have apart: "p = p'" if "a \<in> set (places s p)" "a \<in> set (places s p')" for a p p'
    using f(5) that unfolding exclusive_def by blast
  have "\<exists>e sh'. query_on q a (sgot (seats s i)) (common s) = Some (Some (e, sgot (seats s i) @ r, sh'))"
    if ans: "at (seats s i) = Answered db a q r" for db a q r
  proof -
    obtain c evs where c: "usable c" "reply_to c q r evs" "cell_at (common s) a = feed evs c" "length q < 65536"
      using seat ans by (auto simp: sound_seat_def)
    obtain e c' where "writeDataRow q (cell_at (common s) a, sgot (seats s i)) = Some (Some (e, c', sgot (seats s i) @ r))"
      using answered [OF c(1,2,4), of "sgot (seats s i)"] c(3) by metis
    then show ?thesis by (simp add: query_on_def)
  qed
  moreover have "a \<notin> set (stock (common s) db)" if "a \<in> set (held (seats s i))" for a db
    using apart [of a "With i" "InPool db"] that by auto
  moreover have "j = i" if "a \<in> set (held (seats s i))" "a \<in> set (held (seats s j))" for a j
    using apart [of a "With i" "With j"] that by auto
  moreover have "sgot (seats s i) = sowed (seats s i)" using seat by (simp add: sound_seat_def)
  ultimately show ?thesis by blast
qed

lemma fresh_usable: "usable (fresh_conn [])"
proof -
  have "query_ready [] (fresh_conn [])"
    by (simp add: query_ready_def fresh_conn fresh_conn(2-4)) (simp add: fresh_conn_def plain_values_def)
  then show ?thesis by (simp add: usable_def fresh_conn(3)) (simp add: fresh_conn_def)
qed

text \<open>Client 7 has taken a connection and its reply is under way.\<close>

theorem shared_pools_isolate_clients_witness:
  "\<exists>s r e sh. run_farm (start_farm demo_shared demo_dbs 1) s \<and> r = packets (reply_seq (str ''select 1'')) (reply_packets demo_reply) \<and>
     at (seats s 7) = Answered 0 0 (str ''select 1'') r \<and>
     query_on (str ''select 1'') 0 [] (common s) = Some (Some (e, r, sh)) \<and> 0 \<notin> set (stock (common s) 0)"
proof -
  let ?s = "start_farm demo_shared demo_dbs 1"
  let ?q = "str ''select 1''"
  let ?r = "packets (reply_seq ?q) (reply_packets demo_reply)"
  obtain sh where t: "take_conn (\<lambda>_. 0) 1 demo_dbs demo_shared = Some (0, Inr 0, sh)" "cell_at sh 0 = fresh_conn []" using demo_take by blast
  let ?t = "sit 7 ((seats ?s 7)\<lparr>at := Holding 0 0 ?q\<rparr>) (?s\<lparr>common := sh\<rparr>)"
  let ?u = "sit 7 ((seats ?t 7)\<lparr>at := Answered 0 0 ?q ?r\<rparr>) (?t\<lparr>common := set_cell 0 (feed [(?r, None)] (cell_at (common ?t) 0)) (common ?t)\<rparr>)"
  have "mysql_message False (com_query ''select 1'') = Some (ToReplica ?q, False)"
    using demo_select by (simp add: select_message_def)
  then have "farm_step ?s ?t"
    by (intro farm_step.get [where m = "com_query ''select 1''" and intn = "\<lambda>_. 0" and tx = False])
      (simp_all add: start_farm_def new_seat_def com_query_def str_def t)
  moreover have "reply_to (cell_at (common ?t) 0) ?q ?r [(?r, None)]" using demo_reply t(2) by (auto simp: reply_to_def)
  then have "farm_step ?t ?u" by (intro farm_step.arrive) simp_all
  ultimately have r: "run_farm ?s ?u" by (blast intro: run_farm.intros)
  have u: "at (seats ?u 7) = Answered 0 0 ?q ?r" "sgot (seats ?u 7) = []" "0 \<in> set (held (seats ?u 7))"
    by (simp_all add: start_farm_def new_seat_def held_def)
  have "\<forall>db. \<forall>a \<in> set (stock demo_shared db). usable (cell_at demo_shared a)" "sound_world (dialled (shWorld demo_shared))"
    using demo_cells fresh_usable by (simp, simp add: demo_shared_def sound_world_def)
  note iso = shared_pools_isolate_clients [OF r demo_wf this, of 7]
  from iso u(1) obtain e sh' where "query_on ?q 0 (sgot (seats ?u 7)) (common ?u) = Some (Some (e, sgot (seats ?u 7) @ ?r, sh'))" by blast
  then have "query_on ?q 0 [] (common ?u) = Some (Some (e, ?r, sh'))" unfolding u(2) by simp
  moreover have "0 \<notin> set (stock (common ?u) 0)" using iso u(3) by blast
  ultimately show ?thesis using r u(1) by blast
qed

end
