(* ===== verification/Cloning.thy ===== *)
theory Cloning
  imports Dsn
begin

text \<open>
  \<open>Config.Clone\<close> of \<open>mysql/dsn.go\<close>, by which \<open>NewConnector\<close> keeps its configuration apart from the caller's.  The
  rest of the development takes a configuration as a value; here its three pointers are explicit.
\<close>

section \<open>Configurations with pointers\<close>

text \<open>The objects of each kind by address, and a configuration that points to them; \<open>None\<close> is nil.\<close>

record heap =
  tlsCells :: "tlsconf list"
  keyCells :: "nat list"
  mapCells :: "(bytes \<times> bytes) list list"

record cfgVars =
  inline :: Config
  pTLS :: "nat option"
  pKey :: "nat option"
  pParams :: "nat option"

definition params_of :: "heap \<Rightarrow> cfgVars \<Rightarrow> (bytes \<times> bytes) list" where
  "params_of h c = (case pParams c of None \<Rightarrow> [] | Some a \<Rightarrow> mapCells h ! a)"

definition cfg_content :: "heap \<Rightarrow> cfgVars \<Rightarrow> Config" where
  "cfg_content h c = (inline c)\<lparr>cTLS := map_option ((!) (tlsCells h)) (pTLS c),
     cPubKey := map_option ((!) (keyCells h)) (pKey c), cParams := params_of h c\<rparr>"

definition copy_cell :: "nat option \<Rightarrow> 'a list \<Rightarrow> nat option \<times> 'a list" where
  "copy_cell p xs = (case p of None \<Rightarrow> (None, xs) | Some a \<Rightarrow> (Some (length xs), xs @ [xs ! a]))"

definition copy_params :: "cfgVars \<Rightarrow> heap \<Rightarrow> nat option \<times> (bytes \<times> bytes) list list" where
  "copy_params cf h =
     (if 0 < length (params_of h cf) then (Some (length (mapCells h)), mapCells h @ [params_of h cf])
      else (pParams cf, mapCells h))"

definition Clone :: "cfgVars \<Rightarrow> heap \<Rightarrow> cfgVars \<times> heap" where
  "Clone cf h =
     (let (tls, ts) = copy_cell (pTLS cf) (tlsCells h);
          (ps, ms) = copy_params cf h;
          (key, ks) = copy_cell (pKey cf) (keyCells h)
      in (cf\<lparr>pTLS := tls, pParams := ps, pKey := key\<rparr>, \<lparr>tlsCells = ts, keyCells = ks, mapCells = ms\<rparr>))"

section \<open>Writing through a configuration\<close>

text \<open>What the owner of a configuration may do to the objects it points to.\<close>

definition write_objects :: "(tlsconf \<Rightarrow> tlsconf) \<Rightarrow> (nat \<Rightarrow> nat) \<Rightarrow> cfgVars \<Rightarrow> heap \<Rightarrow> heap" where
  "write_objects f g c h =
     h\<lparr>tlsCells := (case pTLS c of None \<Rightarrow> tlsCells h | Some a \<Rightarrow> (tlsCells h)[a := f (tlsCells h ! a)]),
       keyCells := (case pKey c of None \<Rightarrow> keyCells h | Some a \<Rightarrow> (keyCells h)[a := g (keyCells h ! a)])\<rparr>"

definition write_params :: "((bytes \<times> bytes) list \<Rightarrow> (bytes \<times> bytes) list) \<Rightarrow> cfgVars \<Rightarrow> heap \<Rightarrow> heap" where
  "write_params k c h = (case pParams c of None \<Rightarrow> h | Some a \<Rightarrow> h\<lparr>mapCells := (mapCells h)[a := k (mapCells h ! a)]\<rparr>)"

definition pointers_ok :: "heap \<Rightarrow> cfgVars \<Rightarrow> bool" where
  "pointers_ok h c \<longleftrightarrow> (\<forall>a. pTLS c = Some a \<longrightarrow> a < length (tlsCells h)) \<and>
     (\<forall>a. pKey c = Some a \<longrightarrow> a < length (keyCells h)) \<and> (\<forall>a. pParams c = Some a \<longrightarrow> a < length (mapCells h))"

lemma copy_cell_props:
  assumes "copy_cell p xs = (q, ys)" and "\<forall>a. p = Some a \<longrightarrow> a < length xs"
  shows "map_option ((!) ys) q = map_option ((!) xs) p" "map_option ((!) ys) p = map_option ((!) xs) p"
    "q = None \<or> q = Some (length xs)"
    "map_option ((!) (case q of None \<Rightarrow> ys | Some a \<Rightarrow> ys[a := y])) p = map_option ((!) xs) p"
  using assms by (cases p; auto simp: copy_cell_def nth_append)+

definition params_at :: "nat option \<Rightarrow> (bytes \<times> bytes) list list \<Rightarrow> (bytes \<times> bytes) list" where
  "params_at p ms = (case p of None \<Rightarrow> [] | Some a \<Rightarrow> ms ! a)"

lemma copy_params_props:
  assumes "copy_params c h = (q, ms)" and "\<forall>a. pParams c = Some a \<longrightarrow> a < length (mapCells h)"
  shows "params_at q ms = params_of h c" "params_at (pParams c) ms = params_of h c"
    "params_of h c = [] \<Longrightarrow> q = pParams c \<and> ms = mapCells h"
    "params_of h c \<noteq> [] \<Longrightarrow> q = Some (length (mapCells h)) \<and> params_at (pParams c) (ms[length (mapCells h) := y]) = params_of h c"
  using assms by (auto simp: copy_params_def params_at_def params_of_def nth_append split: if_splits option.splits)

lemma clone_parts:
  assumes "Clone c h = (c', h')"
  shows "copy_cell (pTLS c) (tlsCells h) = (pTLS c', tlsCells h')" "copy_params c h = (pParams c', mapCells h')"
    "copy_cell (pKey c) (keyCells h) = (pKey c', keyCells h')" "inline c' = inline c"
  using assms by (auto simp: Clone_def case_prod_unfold Let_def)

text \<open>What a configuration says, in terms of what its pointers give.\<close>

lemma content_eq:
  assumes "inline c = inline d" and "map_option ((!) (tlsCells h)) (pTLS c) = map_option ((!) (tlsCells k)) (pTLS d)"
    and "map_option ((!) (keyCells h)) (pKey c) = map_option ((!) (keyCells k)) (pKey d)"
    and "params_at (pParams c) (mapCells h) = params_of k d"
  shows "cfg_content h c = cfg_content k d"
  using assms by (simp add: cfg_content_def params_of_def params_at_def)

section \<open>Properties\<close>

text \<open>
  A cloned configuration says the same as the original, and nothing done through the clone to its TLS
  configuration, its key or its parameters, if it has any, changes what the original says.
\<close>

theorem clone_is_independent:
  assumes "pointers_ok h c" and "Clone c h = (c', h')" and "params_of h c \<noteq> []"
  shows "cfg_content h' c' = cfg_content h c \<and>
    cfg_content (write_params k c' (write_objects f g c' h')) c = cfg_content h c"
proof -
  note p = clone_parts [OF assms(2)] and ok = assms(1) [unfolded pointers_ok_def]
  note t = copy_cell_props [OF p(1)] and m = copy_params_props [OF p(2)] and y = copy_cell_props [OF p(3)]
  have "cfg_content h' c' = cfg_content h c"
    by (rule content_eq) (use p(4) t(1) y(1) m(1) ok in blast)+
  moreover have "cfg_content (write_params k c' (write_objects f g c' h')) c = cfg_content h c"
  proof (rule content_eq [OF refl])
    let ?h = "write_params k c' (write_objects f g c' h')"
    have q: "pParams c' = Some (length (mapCells h))" using m(4) assms(3) ok by blast
    then have "?h = (write_objects f g c' h')\<lparr>mapCells := (mapCells h')[length (mapCells h) := k (mapCells h' ! length (mapCells h))]\<rparr>"
      by (simp add: write_params_def write_objects_def)
    then show "map_option ((!) (tlsCells ?h)) (pTLS c) = map_option ((!) (tlsCells h)) (pTLS c)"
      "map_option ((!) (keyCells ?h)) (pKey c) = map_option ((!) (keyCells h)) (pKey c)"
      "params_at (pParams c) (mapCells ?h) = params_of h c"
      using t(3,4) y(3,4) t(2) y(2) m(4) assms(3) ok by (auto simp: write_objects_def split: option.splits)
  qed
  ultimately show ?thesis ..
qed

definition demo_heap :: heap where
  "demo_heap = \<lparr>tlsCells = [\<lparr>tlsServerName = [], tlsSkipVerify = False, tlsRest = 0\<rparr>], keyCells = [], mapCells = [[([99], [100])]]\<rparr>"

definition demo_vars :: cfgVars where
  "demo_vars = \<lparr>inline = NewConfig, pTLS = Some 0, pKey = None, pParams = Some 0\<rparr>"

theorem clone_is_independent_witness:
  "\<exists>c h. Clone demo_vars demo_heap = (c, h) \<and> pParams c = Some 1 \<and>
     cfg_content (write_params (\<lambda>_. []) c (write_objects (\<lambda>t. t\<lparr>tlsSkipVerify := True\<rparr>) id c h)) demo_vars =
       cfg_content demo_heap demo_vars"
proof -
  obtain c h where ch: "Clone demo_vars demo_heap = (c, h)" by (cases "Clone demo_vars demo_heap")
  have ok: "pointers_ok demo_heap demo_vars" "params_of demo_heap demo_vars \<noteq> []"
    by (simp_all add: pointers_ok_def params_of_def demo_heap_def demo_vars_def)
  have "pParams c = Some 1" using copy_params_props(4) [OF clone_parts(2) [OF ch] _ ok(2)] by (simp add: demo_heap_def demo_vars_def)
  with clone_is_independent [OF ok(1) ch ok(2), of "\<lambda>_. []" "\<lambda>t. t\<lparr>tlsSkipVerify := True\<rparr>" id] ch show ?thesis by blast
qed

text \<open>An empty map of parameters is not copied but shared: a parameter set in the clone appears in the original.\<close>

theorem empty_params_shared:
  assumes "pointers_ok h c" and "Clone c h = (c', h')" and "pParams c = Some a" and "mapCells h ! a = []"
  shows "cParams (cfg_content (write_params (\<lambda>_. ps) c' h') c) = ps"
  using copy_params_props(3) [OF clone_parts(2) [OF assms(2)]] assms(1,3,4)
  by (auto simp: cfg_content_def params_of_def write_params_def pointers_ok_def)

end
