(* ===== verification/Lexing.thy ===== *)
theory Lexing
  imports Params
begin

text \<open>
  How a server reads a statement with interpolated arguments (\<open>interpolateParams\<close> of \<open>mysql/connection.go\<close>): a scanner
  for quotes and comments, after the documentation of the server's lexical structure (with its mode \<open>ANSI_QUOTES\<close> off), and
  the tokens an argument adds.
\<close>

section \<open>Tokens\<close>

text \<open>
  A string in single quotes with its value, text in other quotes (names, or strings, by the server's mode), a
  comment, and any other character by itself.
\<close>

datatype token = Char byte | Str bytes | Quoted byte bytes | Comment

text \<open>Behind an opening quote \<open>d\<close>: \<open>raw\<close> says that a backslash is a character like any other.\<close>

fun read_quoted :: "byte \<Rightarrow> bool \<Rightarrow> bytes \<Rightarrow> (bytes \<times> bytes) option" where
  "read_quoted d raw [] = None"
| "read_quoted d raw [c] = (if c = d then Some ([], []) else None)"
| "read_quoted d raw (c # e # xs) =
     (if c = d then if e = d then push d (read_quoted d raw xs) else Some ([], e # xs)
      else if c = 0x5c \<and> \<not> raw then push (unescape e) (read_quoted d raw xs)
      else push c (read_quoted d raw (e # xs)))"

lemma read_quoted_literal: "read_quoted 0x27 raw s = read_literal raw s"
  by (induction raw s rule: read_literal.induct) auto

text \<open>White space and control characters.\<close>

definition white :: "byte \<Rightarrow> bool" where
  "white c \<longleftrightarrow> c \<le> 0x20 \<or> c = 0x7f"

text \<open>Two dashes start a comment when white space or nothing follows.\<close>

fun dash_comment :: "bytes \<Rightarrow> bool" where
  "dash_comment (a # b # s) \<longleftrightarrow> a = 0x2d \<and> b = 0x2d \<and> (s = [] \<or> white (hd s))"
| "dash_comment _ \<longleftrightarrow> False"

fun slash_comment :: "bytes \<Rightarrow> bool" where
  "slash_comment (a # b # s) \<longleftrightarrow> a = 0x2f \<and> b = 0x2a"
| "slash_comment _ \<longleftrightarrow> False"

fun close_comment :: "bytes \<Rightarrow> bytes option" where
  "close_comment (a # b # s) = (if a = 0x2a \<and> b = 0x2f then Some s else close_comment (b # s))"
| "close_comment _ = None"

definition skip_line :: "bytes \<Rightarrow> bytes" where
  "skip_line s = dropWhile (\<lambda>c. c \<noteq> 0x0a) s"

lemma read_quoted_shorter: "read_quoted d raw s = Some (v, r) \<Longrightarrow> length r < length s"
  by (induction d raw s arbitrary: v r rule: read_quoted.induct) (force simp: push_def split: if_splits)+

lemma close_comment_shorter: "close_comment s = Some r \<Longrightarrow> length r < length s"
  by (induction s arbitrary: r rule: close_comment.induct) (force split: if_splits)+

lemma skip_line_shorter: "length (skip_line s) \<le> length s"
  by (simp add: skip_line_def length_dropWhile_le)

text \<open>
  \<open>None\<close> is a quote or a comment without end, or one of the comments whose text the server may execute or take
  as a hint.
\<close>

function lex :: "bool \<Rightarrow> bytes \<Rightarrow> token list option" where
  "lex nb [] = Some []"
| "lex nb (c # s) =
     (if c = 0x27 \<or> c = 0x22 \<or> c = 0x60
      then case read_quoted c (nb \<or> c = 0x60) s of
             None \<Rightarrow> None
           | Some (v, r) \<Rightarrow> map_option (Cons (if c = 0x27 then Str v else Quoted c v)) (lex nb r)
      else if c = 0x23 \<or> dash_comment (c # s) then map_option (Cons Comment) (lex nb (skip_line s))
      else if slash_comment (c # s)
      then if tl s \<noteq> [] \<and> hd (tl s) \<in> {0x21, 0x2b, 0x4d} then None
           else case close_comment (tl s) of
                  None \<Rightarrow> None
                | Some r \<Rightarrow> map_option (Cons Comment) (lex nb r)
      else map_option (Cons (Char c)) (lex nb s))"
  by pat_completeness auto
termination
  by (relation "measure (\<lambda>(nb, s). length s)")
    (auto dest!: read_quoted_shorter close_comment_shorter simp: skip_line_shorter le_imp_less_Suc intro: less_SucI
      elim: less_le_trans)

declare lex.simps(2) [simp del]

section \<open>Substitution\<close>

text \<open>Every question mark replaced, in the bytes of a statement and in its tokens.\<close>

fun subst :: "bytes \<Rightarrow> bytes list \<Rightarrow> bytes" where
  "subst [] ls = []"
| "subst (c # q) ls = (if c = 0x3f then hd ls @ subst q (tl ls) else c # subst q ls)"

fun refill :: "token list \<Rightarrow> token list list \<Rightarrow> token list" where
  "refill [] tks = []"
| "refill (t # ts) tks = (if t = Char 0x3f then hd tks @ refill ts (tl tks) else t # refill ts tks)"

abbreviation marks :: "token list \<Rightarrow> nat" where
  "marks ts \<equiv> count_list ts (Char 0x3f)"

text \<open>No question mark next to another or to a string in single quotes: two literals side by side are one.\<close>

fun apart :: "token list \<Rightarrow> bool" where
  "apart (t # u # ts) \<longleftrightarrow> \<not> (t = Char 0x3f \<and> (u = Char 0x3f \<or> (\<exists>v. u = Str v))) \<and>
     \<not> ((\<exists>v. t = Str v) \<and> u = Char 0x3f) \<and> apart (u # ts)"
| "apart _ \<longleftrightarrow> True"

lemma subst_plain: "0x3f \<notin> set x \<Longrightarrow> subst (x @ r) ls = x @ subst r ls"
  by (induction x) auto

lemma subst_weave: "length ls = count_list q 0x3f \<Longrightarrow> subst q ls = weave (split_byte 0x3f q) ls"
proof (induction q arbitrary: ls)
  case (Cons c q)
  have ne: "split_byte 0x3f q \<noteq> []" by (cases q) (auto split: list.splits)
  show ?case
  proof (cases "c = 0x3f")
    case True
    then obtain l ls' where "ls = l # ls'" using Cons.prems by (cases ls) auto
    then show ?thesis using True Cons by simp
  next
    case False
    then show ?thesis using Cons ne by (cases "split_byte 0x3f q"; cases ls) auto
  qed
qed auto

section \<open>What a scanner reads does not depend on what follows\<close>

lemma read_quoted_local:
  assumes "read_quoted d raw s = Some (v, r)"
  shows "\<exists>y. s = y @ r \<and> y \<noteq> [] \<and> (r = [] \<or> hd r \<noteq> d) \<and>
    (\<forall>r'. (r' = [] \<or> hd r' \<noteq> d) \<longrightarrow> read_quoted d raw (y @ r') = Some (v, r'))"
  using assms
proof (induction d raw s arbitrary: v r rule: read_quoted.induct)
  case (2 d raw c)
  have "read_quoted d raw (d # r') = Some ([], r')" if "r' = [] \<or> hd r' \<noteq> d" for r' using that by (cases r') auto
  with 2 show ?case by (intro exI [of _ "[d]"]) (auto split: if_splits)
next
  case (3 d raw c e xs)
  consider "c = d" "e = d" | "c = d" "e \<noteq> d" | "c \<noteq> d" "c = 0x5c \<and> \<not> raw" | "c \<noteq> d" "\<not> (c = 0x5c \<and> \<not> raw)" by blast
  then show ?case
  proof cases
    case 1
    then obtain v' where v: "read_quoted d raw xs = Some (v', r)" "v = d # v'" using "3.prems" by (auto simp: push_def)
    from "3.IH"(1) [OF 1 v(1)] obtain y where y: "xs = y @ r" "y \<noteq> []" "r = [] \<or> hd r \<noteq> d"
      "\<forall>r'. (r' = [] \<or> hd r' \<noteq> d) \<longrightarrow> read_quoted d raw (y @ r') = Some (v', r')" by blast
    then show ?thesis using 1 v(2) by (intro exI [of _ "d # d # y"]) (auto simp: push_def)
  next
    case 2
    have "read_quoted d raw (d # r') = Some ([], r')" if "r' = [] \<or> hd r' \<noteq> d" for r' using that by (cases r') auto
    with 2 show ?thesis using "3.prems" by (intro exI [of _ "[d]"]) auto
  next
    case 3
    then obtain v' where v: "read_quoted d raw xs = Some (v', r)" "v = unescape e # v'" using "3.prems" by (auto simp: push_def)
    from "3.IH"(2) [OF 3 v(1)] obtain y where y: "xs = y @ r" "y \<noteq> []" "r = [] \<or> hd r \<noteq> d"
      "\<forall>r'. (r' = [] \<or> hd r' \<noteq> d) \<longrightarrow> read_quoted d raw (y @ r') = Some (v', r')" by blast
    then show ?thesis using 3 v(2) by (intro exI [of _ "c # e # y"]) (auto simp: push_def)
  next
    case 4
    then obtain v' where v: "read_quoted d raw (e # xs) = Some (v', r)" "v = c # v'" using "3.prems" by (auto simp: push_def)
    from "3.IH"(3) [OF 4 v(1)] obtain y where y: "e # xs = y @ r" "y \<noteq> []" "r = [] \<or> hd r \<noteq> d"
      "\<forall>r'. (r' = [] \<or> hd r' \<noteq> d) \<longrightarrow> read_quoted d raw (y @ r') = Some (v', r')" by blast
    have "read_quoted d raw (c # y @ r') = push c (read_quoted d raw (y @ r'))" for r'
      using 4 y(2) by (cases y) auto
    then show ?thesis using 4 v(2) y by (intro exI [of _ "c # y"]) (auto simp: push_def)
  qed
qed simp

lemma close_comment_local:
  assumes "close_comment s = Some r"
  shows "\<exists>y. s = y @ r \<and> y \<noteq> [] \<and> (\<forall>r'. close_comment (y @ r') = Some r')"
  using assms
proof (induction s arbitrary: r rule: close_comment.induct)
  case (1 a b s)
  show ?case
  proof (cases "a = 0x2a \<and> b = 0x2f")
    case True
    then show ?thesis using "1.prems" by (intro exI [of _ "[0x2a, 0x2f]"]) auto
  next
    case False
    then have "close_comment (b # s) = Some r" using "1.prems" by auto
    from "1.IH" [OF False this] obtain y where y: "b # s = y @ r" "y \<noteq> []" "\<forall>r'. close_comment (y @ r') = Some r'" by blast
    have "close_comment (a # y @ r') = close_comment (y @ r')" for r' using False y(1,2) by (cases y) auto
    then show ?thesis using y by (intro exI [of _ "a # y"]) auto
  qed
qed auto

lemma skip_line_local: "\<exists>y. s = y @ skip_line s \<and> (0x3f \<notin> set y \<longrightarrow> skip_line (subst s ls) = subst (skip_line s) ls)"
proof -
  let ?y = "takeWhile (\<lambda>c. c \<noteq> 0x0a) s"
  have y: "s = ?y @ skip_line s" by (simp add: skip_line_def)
  have "skip_line (subst s ls) = subst (skip_line s) ls" if "0x3f \<notin> set ?y"
  proof -
    have "subst s ls = ?y @ subst (skip_line s) ls" using subst_plain [OF that, of "skip_line s" ls] y by simp
    moreover have "skip_line (?y @ t) = skip_line t" for t by (auto simp: skip_line_def dropWhile_append dest: set_takeWhileD)
    moreover have "skip_line (subst (skip_line s) ls) = subst (skip_line s) ls"
    proof (cases "skip_line s")
      case (Cons c r)
      then have "c = 0x0a" using hd_dropWhile [of "\<lambda>c. c \<noteq> 0x0a" s] by (simp add: skip_line_def)
      then show ?thesis using Cons by (simp add: skip_line_def)
    next
      case Nil
      then show ?thesis by (simp add: skip_line_def [of "[]"])
    qed
    ultimately show ?thesis by simp
  qed
  with y show ?thesis by blast
qed

section \<open>One step of the scanner\<close>

lemma scan_step:
  assumes "lex nb (c # s) = Some ts"
  obtains (quote) v r ts' where "c = 0x27 \<or> c = 0x22 \<or> c = 0x60" "read_quoted c (nb \<or> c = 0x60) s = Some (v, r)"
      "ts = (if c = 0x27 then Str v else Quoted c v) # ts'" "lex nb r = Some ts'"
    | (line) ts' where "\<not> (c = 0x27 \<or> c = 0x22 \<or> c = 0x60)" "c = 0x23 \<or> dash_comment (c # s)"
      "ts = Comment # ts'" "lex nb (skip_line s) = Some ts'"
    | (block) r ts' where "\<not> (c = 0x27 \<or> c = 0x22 \<or> c = 0x60)" "\<not> (c = 0x23 \<or> dash_comment (c # s))"
      "slash_comment (c # s)" "\<not> (tl s \<noteq> [] \<and> hd (tl s) \<in> {0x21, 0x2b, 0x4d})" "close_comment (tl s) = Some r"
      "ts = Comment # ts'" "lex nb r = Some ts'"
    | (plain) ts' where "\<not> (c = 0x27 \<or> c = 0x22 \<or> c = 0x60)" "\<not> (c = 0x23 \<or> dash_comment (c # s))"
      "\<not> slash_comment (c # s)" "ts = Char c # ts'" "lex nb s = Some ts'"
proof -
  show thesis
  proof (cases "c = 0x27 \<or> c = 0x22 \<or> c = 0x60")
    case True
    then show ?thesis using assms by (auto simp: lex.simps(2) split: option.splits if_splits intro: quote)
  next
    case nq: False
    show ?thesis
    proof (cases "c = 0x23 \<or> dash_comment (c # s)")
      case True
      with nq assms show ?thesis by (auto simp: lex.simps(2) intro: line)
    next
      case nl: False
      show ?thesis
      proof (cases "slash_comment (c # s)")
        case True
        have "lex nb (c # s) = (if tl s \<noteq> [] \<and> hd (tl s) \<in> {0x21, 0x2b, 0x4d} then None
            else case close_comment (tl s) of None \<Rightarrow> None | Some r \<Rightarrow> map_option (Cons Comment) (lex nb r))"
          using nq nl True by (subst lex.simps(2)) simp
        with assms obtain r where "\<not> (tl s \<noteq> [] \<and> hd (tl s) \<in> {0x21, 0x2b, 0x4d})" "close_comment (tl s) = Some r"
          "map_option (Cons Comment) (lex nb r) = Some ts" by (auto split: if_splits option.splits)
        then show ?thesis using nq nl True by (auto intro: block)
      next
        case False
        then have "map_option (Cons (Char c)) (lex nb s) = Some ts" using nq nl assms by (subst (asm) lex.simps(2)) simp
        then show ?thesis using nq nl False by (auto intro: plain)
      qed
    qed
  qed
qed

lemma marks_bound: "lex nb q = Some ts \<Longrightarrow> marks ts \<le> count_list q 0x3f"
proof (induction q arbitrary: ts rule: measure_induct_rule [where f = length])
  case (less q)
  show ?case
  proof (cases q)
    case (Cons c s)
    from less.prems [unfolded Cons] show ?thesis
    proof (cases rule: scan_step)
      case (quote v r ts')
      obtain y where "s = y @ r" using read_quoted_local [OF quote(2)] by blast
      then show ?thesis using less.IH [OF _ quote(4)] Cons quote(3) by auto
    next
      case (line ts')
      obtain y where "s = y @ skip_line s" using skip_line_local by blast
      then have "count_list (skip_line s) 0x3f \<le> count_list s 0x3f" by (metis count_list_append le_add2)
      then show ?thesis using less.IH [OF _ line(4)] Cons line(3) skip_line_shorter [of s] by auto
    next
      case (block r ts')
      obtain y where "tl s = y @ r" using close_comment_local [OF block(5)] by blast
      moreover have "s \<noteq> []" using block(3) by (cases s) auto
      ultimately show ?thesis using less.IH [OF _ block(7)] Cons block(6) by (cases s) auto
    next
      case (plain ts')
      then show ?thesis using less.IH [OF _ plain(5)] Cons by auto
    qed
  qed (use less.prems in auto)
qed

section \<open>Literals\<close>

text \<open>A literal that reads as the tokens \<open>tk\<close> wherever no quote follows, and starts no comment with what is before it.\<close>

definition good :: "bool \<Rightarrow> bytes \<Rightarrow> token list \<Rightarrow> bool" where
  "good nb l tk \<longleftrightarrow> l \<noteq> [] \<and> \<not> white (hd l) \<and> hd l \<notin> {0x22, 0x60, 0x2a} \<and>
     (hd l = 0x2d \<longrightarrow> tl l \<noteq> [] \<and> \<not> white (hd (tl l))) \<and>
     (\<forall>r. (r = [] \<or> hd r \<noteq> 0x27) \<longrightarrow> lex nb (l @ r) = map_option ((@) tk) (lex nb r))"

lemma good_scan: "good nb l tk \<Longrightarrow> r = [] \<or> hd r \<noteq> 0x27 \<Longrightarrow> lex nb (l @ r) = map_option ((@) tk) (lex nb r)"
  unfolding good_def by blast

lemma no_new_comment:
  assumes "list_all2 (good nb) ls tks" and "length ls = count_list s 0x3f"
    and "\<not> dash_comment (c # s)" and "\<not> slash_comment (c # s)"
  shows "\<not> dash_comment (c # subst s ls)" and "\<not> slash_comment (c # subst s ls)"
proof -
  have l: "l \<noteq> [] \<and> \<not> white (hd l) \<and> hd l \<noteq> 0x2a \<and> (hd l = 0x2d \<longrightarrow> tl l \<noteq> [] \<and> \<not> white (hd (tl l)))" if "l \<in> set ls" for l
    using assms(1) that by (auto simp: list_all2_conv_all_nth in_set_conv_nth good_def)
  show "\<not> slash_comment (c # subst s ls)"
  proof (cases s)
    case (Cons d s2)
    show ?thesis
    proof (cases "d = 0x3f")
      case True
      then obtain x ls' where ls: "ls = x # ls'" using assms(2) Cons by (cases ls) auto
      then show ?thesis using l [of x] Cons True by (cases x) auto
    qed (use assms(4) Cons in auto)
  qed simp
  show "\<not> dash_comment (c # subst s ls)"
  proof (cases s)
    case (Cons d s2)
    show ?thesis
    proof (cases "d = 0x3f")
      case True
      then obtain x ls' where ls: "ls = x # ls'" using assms(2) Cons by (cases ls) auto
      then show ?thesis using l [of x] Cons True by (cases x; cases "tl x") auto
    next
      case d: False
      show ?thesis
      proof (cases s2)
        case (Cons e s3)
        show ?thesis
        proof (cases "e = 0x3f")
          case True
          then obtain x ls' where "ls = x # ls'" using assms(2) \<open>s = d # s2\<close> Cons d by (cases ls) auto
          then show ?thesis using l [of x] \<open>s = d # s2\<close> Cons True d by (cases x) auto
        qed (use assms(3) \<open>s = d # s2\<close> Cons d in auto)
      qed (use assms(3) \<open>s = d # s2\<close> d in auto)
    qed
  qed simp
qed

text \<open>What comes behind a string or a question mark.\<close>

lemma head_kept:
  assumes "list_all2 (good nb) ls tks" and "length ls = count_list r 0x3f" and "r = [] \<or> hd r \<noteq> d"
    and "d \<in> {0x22, 0x60} \<or> r = [] \<or> hd r \<noteq> 0x3f"
  shows "subst r ls = [] \<or> hd (subst r ls) \<noteq> d"
proof (cases r)
  case (Cons c s)
  show ?thesis
  proof (cases "c = 0x3f")
    case True
    then obtain x ls' tk tks' where "ls = x # ls'" "good nb x tk" using assms(1,2) Cons by (cases ls; cases tks) auto
    then show ?thesis using assms(4) Cons True by (auto simp: good_def)
  qed (use assms(3) Cons in auto)
qed simp

lemma first_token:
  assumes "lex nb (c # s) = Some ts"
  shows "c = 0x3f \<Longrightarrow> \<exists>ts'. ts = Char 0x3f # ts'" "c = 0x27 \<Longrightarrow> \<exists>v ts'. ts = Str v # ts'"
proof -
  have d: "\<not> dash_comment (0x3f # s)" "\<not> slash_comment (0x3f # s)" for s by (cases s; simp)+
  show "c = 0x3f \<Longrightarrow> \<exists>ts'. ts = Char 0x3f # ts'" using assms d [of s] by (cases rule: scan_step) auto
  show "c = 0x27 \<Longrightarrow> \<exists>v ts'. ts = Str v # ts'" using assms by (cases rule: scan_step) auto
qed

lemma apart_tl: "apart (t # ts) \<Longrightarrow> apart ts"
  by (cases ts) auto

lemma apart_next:
  assumes "lex nb r = Some ts" and "apart (t # ts)"
  shows "t = Char 0x3f \<Longrightarrow> r = [] \<or> hd r \<noteq> 0x27 \<and> hd r \<noteq> 0x3f" "t = Str v \<Longrightarrow> r = [] \<or> hd r \<noteq> 0x3f"
  using assms first_token [of nb "hd r" "tl r" ts] by (cases r; fastforce)+

lemma hd_quote:
  assumes "list_all2 (good nb) ls tks" and "length ls = count_list r 0x3f" and "lex nb r = Some ts"
    and "apart (t # ts)" and "t = Char 0x3f"
  shows "subst r ls = [] \<or> hd (subst r ls) \<noteq> 0x27"
  using head_kept [OF assms(1,2)] apart_next(1) [OF assms(3,4,5)] by blast

section \<open>The statement as the server reads it\<close>

lemma scan_subst:
  assumes "lex nb q = Some ts" and "marks ts = count_list q 0x3f" and "apart ts"
    and "list_all2 (good nb) ls tks" and "length ls = count_list q 0x3f"
  shows "lex nb (subst q ls) = Some (refill ts tks)"
  using assms
proof (induction q arbitrary: ts ls tks rule: measure_induct_rule [where f = length])
  case (less q)
  show ?case
  proof (cases q)
    case Nil
    then show ?thesis using less.prems by auto
  next
    case (Cons c s)
    note p = less.prems [unfolded Cons]
    from p(1) show ?thesis
    proof (cases rule: scan_step)
      case (quote v r ts')
      obtain y where y: "s = y @ r" "r = [] \<or> hd r \<noteq> c"
        "\<forall>r'. (r' = [] \<or> hd r' \<noteq> c) \<longrightarrow> read_quoted c (nb \<or> c = 0x60) (y @ r') = Some (v, r')"
        using read_quoted_local [OF quote(2)] by blast
      have c: "c \<noteq> 0x3f" using quote(1) by auto
      have cnt: "count_list y 0x3f = 0" "marks ts' = count_list r 0x3f"
        using p(2) quote(3) marks_bound [OF quote(4)] y(1) c by (auto split: if_splits)
      then have n: "0x3f \<notin> set y" "length ls = count_list r 0x3f" using p(5) y(1) c by (auto simp: count_list_0_iff)
      have "subst r ls = [] \<or> hd (subst r ls) \<noteq> c"
      proof (rule head_kept [OF p(4) n(2) y(2)])
        show "c \<in> {0x22, 0x60} \<or> r = [] \<or> hd r \<noteq> 0x3f"
          using quote(1,3) p(3) apart_next(2) [OF quote(4), of "Str v" v] by auto
      qed
      then have "read_quoted c (nb \<or> c = 0x60) (y @ subst r ls) = Some (v, subst r ls)" using y(3) by blast
      then have "read_quoted c (nb \<or> c = 0x60) (subst s ls) = Some (v, subst r ls)" by (simp add: y(1) subst_plain [OF n(1)])
      moreover have "lex nb (subst r ls) = Some (refill ts' tks)"
        using less.IH [OF _ quote(4) cnt(2) _ p(4) n(2)] p(3) quote(3) apart_tl y(1) Cons by auto
      ultimately show ?thesis using quote(1,3) c Cons by (auto simp: lex.simps(2))
    next
      case (line ts')
      have c: "c \<noteq> 0x3f" using line(2) by (cases s; cases "tl s") auto
      obtain y where y: "s = y @ skip_line s" "0x3f \<notin> set y \<longrightarrow> skip_line (subst s ls) = subst (skip_line s) ls"
        using skip_line_local by blast
      have s: "count_list s 0x3f = count_list y 0x3f + count_list (skip_line s) 0x3f" by (subst y(1)) simp
      have cnt: "count_list y 0x3f = 0" "marks ts' = count_list (skip_line s) 0x3f"
        using p(2) line(3) marks_bound [OF line(4)] s c by auto
      then have n: "0x3f \<notin> set y" "length ls = count_list (skip_line s) 0x3f" using p(5) s c by (auto simp: count_list_0_iff)
      have d: "c = 0x23 \<or> dash_comment (c # subst s ls)"
      proof (cases "c = 0x23")
        case False
        then obtain s2 where s2: "s = 0x2d # s2" "c = 0x2d" "s2 = [] \<or> white (hd s2)" using line(2) by (cases s) auto
        then show ?thesis by (cases s2) (auto simp: white_def)
      qed simp
      have "lex nb (subst (skip_line s) ls) = Some (refill ts' tks)"
        using less.IH [OF _ line(4) cnt(2) _ p(4) n(2)] p(3) line(3) apart_tl skip_line_shorter [of s] Cons by auto
      then show ?thesis using line(1,3) c d y(2) n(1) Cons by (simp add: lex.simps(2))
    next
      case (block r ts')
      obtain s2 where s2: "c = 0x2f" "s = 0x2a # s2" using block(3) by (cases s) auto
      obtain y where y: "s2 = y @ r" "y \<noteq> []" "\<forall>r'. close_comment (y @ r') = Some r'"
        using close_comment_local [OF block(5)] s2 by auto
      have cnt: "count_list y 0x3f = 0" "marks ts' = count_list r 0x3f"
        using p(2) block(6) marks_bound [OF block(7)] y(1) s2 by auto
      then have n: "0x3f \<notin> set y" "length ls = count_list r 0x3f" using p(5) y(1) s2 by (auto simp: count_list_0_iff)
      have sub: "subst s ls = 0x2a # y @ subst r ls" using subst_plain [OF n(1)] s2 y(1) by simp
      have h: "hd (y @ subst r ls) = hd s2" "s2 \<noteq> []" using y(1,2) by auto
      have "lex nb (subst r ls) = Some (refill ts' tks)"
        using less.IH [OF _ block(7) cnt(2) _ p(4) n(2)] p(3) block(6) apart_tl y(1) s2 Cons by auto
      moreover have "\<not> dash_comment (0x2f # 0x2a # t)" for t by simp
      ultimately show ?thesis using block(4,6) s2 sub h y(2,3) Cons by (simp add: lex.simps(2))
    next
      case (plain ts')
      show ?thesis
      proof (cases "c = 0x3f")
        case True
        obtain l ls' tk tks' where ls: "ls = l # ls'" "tks = tk # tks'" "good nb l tk" "list_all2 (good nb) ls' tks'"
          using p(4,5) True by (cases ls; cases tks) auto
        have n: "marks ts' = count_list s 0x3f" "length ls' = count_list s 0x3f" using p(2,5) plain(4) True ls(1) by auto
        have "lex nb (subst s ls') = Some (refill ts' tks')"
          using less.IH [OF _ plain(5) n(1) _ ls(4) n(2)] p(3) plain(4) apart_tl Cons by auto
        moreover have "subst s ls' = [] \<or> hd (subst s ls') \<noteq> 0x27"
          by (rule hd_quote [OF ls(4) n(2) plain(5), of "Char c"]) (use p(3) plain(4) True in auto)
        ultimately show ?thesis using good_scan [OF ls(3)] ls(1,2) plain(4) True Cons by simp
      next
        case False
        then have n: "marks ts' = count_list s 0x3f" "length ls = count_list s 0x3f" using p(2,5) plain(4) by auto
        note k = no_new_comment [OF p(4) n(2), of c]
        have "lex nb (subst s ls) = Some (refill ts' tks)"
          using less.IH [OF _ plain(5) n(1) _ p(4) n(2)] p(3) plain(4) apart_tl Cons by auto
        then show ?thesis using plain(1-4) k False Cons by (simp add: lex.simps(2))
      qed
    qed
  qed
qed

section \<open>The literals of the arguments\<close>

text \<open>Words of digits, letters, dots, signs and underscores, without two dashes in a row or one at the end.\<close>

definition word_byte :: "byte \<Rightarrow> bool" where
  "word_byte c \<longleftrightarrow> 0x30 \<le> c \<and> c \<le> 0x39 \<or> 0x41 \<le> c \<and> c \<le> 0x5a \<or> 0x61 \<le> c \<and> c \<le> 0x7a \<or> c \<in> {0x2b, 0x2d, 0x2e, 0x5f}"

fun dashes_apart :: "bytes \<Rightarrow> bool" where
  "dashes_apart (c # d # s) \<longleftrightarrow> \<not> (c = 0x2d \<and> d = 0x2d) \<and> dashes_apart (d # s)"
| "dashes_apart [c] \<longleftrightarrow> c \<noteq> 0x2d"
| "dashes_apart [] \<longleftrightarrow> True"

definition plain_word :: "bytes \<Rightarrow> bool" where
  "plain_word s \<longleftrightarrow> s \<noteq> [] \<and> list_all word_byte s \<and> dashes_apart s"

lemma word_byte_harmless:
  assumes "word_byte c"
  shows "\<not> white c" "c \<notin> {0x22, 0x27, 0x60, 0x23, 0x2f, 0x2a, 0x3f}"
  using assms by (auto simp: word_byte_def white_def word_le_nat_alt)

lemma scan_word_byte: "word_byte c \<Longrightarrow> \<not> dash_comment (c # s) \<Longrightarrow> lex nb (c # s) = map_option (Cons (Char c)) (lex nb s)"
  using word_byte_harmless(2) [of c] by (cases s) (auto simp: lex.simps(2))

lemma scan_word:
  assumes "list_all word_byte l" and "dashes_apart l"
  shows "lex nb (l @ r) = map_option ((@) (map Char l)) (lex nb r)"
  using assms
proof (induction l rule: dashes_apart.induct)
  case (1 c d s)
  have "\<not> dash_comment (c # d # s @ r)" using "1.prems"(2) by auto
  moreover have "lex nb ((d # s) @ r) = map_option ((@) (map Char (d # s))) (lex nb r)"
    by (rule "1.IH") (use "1.prems" in simp_all)
  ultimately show ?case using scan_word_byte [of c "d # s @ r" nb] "1.prems"(1) by (cases "lex nb r") auto
next
  case (2 c)
  have "\<not> dash_comment (c # r)" using 2 by (cases r) auto
  then show ?case using scan_word_byte [of c r nb] 2 by (cases "lex nb r") auto
next
  case 3
  then show ?case by (cases "lex nb r") auto
qed

lemma good_word:
  assumes "plain_word l"
  shows "good nb l (map Char l)"
proof -
  obtain c s where l: "l = c # s" "word_byte c" "list_all word_byte s" using assms by (cases l) (auto simp: plain_word_def)
  have "c = 0x2d \<longrightarrow> s \<noteq> [] \<and> \<not> white (hd s)"
    using assms l(1,3) word_byte_harmless(1) [of "hd s"] by (cases s) (auto simp: plain_word_def)
  then show ?thesis
    using scan_word [of l nb] word_byte_harmless [OF l(2)] assms l(1) by (auto simp: good_def plain_word_def)
qed

text \<open>A literal in single quotes, with or without \<open>_binary\<close> before it.\<close>

lemma good_string:
  assumes "pre = [] \<or> pre = str ''_binary''"
    and "\<And>rest. rest = [] \<or> hd rest \<noteq> 0x27 \<Longrightarrow> read_quoted 0x27 nb (body @ rest) = Some (v, rest)"
  shows "good nb (pre @ 0x27 # body) (map Char pre @ [Str v])"
proof -
  have q: "lex nb (0x27 # body @ r) = map_option (Cons (Str v)) (lex nb r)" if "r = [] \<or> hd r \<noteq> 0x27" for r
    using assms(2) [OF that] by (simp add: lex.simps(2))
  have w: "list_all word_byte (str ''_binary'')" "dashes_apart (str ''_binary'')"
    by (simp_all add: str_def word_byte_def word_le_nat_alt)
  have p: "lex nb (pre @ t) = map_option ((@) (map Char pre)) (lex nb t)" for t
    using assms(1) scan_word [OF w, of nb t] by (cases "lex nb t") auto
  define l where "l = pre @ 0x27 # body"
  have sc: "\<forall>r. (r = [] \<or> hd r \<noteq> 0x27) \<longrightarrow> lex nb (l @ r) = map_option ((@) (map Char pre @ [Str v])) (lex nb r)"
  proof (intro allI impI)
    fix r :: bytes assume "r = [] \<or> hd r \<noteq> 0x27"
    then show "lex nb (l @ r) = map_option ((@) (map Char pre @ [Str v])) (lex nb r)"
      using p [of "0x27 # body @ r"] q [of r] by (cases "lex nb r") (simp_all add: l_def)
  qed
  have h: "hd l = 0x27 \<or> hd l = 0x5f" "l \<noteq> []" using assms(1) by (auto simp: str_def l_def)
  have "\<not> white (hd l)" "hd l \<notin> {0x22, 0x60, 0x2a}" "hd l \<noteq> 0x2d" using h(1) by (auto simp: white_def)
  then have "good nb l (map Char pre @ [Str v])" unfolding good_def using h(2) sc by blast
  then show ?thesis by (simp add: l_def)
qed

lemma read_quoted_plain:
  assumes "0x27 \<notin> set b" and "0x5c \<notin> set b" and "rest = [] \<or> hd rest \<noteq> 0x27"
  shows "read_quoted 0x27 nb (b @ 0x27 # rest) = Some (b, rest)"
  using assms(1,2)
proof (induction b)
  case Nil
  then show ?case using assms(3) by (cases rest) auto
next
  case (Cons c b)
  then show ?case by (cases "b @ 0x27 # rest") (auto simp: push_def)
qed

text \<open>Dates and times are digits, dashes, colons, blanks and dots.\<close>

definition clean_text :: "bytes \<Rightarrow> bool" where
  "clean_text b \<longleftrightarrow> 0x27 \<notin> set b \<and> 0x5c \<notin> set b"

lemma digit_clean: "0 \<le> k \<Longrightarrow> k < 10 \<Longrightarrow> (of_int (48 + k) :: byte) \<notin> {0x27, 0x5c}"
proof -
  assume "0 \<le> k" "k < 10"
  then have "k = 0 \<or> k = 1 \<or> k = 2 \<or> k = 3 \<or> k = 4 \<or> k = 5 \<or> k = 6 \<or> k = 7 \<or> k = 8 \<or> k = 9" by presburger
  then show ?thesis by auto
qed

lemma digits_clean: "digits01 i = Some c \<Longrightarrow> c \<notin> {0x27, 0x5c}" "digits10 i = Some c \<Longrightarrow> c \<notin> {0x27, 0x5c}"
  using digit_clean [of "i mod 10"] digit_clean [of "i div 10"]
  by (auto simp: digits01_def digits10_def split: if_splits)

lemma two_clean: "two i = Some b \<Longrightarrow> clean_text b"
  using digits_clean by (auto simp: two_def clean_text_def bind_eq_Some_conv)

lemma appendDateTime_clean: "appendDateTime [] t = Some (Inr b) \<Longrightarrow> clean_text b"
proof -
  have c: "clean_text (x @ y) \<longleftrightarrow> clean_text x \<and> clean_text y" "clean_text (z # x) \<longleftrightarrow> z \<notin> {0x27, 0x5c} \<and> clean_text x"
    "clean_text []" for x y z by (auto simp: clean_text_def)
  have t: "clean_text x \<Longrightarrow> clean_text (trim_zeros x)" for x
    by (auto simp: clean_text_def trim_zeros_def dest: set_dropWhileD)
  assume "appendDateTime [] t = Some (Inr b)"
  then show "clean_text b"
    by (auto simp: appendDateTime_def Let_def bind_eq_Some_conv c split: if_splits intro!: t dest!: two_clean digits_clean)
qed

text \<open>The tokens of an argument with the literal \<open>l\<close>.\<close>

definition arg_tokens :: "arg \<Rightarrow> bytes \<Rightarrow> token list" where
  "arg_tokens a l = (case a of
     AString v \<Rightarrow> [Str v]
   | AJson v \<Rightarrow> [Str v]
   | ABytes (Some v) \<Rightarrow> map Char (str ''_binary'') @ [Str v]
   | ATime t \<Rightarrow> [Str (butlast (tl l))]
   | _ \<Rightarrow> map Char l)"

lemma digits_word: "list_all word_byte (digits_of n) \<and> 0x2d \<notin> set (digits_of n) \<and> digits_of n \<noteq> []"
proof (induction n rule: digits_of.induct)
  case (1 n)
  have d: "word_byte (of_nat (48 + k))" "of_nat (48 + k) \<noteq> (0x2d :: byte)" if "k < 10" for k :: nat
  proof -
    have "k = 0 \<or> k = 1 \<or> k = 2 \<or> k = 3 \<or> k = 4 \<or> k = 5 \<or> k = 6 \<or> k = 7 \<or> k = 8 \<or> k = 9" using that by presburger
    then show "word_byte (of_nat (48 + k))" "of_nat (48 + k) \<noteq> (0x2d :: byte)" by (auto simp: word_byte_def word_le_nat_alt)
  qed
  show ?case using 1 d [of n] d [of "n mod 10"] by (subst (1 2 3) digits_of.simps) auto
qed

lemma dashes_none: "0x2d \<notin> set s \<Longrightarrow> dashes_apart s" "s \<noteq> [] \<Longrightarrow> 0x2d \<notin> set s \<Longrightarrow> dashes_apart (0x2d # s)"
proof -
  show n: "0x2d \<notin> set s \<Longrightarrow> dashes_apart s" for s by (induction s rule: dashes_apart.induct) auto
  show "s \<noteq> [] \<Longrightarrow> 0x2d \<notin> set s \<Longrightarrow> dashes_apart (0x2d # s)" using n [of s] by (cases s) auto
qed

lemma number_word: "plain_word (digits_of n)" "plain_word (itoa i)"
  using digits_word [of n] digits_word [of "nat (- i)"] digits_word [of "nat i"] dashes_none
  by (auto simp: plain_word_def itoa_def str_def word_byte_def)

lemma arg_good:
  assumes "literal_of mc a l" and "\<And>f bits. a = AFloat f bits \<Longrightarrow> plain_word f"
  shows "good (cstatus mc AND statusNoBackslashEscapes \<noteq> 0) l (arg_tokens a l)"
proof -
  let ?nb = "cstatus mc AND statusNoBackslashEscapes \<noteq> 0"
  let ?body = "\<lambda>v. (if cstatus mc AND statusNoBackslashEscapes = 0 then esc 0x5c backslash_code v else esc 0x27 quote_code v) @ [0x27]"
  have w: "plain_word (str ''NULL'')" "plain_word [0x30]" "plain_word [0x31]"
    by (simp_all add: plain_word_def str_def word_byte_def word_le_nat_alt)
  have strs: "good ?nb (pre @ 0x27 # ?body v) (map Char pre @ [Str v])" if "pre = [] \<or> pre = str ''_binary''" for pre v
    by (rule good_string [OF that]) (simp add: quoted_reads_back [of _ mc v, simplified] read_quoted_literal)
  show ?thesis
  proof (cases a)
    case (ATime t)
    obtain b where b: "l = 0x27 # b @ [0x27]" "clean_text b"
    proof (cases "t = zeroTime")
      case True
      then show ?thesis using assms(1) ATime by (intro that [of "str ''0000-00-00''"]) (auto simp: literal_of_def clean_text_def str_def)
    next
      case False
      have "andThen (appendDateTime [0x27] t) (\<lambda>b. Some (Inr (b @ [0x27]))) = Some (Inr l)"
        using assms(1) ATime False by (simp add: literal_of_def)
      then obtain b where "appendDateTime [] t = Some (Inr b)" "l = 0x27 # b @ [0x27]"
        by (subst (asm) appendDateTime_app, cases "appendDateTime [] t"; cases "the (appendDateTime [] t)") auto
      then show ?thesis using appendDateTime_clean that by blast
    qed
    have "good ?nb ([] @ 0x27 # b @ [0x27]) (map Char [] @ [Str b])"
      by (rule good_string) (use read_quoted_plain b(2) in \<open>auto simp: clean_text_def\<close>)
    then show ?thesis using b(1) ATime by (simp add: arg_tokens_def)
  next
    case (AJson v)
    then show ?thesis using strs [of "[]" v] assms(1) by (simp add: arg_tokens_def literal_of_def quoted_bytes)
  next
    case (AString v)
    then show ?thesis using strs [of "[]" v] assms(1) by (simp add: arg_tokens_def literal_of_def quoted_bytes)
  next
    case (ABytes x)
    show ?thesis
    proof (cases x)
      case None
      then show ?thesis using ABytes good_word [OF w(1), of ?nb] assms(1) by (simp add: arg_tokens_def literal_of_def)
    next
      case (Some v)
      then show ?thesis using ABytes strs [of "str ''_binary''" v] assms(1) by (simp add: arg_tokens_def literal_of_def quoted_bytes)
    qed
  qed (use assms good_word [of l ?nb] w number_word in \<open>auto simp: arg_tokens_def literal_of_def\<close>)
qed

section \<open>Properties\<close>

text \<open>
  C27: No argument can add anything to a statement whose question marks are placeholders to the server too.  When they all
  stand outside quotes and comments, and neither next to each other nor to a string in single quotes, the server
  reads the interpolated statement as the statement's own tokens with each question mark replaced, in order, by
  those of its argument; a string or JSON argument is one string token with exactly its value, a byte string too,
  behind \<open>_binary\<close>.  The text of a float is what \<open>strconv\<close> documents: digits, letters, dots and signs.
\<close>

theorem interpolation_is_safe:
  assumes "interpolateParams mc q args = Some (Inr s)"
    and "lex (cstatus mc AND statusNoBackslashEscapes \<noteq> 0) q = Some ts"
    and "marks ts = count_list q 0x3f" and "apart ts" and "\<forall>f bits. AFloat f bits \<in> set args \<longrightarrow> plain_word f"
  shows "\<exists>ls. list_all2 (literal_of mc) args ls \<and> length args = marks ts \<and> s = weave (split_byte 0x3f q) ls \<and>
    lex (cstatus mc AND statusNoBackslashEscapes \<noteq> 0) s = Some (refill ts (map2 arg_tokens args ls))"
proof -
  have n: "count_list q 0x3f = length args" using assms(1) by (auto simp: interpolateParams_def split: if_splits)
  obtain buf left where l: "interp_loop mc q args [] = Some (Inr (buf, left))" "s = buf"
    using assms(1) n
    by (cases "interp_loop mc q args []"; cases "the (interp_loop mc q args [])")
      (auto simp: interpolateParams_def split: sum.splits if_splits)
  from interp_loop_weaves [OF l(1) n] obtain ls where
    ls: "list_all2 (literal_of mc) args ls" "s = weave (split_byte 0x3f q) ls" using l(2) by auto
  have len: "length ls = count_list q 0x3f" using ls(1) n by (simp add: list_all2_lengthD)
  have g: "\<forall>a l. a \<in> set args \<longrightarrow> literal_of mc a l \<longrightarrow> good (cstatus mc AND statusNoBackslashEscapes \<noteq> 0) l (arg_tokens a l)"
  proof (intro allI impI)
    fix a l assume "a \<in> set args" "literal_of mc a l"
    then show "good (cstatus mc AND statusNoBackslashEscapes \<noteq> 0) l (arg_tokens a l)" using assms(5) by (intro arg_good) auto
  qed
  have "list_all2 (good (cstatus mc AND statusNoBackslashEscapes \<noteq> 0)) ls (map2 arg_tokens args ls)"
    using ls(1) g by (auto simp: list_all2_conv_all_nth)
  from scan_subst [OF assms(2-4) this len] subst_weave [OF len] show ?thesis using ls assms(3) n by auto
qed

theorem interpolation_is_safe_witness:
  "\<exists>ls. list_all2 (literal_of idle_conn) [AInt 7, AString [0x27]] ls \<and>
     lex False (str ''a=7 and b='' @ [0x27, 0x5c, 0x27, 0x27]) =
       Some (refill (map Char (str ''a=? and b=?'')) (map2 arg_tokens [AInt 7, AString [0x27]] ls))"
proof -
  have i: "interpolateParams idle_conn (str ''a=? and b=?'') [AInt 7, AString [0x27]] =
      Some (Inr (str ''a=7 and b='' @ [0x27, 0x5c, 0x27, 0x27]))"
    by (simp add: interpolateParams_def interp_loop.simps str_def takeCompleteBuffer_def idle_conn_def
        newBuffer_def quoted_bytes itoa_def digits_of.simps backslash_code_def statusNoBackslashEscapes_def)
  have nb: "(cstatus idle_conn AND statusNoBackslashEscapes \<noteq> 0) = False"
    by (simp add: idle_conn_def statusNoBackslashEscapes_def)
  have "lex False (str ''a=? and b=?'') = Some (map Char (str ''a=? and b=?''))" by (simp add: str_def lex.simps(2))
  from interpolation_is_safe [OF i, unfolded nb, OF this] show ?thesis by (auto simp: str_def)
qed

text \<open>
  A question mark inside quotes is replaced as well, and there the argument leaves its quotes: the blank and what
  follows it are tokens of the statement.
\<close>

theorem quoted_mark_breaks_out:
  "interpolateParams idle_conn (str ''select '' @ [0x27, 0x3f, 0x27]) [AString (str '' or 1'')] =
     Some (Inr (str ''select '' @ [0x27, 0x27] @ str '' or 1'' @ [0x27, 0x27])) \<and>
   lex False (str ''select '' @ [0x27, 0x27] @ str '' or 1'' @ [0x27, 0x27]) =
     Some (map Char (str ''select '') @ [Str []] @ map Char (str '' or 1'') @ [Str []])"
  by (simp add: interpolateParams_def interp_loop.simps str_def takeCompleteBuffer_def idle_conn_def
      newBuffer_def quoted_bytes backslash_code_def statusNoBackslashEscapes_def lex.simps(2))

end
