(* ===== verification/Spec2Isabelle.thy ===== *)
theory Spec2Isabelle
  imports Route Weights Pool Wire DateTime Buffer Conn Frames Results Rows Query MysqlProxy Forward Session PgProxy
    Escape Params Stmt StmtProps StmtRows Url Collations Dsn DsnProps Auth AuthProps Driver DriverProps Replicas
    Watcher ColumnTypes Values Registries Service Startup Liveness Replies Sharing Cloning Lexing
begin

text \<open>
  dbrwproxy is a proxy that splits reads from writes: it sits between the clients of a database and
  its main server, sends SELECT statements outside transactions to one of several replicas, chosen by
  weight, and everything else to the main server.  There is a proxy for MySQL, which talks to its
  replicas through a copy of the Go-MySQL-Driver that was changed to forward the bytes it reads, and one
  for PostgreSQL, which uses \<open>database/sql\<close>.  This development models the code under \<open>src/\<close> as
  HOL functions and transition systems and proves what its parts promise, and what they do not.

  \<^bold>\<open>Parts of the program and theories\<close>

  \<^item> \<open>proxy/mysql.go\<close>, \<open>proxy/postgres.go\<close>.  \<open>Route\<close> has the decision of both \<open>delegateSelect\<close> methods
    (\<open>mysql_route\<close>, \<open>pg_route\<close>, with the patterns of \<open>initRegexp\<close>), \<open>Weights\<close> the choice of a replica
    (\<open>chooseByWeight\<close>).  \<open>MysqlProxy\<close> has \<open>initMysqlDB\<close>, \<open>delegateSelect\<close>, \<open>writeDataRow\<close>, \<open>handleInbound\<close> and
    \<open>handleOutbound\<close> of the MySQL proxy on the record \<open>session\<close>, \<open>PgProxy\<close> the same of the PostgreSQL
    proxy on \<open>pgsession\<close>.  \<open>Service\<close> puts the two handlers of a session together with the client and the main
    server: the goroutines of \<open>service\<close> interleave in the relation \<open>serve_step\<close>, for both proxies.  \<open>Sharing\<close> has many
    clients of the MySQL proxy over the same pools, in the relation \<open>farm_step\<close>: connections are cells that pools and
    clients refer to by address, and a SELECT is taken apart at \<open>Get\<close> and \<open>Put\<close>.  \<open>Replies\<close> has the replies a
    server may give to a SELECT.
  \<^item> \<open>main.go\<close>, \<open>config/config.go\<close>.  \<open>Startup\<close>: \<open>StartMysql\<close>, \<open>StartPostgres\<close>, the accept loop's body, \<open>main\<close> and what
    it does on a signal, on the record \<open>process\<close>, in which pools are cells shared by number.
  \<^item> \<open>pool/connectionPool.go\<close>.  \<open>Pool\<close>: the channel of idle connections, \<open>Open\<close>, \<open>Get\<close>, \<open>Put\<close>, \<open>Close\<close> and
    the reaper, first as functions on the record \<open>pool\<close>, then interleaved in the relation \<open>pool_step\<close>.
  \<^item> The packet layer of \<open>mysql/\<close>.  \<open>Wire\<close> (encodings of \<open>utils.go\<close>), \<open>DateTime\<close> (dates and times of
    \<open>utils.go\<close>), \<open>Buffer\<close> (\<open>buffer.go\<close>: arrays live in a store by address, since slices that were handed out
    alias the buffer), \<open>Conn\<close> (the connection of \<open>connection.go\<close> and \<open>readPacket\<close>, \<open>writePacket\<close> and the
    commands of \<open>packets.go\<close>).
  \<^item> Results.  \<open>Results\<close> (OK and error packets, result headers, \<open>infile.go\<close>), \<open>Rows\<close> (column
    definitions, text rows), \<open>Query\<close> (\<open>query\<close>, \<open>exec\<close>, \<open>begin\<close>, the methods of \<open>rows.go\<close>), \<open>ColumnTypes\<close>
    (\<open>fields.go\<close> and the \<open>ColumnType\<close> methods).  The methods with a 1 at the end of their names are the
    ones the proxy added; they also append what they read to the client's output.
  \<^item> Statements.  \<open>Escape\<close> (escape functions of \<open>utils.go\<close>), \<open>Params\<close> (\<open>interpolateParams\<close>, the methods with
    arguments, \<open>handleParams\<close>, \<open>getSystemVar\<close>, \<open>Ping\<close>, \<open>BeginTx\<close>, \<open>transaction.go\<close>), \<open>Lexing\<close> (a scanner for
    what the server reads in a statement), \<open>Stmt\<close> (\<open>statement.go\<close>,
    the execute packet, the rows of the binary protocol), \<open>Values\<close> (\<open>converter\<close>, \<open>nulltime.go\<close>,
    \<open>errors.go\<close>).
  \<^item> Connecting.  \<open>Url\<close> (what is used of \<open>net/url\<close> and \<open>net\<close>), \<open>Collations\<close> (\<open>collations.go\<close>), \<open>Dsn\<close>
    (\<open>dsn.go\<close>), \<open>Cloning\<close> (\<open>Config.Clone\<close>, with the pointers of a configuration explicit), \<open>Auth\<close> (\<open>auth.go\<close> and the handshake packets of \<open>packets.go\<close>), \<open>Driver\<close> (\<open>connector.go\<close>,
    \<open>driver.go\<close>), \<open>Registries\<close> (the five registries of the driver).
  \<^item> \<open>Liveness\<close>: \<open>conncheck*.go\<close>, the check of an idle connection, and \<open>atomic_bool_go118.go\<close>.
  \<^item> \<open>Watcher\<close>: the goroutine of \<open>connection.go\<close> that cancels an operation when its context expires,
    and its \<open>atomicError\<close>.
  \<^item> \<open>Prelude\<close>: bytes, Go slices, 64 bit integers, errors, and the lemmas the others share.

  \<^bold>\<open>How the code is rendered\<close>

  A Go slice is a pair of its visible bytes and the bytes behind them up to its capacity, so that
  \<open>s[lo:hi]\<close> can read past the length as it does in Go; a panic is \<open>None\<close>.  A method that may fail
  returns a sum with the error on the left, or an optional error, with the state it leaves.  Integers
  that can wrap are words or are wrapped with \<open>wrap64\<close>.  The network of a connection is a script:
  the bytes and the error of every coming \<open>Read\<close>, the results of the coming \<open>Write\<close> calls, and what has
  been sent so far.  Maps of the code are lists of pairs where their order shows, functions to options
  elsewhere.

  Loops are recursive functions with a termination proof: over what is left of the script for reads
  (\<open>available\<close>, \<open>left_over\<close>), over the bytes left to send for writes.  The one loop that need not end,
  that of \<open>writeDataRow\<close>, is a partial function whose value \<open>None\<close> is the loop that does not return; a panic in
  it is \<open>Some None\<close>.  There is no fuel.  Concurrency is a step relation in \<open>Pool\<close> (clients, the reaper, a
  caller of \<open>Close\<close>), in \<open>Watcher\<close> (the user of a connection and its watcher), in \<open>Service\<close> (the two goroutines of a
  session, the client and the main server) and in \<open>Sharing\<close> (clients, replicas, reapers and callers of \<open>Close\<close> over
  shared pools; a client's \<open>writeDataRow\<close> is one step); the mutex of the pool is a field of its state.

  \<^bold>\<open>What is proved\<close>

  \<^item> Routing.  \<open>Route\<close>: both routers refine a machine of reads, starts and ends of transactions (the
    locale \<open>tx_router\<close>, interpreted for both), nothing but a read outside a transaction leaves for a replica,
    and a transaction stays on the main server.  \<open>Weights\<close>: each replica has exactly its share of the random
    numbers (\<open>weighted_choice\<close>).  \<open>Session\<close>, \<open>PgProxy\<close>: the handlers send the main server what the router
    assigns to it, in order.
  \<^item> Sessions.  \<open>Service\<close>: whatever the interleaving, the main server gets what the router assigns to it (the
    locale \<open>inbound_handler\<close>, interpreted for both proxies), a client that waits for its replies gets them in order,
    and a session whose client is gone winds up by itself.  \<open>Startup\<close>: each session of a started proxy chooses among
    the pools made for it.
  \<^item> Forwarding.  \<open>Frames\<close> states the frames of a payload as a specification; packets are written as
    frames and read back, what is read was framed, and \<open>readPacket1\<close> is \<open>readPacket\<close> that also forwards
    exactly the bytes it consumes.  \<open>Buffer\<close> carries this (the locale \<open>byte_source\<close>): bytes come in order and
    slices survive a flip.  \<open>Forward\<close>, \<open>Replies\<close> and \<open>Session\<close> compose it: a SELECT is answered with the
    replica's reply, be it rows, an acknowledgement or an error, byte for byte, and the connection can be used again.
    \<open>Sharing\<close>: clients that share the pools get the replies to their own SELECTs and no connection is in two hands;
    the steps of one client make what \<open>delegateSelect\<close> does (\<open>delegate_parts\<close>).
  \<^item> The pool.  Each opened connection is idle, in use or closed, exactly once, in every
    interleaving; \<open>bounded_queue\<close> is the contract of the channel.  \<open>Liveness\<close>: a stale connection that is reset is refused
    before anything is written to it, but the proxy's pool does not reset its connections.
  \<^item> Connecting.  \<open>DsnProps\<close>: names are read back as written.  \<open>Cloning\<close>: a clone is
    independent of its original, except for an empty map of parameters.  \<open>AuthProps\<close>: answers are the ones the
    server accepts, the old hash cannot overflow, a password is used through the hashes and
    RSA only, off TLS and unix sockets and with clear text not allowed.  \<open>DriverProps\<close>:
    \<open>Connect\<close> reaches a server that accepts the user and gives a connection ready for commands.  \<open>Replicas\<close>:
    the proxy's data source names mean what its configuration says, for replicas whose settings are plain.
  \<^item> Statements.  The scanner of \<open>Lexing\<close> reads an interpolated statement as its own tokens with the
    arguments' in place of the question marks, if these stand outside quotes and comments and apart; an
    execution sends its header, types and values; binary rows are read back (\<open>StmtProps\<close>, \<open>StmtRows\<close>); the type
    announced for a column fits its values but for two cases; the converter gives values the driver can send.
  \<^item> Cancellation.  A connection is cancelled for the context of its own operation only, and no call
    of the client blocks for ever.
  \<^item> Encodings.  Numbers, strings, rows and times are read back as written (\<open>codec\<close>, \<open>DateTime\<close>).
  \<^item> What goes wrong.  Some theorems state behaviour the code does not mean to have: \<open>writeDataRow\<close> loops
    for ever when the replica's stream ends inside a row, a broken connection is pooled again, for ever, and
    the reads it is handed to get no reply, a question mark in quotes lets its argument out of them, \<open>Close\<close> of the pool can deadlock with the reaper, binary rows that are cut off are completed
    with stale bytes, a fallback to plain text outlives its connection, the greeting of an old server
    makes \<open>Connect\<close> panic, a session whose main server goes away in the middle of a reply waits for ever, a signal closes the
    pools of one proxy only.

  Claims have numbers (C1, C2, ...), each in the text before its theorem.  A theorem \<open>x\<close> with hypotheses is
  followed by \<open>x_witness\<close>, which applies it at a concrete input.

  \<^bold>\<open>Parameters\<close>

  Library code the program relies on is an argument: the hash functions, RSA, TLS and key decoding
  (\<open>crypto\<close>), time zones and durations (\<open>dsn_env\<close>), the dialler, \<open>strconv.ParseFloat\<close>'s errors and the files
  that can be opened (fields of \<open>conn\<close>), \<open>rand.Intn\<close>, sqlx's rows and pgproto3's encoder (\<open>PgProxy\<close>), the
  method of a \<open>Valuer\<close>.  Hypotheses on them say what their documentation does: the length of a hash, the
  range of a random number, that a duration's text is parsed back.

  \<^bold>\<open>Not modelled\<close>

  \<^item> The sockets and files themselves: binding an address, accepting, dialling, reading and decoding the configuration are
    arguments of \<open>Startup\<close>, with their results.  In \<open>Sharing\<close> replicas give legal replies; those that die are treated in
    \<open>Forward\<close> and \<open>Session\<close>, for one client.  In \<open>Service\<close> the exchange with a replica is one step, so a
    replica that stays silent is not represented; a read of \<open>handleOutbound\<close> and its write are one step too.  Writes to
    the client in \<open>readPacket1\<close> succeed.  In \<open>Pool\<close> \<open>Open\<close> is called before there is a reaper; the
    proxy itself never calls it.
  \<^item> A nil \<open>json.RawMessage\<close> as an argument, and \<open>make\<close> running out of memory for a huge column count.
  \<^item> The server's mode \<open>ANSI_QUOTES\<close> (in \<open>Lexing\<close>), and comments whose text it may execute.
  \<^item> The system calls of \<open>conncheck*.go\<close>: their results are arguments of \<open>Liveness\<close>.
  \<^item> The locks of the registries, \<open>noCopy\<close> and the atomicity of \<open>sync/atomic\<close>: they make single accesses atomic, which the
    steps of the models are.
  \<^item> What loggers print.  \<open>fuzz.go\<close> is a test entry point.
  \<^item> Contexts given to the methods in \<open>Params\<close>, \<open>Stmt\<close> and \<open>Driver\<close> are never cancelled, as in the
    proxy; \<open>Watcher\<close> has the protocol of cancellation on its own.
  \<^item> The values of floats: a float is its text or its bits.  Locations of times: times are calendar
    fields in UTC, which the proxy's data source names leave in place.
\<close>

end
